(* ===== verification/Prelude.thy ===== *)
theory Prelude
  imports Complex_Main "HOL-Library.Multiset" "HOL-Library.Word"
begin

text \<open>
  What the component theories share: the named collections of simplification rules, the two
  loop shapes the Go code repeats everywhere (keep the first occurrence of each key; sort a
  slice with a comparison function), and lemmas about them.  The stable sort carries its laws
  in the locale \<open>sort_less\<close>, which every comparison function of the code interprets.
\<close>

named_theorems go_defs \<open>definitions of the string and float primitives\<close>
named_theorems range_simps \<open>bounds of the signals and counters of the engine\<close>

section \<open>First occurrence of each key\<close>

text \<open>
  The loop \<open>if seen[key] { continue }; seen[key] = true; out = append(out, x)\<close>, with the
  keys for which \<open>skip\<close> holds dropped as the code drops empty keys.
\<close>

fun first_by :: "('a \<Rightarrow> 'k) \<Rightarrow> ('k \<Rightarrow> bool) \<Rightarrow> 'k set \<Rightarrow> 'a list \<Rightarrow> 'a list" where
  "first_by key skip seen [] = []"
| "first_by key skip seen (x # xs) =
     (if skip (key x) \<or> key x \<in> seen then first_by key skip seen xs
      else x # first_by key skip (insert (key x) seen) xs)"

lemma set_first_by_subset: "set (first_by key skip seen xs) \<subseteq> set xs"
  by (induction xs arbitrary: seen) auto

lemma first_by_key_set:
  "key ` set (first_by key skip seen xs) = {k \<in> key ` set xs. \<not> skip k} - seen"
proof (induction xs arbitrary: seen)
  case (Cons x xs)
  then show ?case by (cases "skip (key x) \<or> key x \<in> seen") (auto simp: Cons.IH)
qed simp

lemma first_by_distinct: "distinct (map key (first_by key skip seen xs))"
proof (induction xs arbitrary: seen)
  case (Cons x xs)
  have "key x \<notin> key ` set (first_by key skip (insert (key x) seen) xs)"
    by (simp add: first_by_key_set)
  with Cons.IH show ?case by auto
qed simp

lemma first_by_avoids: "x \<in> set (first_by key skip seen xs) \<Longrightarrow> \<not> skip (key x) \<and> key x \<notin> seen"
  using first_by_key_set [of key skip seen xs] by blast

lemma length_first_by: "length (first_by key skip seen xs) \<le> length xs"
  by (induction xs arbitrary: seen) (auto intro: le_SucI)

lemma first_by_fixed:
  "distinct (map key xs) \<Longrightarrow> \<forall>x \<in> set xs. \<not> skip (key x) \<and> key x \<notin> seen \<Longrightarrow>
     first_by key skip seen xs = xs"
proof (induction xs arbitrary: seen)
  case (Cons x xs)
  then have "\<forall>y \<in> set xs. \<not> skip (key y) \<and> key y \<notin> insert (key x) seen"
    by (auto simp: image_iff)
  with Cons show ?case by simp
qed simp

lemma first_by_idem: "first_by key skip {} (first_by key skip {} xs) = first_by key skip {} xs"
  by (rule first_by_fixed) (auto simp: first_by_distinct dest: first_by_avoids)

lemma length_first_by_card:
  "length (first_by key skip {} xs) = card {k \<in> key ` set xs. \<not> skip k}"
proof -
  have "length (first_by key skip {} xs) = card (key ` set (first_by key skip {} xs))"
    using first_by_distinct [of key skip "{}" xs] distinct_card by fastforce
  then show ?thesis by (simp add: first_by_key_set)
qed

section \<open>Sorting a slice with a comparison function\<close>

text \<open>
  \<open>sort.SliceStable(xs, lt)\<close>: stable insertion sort.  An element is placed before the first
  element that is not smaller than it, so elements that compare equal keep their order.
\<close>

fun insert_less :: "('a \<Rightarrow> 'a \<Rightarrow> bool) \<Rightarrow> 'a \<Rightarrow> 'a list \<Rightarrow> 'a list" where
  "insert_less lt x [] = [x]"
| "insert_less lt x (y # ys) = (if lt y x then y # insert_less lt x ys else x # y # ys)"

definition sort_stable :: "('a \<Rightarrow> 'a \<Rightarrow> bool) \<Rightarrow> 'a list \<Rightarrow> 'a list" where
  "sort_stable lt xs = foldr (insert_less lt) xs []"

lemma sort_stable_simps [simp]:
  "sort_stable lt [] = []"
  "sort_stable lt (x # xs) = insert_less lt x (sort_stable lt xs)"
  by (simp_all add: sort_stable_def)

lemma mset_insert_less [simp]: "mset (insert_less lt x xs) = add_mset x (mset xs)"
  by (induction xs) auto

lemma mset_sort_stable [simp]: "mset (sort_stable lt xs) = mset xs"
  by (induction xs) auto

lemma set_insert_less [simp]: "set (insert_less lt x xs) = insert x (set xs)"
  by (induction xs) auto

lemma set_sort_stable [simp]: "set (sort_stable lt xs) = set xs"
  by (induction xs) auto

lemma length_sort_stable [simp]: "length (sort_stable lt xs) = length xs"
  using mset_sort_stable mset_eq_length by blast

text \<open>
  The laws a comparison function has to satisfy on the values it is really called with (\<open>ok\<close>):
  a float comparison satisfies them only where no score is NaN.
\<close>

locale sort_less =
  fixes lt :: "'a \<Rightarrow> 'a \<Rightarrow> bool" and ok :: "'a \<Rightarrow> bool"
  assumes asym: "ok a \<Longrightarrow> ok b \<Longrightarrow> lt a b \<Longrightarrow> \<not> lt b a"
    and ntrans: "ok a \<Longrightarrow> ok b \<Longrightarrow> ok c \<Longrightarrow> \<not> lt b a \<Longrightarrow> \<not> lt c b \<Longrightarrow> \<not> lt c a"
begin

lemma insert_sorted:
  "ok x \<Longrightarrow> \<forall>y \<in> set xs. ok y \<Longrightarrow> sorted_wrt (\<lambda>a b. \<not> lt b a) xs \<Longrightarrow>
     sorted_wrt (\<lambda>a b. \<not> lt b a) (insert_less lt x xs)"
proof (induction xs)
  case (Cons y ys)
  then show ?case by (auto simp: asym) (meson ntrans)
qed simp

lemma sorted: "\<forall>y \<in> set xs. ok y \<Longrightarrow> sorted_wrt (\<lambda>a b. \<not> lt b a) (sort_stable lt xs)"
  by (induction xs) (auto intro: insert_sorted)

lemma sorted_unique:
  assumes "mset xs = mset ys" "\<forall>y \<in> set xs. ok y"
    and "sorted_wrt (\<lambda>a b. \<not> lt b a) xs" "sorted_wrt (\<lambda>a b. \<not> lt b a) ys"
    and tot: "\<forall>a \<in> set xs. \<forall>b \<in> set xs. a \<noteq> b \<longrightarrow> lt a b \<or> lt b a"
  shows "xs = ys"
  using assms
proof (induction xs arbitrary: ys)
  case (Cons x xs ys')
  then obtain y ys where ys': "ys' = y # ys" by (cases ys') auto
  have sets: "set (x # xs) = set (y # ys)"
    using Cons.prems(1) ys' by (metis set_mset_mset)
  have "x = y"
  proof (rule ccontr)
    assume ne: "x \<noteq> y"
    have y_in: "y \<in> set xs" and x_in: "x \<in> set ys" using sets ne by (auto simp: set_eq_iff)
    have "\<not> lt y x" "\<not> lt x y"
      using Cons.prems(3,4) y_in x_in ys' by auto
    with Cons.prems(5) ne y_in show False by auto
  qed
  with Cons ys' show ?case by auto
qed simp

text \<open>Where distinct elements never tie, the sorted slice does not depend on the input order.\<close>

lemma order_independent:
  assumes "mset xs = mset ys" "\<forall>y \<in> set xs. ok y"
    and "\<forall>a \<in> set xs. \<forall>b \<in> set xs. a \<noteq> b \<longrightarrow> lt a b \<or> lt b a"
  shows "sort_stable lt xs = sort_stable lt ys"
proof (rule sorted_unique)
  have "set xs = set ys" using assms(1) by (metis set_mset_mset)
  then show "sorted_wrt (\<lambda>a b. \<not> lt b a) (sort_stable lt ys)"
    using assms(2) by (auto intro: sorted)
qed (use assms in \<open>auto intro: sorted\<close>)

text \<open>The kept prefix is at least as good as everything that was cut off.\<close>

lemma take_best:
  assumes "\<forall>y \<in> set xs. ok y" "a \<in> set (take k (sort_stable lt xs))"
    and "b \<in> set (drop k (sort_stable lt xs))"
  shows "\<not> lt b a"
proof -
  have "sorted_wrt (\<lambda>a b. \<not> lt b a) (take k (sort_stable lt xs) @ drop k (sort_stable lt xs))"
    using sorted [OF assms(1)] by simp
  then show ?thesis using assms(2,3) by (auto simp: sorted_wrt_append simp del: append_take_drop_id)
qed

text \<open>Stability: elements that do not compare keep their relative order.\<close>

lemma insert_filter_stable:
  assumes "\<forall>y \<in> set (x # xs). ok y" "ok k"
  shows "filter (\<lambda>y. \<not> lt y k \<and> \<not> lt k y) (insert_less lt x xs) =
         filter (\<lambda>y. \<not> lt y k \<and> \<not> lt k y) (x # xs)"
  using assms
proof (induction xs)
  case (Cons y ys)
  show ?case
  proof (cases "lt y x \<and> \<not> lt y k \<and> \<not> lt k y \<and> \<not> lt x k \<and> \<not> lt k x")
    case True
    then have "\<not> lt y x" using ntrans [of x k y] Cons.prems by auto
    with True show ?thesis by simp
  qed (use Cons in auto)
qed simp

lemma stable:
  assumes "\<forall>y \<in> set xs. ok y" "ok k"
  shows "filter (\<lambda>y. \<not> lt y k \<and> \<not> lt k y) (sort_stable lt xs) =
         filter (\<lambda>y. \<not> lt y k \<and> \<not> lt k y) xs"
  using assms
proof (induction xs)
  case (Cons x xs)
  have "filter (\<lambda>y. \<not> lt y k \<and> \<not> lt k y) (insert_less lt x (sort_stable lt xs)) =
        filter (\<lambda>y. \<not> lt y k \<and> \<not> lt k y) (x # sort_stable lt xs)"
    by (rule insert_filter_stable) (use Cons.prems in auto)
  with Cons show ?case by auto
qed simp

end

section \<open>Statements in several parts\<close>

lemma conjI3: "A \<Longrightarrow> B \<Longrightarrow> C \<Longrightarrow> A \<and> B \<and> C" by simp
lemma conjI4: "A \<Longrightarrow> B \<Longrightarrow> C \<Longrightarrow> D \<Longrightarrow> A \<and> B \<and> C \<and> D" by simp
lemma conjI5: "A \<Longrightarrow> B \<Longrightarrow> C \<Longrightarrow> D \<Longrightarrow> E \<Longrightarrow> A \<and> B \<and> C \<and> D \<and> E" by simp

section \<open>Small list lemmas\<close>

lemma filter_mset_cong_card:
  "mset xs = mset ys \<Longrightarrow> length (filter P xs) = length (filter P ys)"
  by (metis mset_filter size_mset)

lemma sum_list_le_length:
  "(\<And>x. x \<in> set xs \<Longrightarrow> f x \<le> (c::real)) \<Longrightarrow> sum_list (map f xs) \<le> c * real (length xs)"
proof (induction xs)
  case (Cons x xs)
  then have "f x \<le> c" "sum_list (map f xs) \<le> c * real (length xs)" by auto
  then show ?case by (simp add: algebra_simps)
qed simp

end
