(* ===== verification/GoFloat.thy ===== *)
theory GoFloat
  imports Prelude
begin

text \<open>
  Go's \<open>float64\<close>: the real line with the two infinities and NaN, with the comparisons and the
  special cases of IEEE 754.  Arithmetic on finite values is exact: rounding, overflow to an
  infinity and the sign of zero are not modelled.  NaN is a value because the code tests for
  it (\<open>clamp01\<close>, \<open>FullMatchScore\<close>, \<open>NormalizeBM25\<close>); \<open>x < y\<close> and \<open>x \<le> y\<close> are Go's comparisons
  and false when an operand is NaN.  HOL equality is not Go's \<open>==\<close>, which is \<open>feq\<close>.
\<close>

datatype f64 = NaN | PInf | NInf | Fin (the_fin: real)

section \<open>Arithmetic and comparison\<close>

instantiation f64 :: "{zero, one, plus, minus, uminus, times, inverse, ord}"
begin

definition zero_f64 :: f64 where "zero_f64 = Fin 0"
definition one_f64 :: f64 where "one_f64 = Fin 1"

fun plus_f64 :: "f64 \<Rightarrow> f64 \<Rightarrow> f64" where
  "plus_f64 (Fin x) (Fin y) = Fin (x + y)"
| "plus_f64 NaN y = NaN"
| "plus_f64 x NaN = NaN"
| "plus_f64 PInf NInf = NaN"
| "plus_f64 NInf PInf = NaN"
| "plus_f64 PInf y = PInf"
| "plus_f64 x PInf = PInf"
| "plus_f64 NInf y = NInf"
| "plus_f64 x NInf = NInf"

fun uminus_f64 :: "f64 \<Rightarrow> f64" where
  "uminus_f64 NaN = NaN"
| "uminus_f64 PInf = NInf"
| "uminus_f64 NInf = PInf"
| "uminus_f64 (Fin x) = Fin (- x)"

definition minus_f64 :: "f64 \<Rightarrow> f64 \<Rightarrow> f64" where "minus_f64 x y = x + (- y)"

fun times_f64 :: "f64 \<Rightarrow> f64 \<Rightarrow> f64" where
  "times_f64 (Fin x) (Fin y) = Fin (x * y)"
| "times_f64 NaN y = NaN"
| "times_f64 x NaN = NaN"
| "times_f64 PInf (Fin y) = (if y = 0 then NaN else if 0 < y then PInf else NInf)"
| "times_f64 NInf (Fin y) = (if y = 0 then NaN else if 0 < y then NInf else PInf)"
| "times_f64 (Fin x) PInf = (if x = 0 then NaN else if 0 < x then PInf else NInf)"
| "times_f64 (Fin x) NInf = (if x = 0 then NaN else if 0 < x then NInf else PInf)"
| "times_f64 PInf PInf = PInf"
| "times_f64 PInf NInf = NInf"
| "times_f64 NInf PInf = NInf"
| "times_f64 NInf NInf = PInf"

text \<open>Division by zero gives an infinity or NaN; zero is taken as positive.\<close>

fun inverse_f64 :: "f64 \<Rightarrow> f64" where
  "inverse_f64 NaN = NaN"
| "inverse_f64 PInf = Fin 0"
| "inverse_f64 NInf = Fin 0"
| "inverse_f64 (Fin x) = (if x = 0 then PInf else Fin (1 / x))"

definition divide_f64 :: "f64 \<Rightarrow> f64 \<Rightarrow> f64" where "divide_f64 x y = x * inverse y"

fun less_f64 :: "f64 \<Rightarrow> f64 \<Rightarrow> bool" where
  "less_f64 (Fin x) (Fin y) = (x < y)"
| "less_f64 NaN y = False"
| "less_f64 x NaN = False"
| "less_f64 PInf y = False"
| "less_f64 x PInf = True"
| "less_f64 x NInf = False"
| "less_f64 NInf y = True"

fun less_eq_f64 :: "f64 \<Rightarrow> f64 \<Rightarrow> bool" where
  "less_eq_f64 (Fin x) (Fin y) = (x \<le> y)"
| "less_eq_f64 NaN y = False"
| "less_eq_f64 x NaN = False"
| "less_eq_f64 x PInf = True"
| "less_eq_f64 PInf y = False"
| "less_eq_f64 NInf y = True"
| "less_eq_f64 x NInf = False"

instance ..

end

definition feq :: "f64 \<Rightarrow> f64 \<Rightarrow> bool" where
  "feq x y = (x \<noteq> NaN \<and> x = y)"

definition is_nan :: "f64 \<Rightarrow> bool" where
  "is_nan x = (x = NaN)"

lemmas f64_consts = zero_f64_def one_f64_def

lemma Fin_diff [simp]: "Fin x - Fin y = Fin (x - y)"
  by (simp add: minus_f64_def)

lemma Fin_div [simp]: "y \<noteq> 0 \<Longrightarrow> Fin x / Fin y = Fin (x / y)"
  by (simp add: divide_f64_def divide_inverse)

lemma Fin_div_zero: "Fin x / Fin 0 = (if x = 0 then NaN else if 0 < x then PInf else NInf)"
  by (simp add: divide_f64_def)

lemma feq_Fin [simp]: "feq (Fin x) (Fin y) = (x = y)" "\<not> feq NaN v" "\<not> feq v NaN"
  by (auto simp: feq_def)

lemma is_nan_simps [simp]: "is_nan NaN" "\<not> is_nan PInf" "\<not> is_nan NInf" "\<not> is_nan (Fin x)"
  by (simp_all add: is_nan_def)

lemma NaN_arith [simp]:
  "NaN + y = NaN" "x + NaN = NaN" "NaN * y = NaN" "x * NaN = NaN" "NaN - y = NaN" "x - NaN = NaN"
  "NaN / y = NaN" "x / NaN = NaN"
  by (cases x; cases y; simp add: minus_f64_def divide_f64_def)+

lemma NaN_cmp [simp]: "\<not> NaN < y" "\<not> x < NaN" "\<not> NaN \<le> y" "\<not> x \<le> NaN"
  by (cases x; cases y; simp)+

lemma f64_less_irrefl [simp]: "\<not> (x::f64) < x"
  by (cases x) simp_all

lemma f64_less_trans: "(x::f64) < y \<Longrightarrow> y < z \<Longrightarrow> x < z"
  by (cases x; cases y; cases z) simp_all

lemma f64_less_asym: "(x::f64) < y \<Longrightarrow> \<not> y < x"
  by (cases x; cases y) simp_all

lemma f64_not_less: "x \<noteq> NaN \<Longrightarrow> y \<noteq> NaN \<Longrightarrow> \<not> x < y \<longleftrightarrow> y \<le> (x::f64)"
  by (cases x; cases y) auto

lemma f64_le_iff: "x \<noteq> NaN \<Longrightarrow> (x::f64) \<le> y \<longleftrightarrow> x < y \<or> feq x y"
  by (cases x; cases y) (auto simp: feq_def)

section \<open>Conversions and the functions of package math\<close>

definition f_of_int :: "int \<Rightarrow> f64" where "f_of_int i = Fin (real_of_int i)"
definition f_of_nat :: "nat \<Rightarrow> f64" where "f_of_nat n = Fin (real n)"

fun math_exp :: "f64 \<Rightarrow> f64" where
  "math_exp (Fin x) = Fin (exp x)"
| "math_exp PInf = PInf"
| "math_exp NInf = Fin 0"
| "math_exp NaN = NaN"

fun math_log1p :: "f64 \<Rightarrow> f64" where
  "math_log1p (Fin x) = (if x < -1 then NaN else if x = -1 then NInf else Fin (ln (1 + x)))"
| "math_log1p PInf = PInf"
| "math_log1p NInf = NaN"
| "math_log1p NaN = NaN"

fun math_log :: "f64 \<Rightarrow> f64" where
  "math_log (Fin x) = (if x < 0 then NaN else if x = 0 then NInf else Fin (ln x))"
| "math_log PInf = PInf"
| "math_log NInf = NaN"
| "math_log NaN = NaN"

fun math_sqrt :: "f64 \<Rightarrow> f64" where
  "math_sqrt (Fin x) = (if x < 0 then NaN else Fin (sqrt x))"
| "math_sqrt PInf = PInf"
| "math_sqrt NInf = NaN"
| "math_sqrt NaN = NaN"

text \<open>\<open>math.Pow\<close> for a positive finite base, the only base the code raises to a power.\<close>

fun math_pow :: "f64 \<Rightarrow> f64 \<Rightarrow> f64" where
  "math_pow x (Fin y) = (if y = 0 then Fin 1 else
     (case x of Fin b \<Rightarrow> (if 0 < b then Fin (b powr y) else NaN)
      | PInf \<Rightarrow> (if 0 < y then PInf else Fin 0) | _ \<Rightarrow> NaN))"
| "math_pow x y = (if x = Fin 1 then Fin 1 else NaN)"

definition math_min :: "f64 \<Rightarrow> f64 \<Rightarrow> f64" where
  "math_min x y = (if x = NInf \<or> y = NInf then NInf else if x = NaN \<or> y = NaN then NaN
                   else if x < y then x else y)"

definition math_max :: "f64 \<Rightarrow> f64 \<Rightarrow> f64" where
  "math_max x y = (if x = PInf \<or> y = PInf then PInf else if x = NaN \<or> y = NaN then NaN
                   else if y < x then x else y)"

section \<open>Values of the unit interval\<close>

text \<open>\<open>in_unit v\<close>: a number, and between 0 and 1.  What every signal of the engine must be.\<close>

definition in_unit :: "f64 \<Rightarrow> bool" where
  "in_unit v = (\<exists>r. v = Fin r \<and> 0 \<le> r \<and> r \<le> 1)"

lemma in_unitE: "in_unit v \<Longrightarrow> (\<And>r. v = Fin r \<Longrightarrow> 0 \<le> r \<Longrightarrow> r \<le> 1 \<Longrightarrow> P) \<Longrightarrow> P"
  by (auto simp: in_unit_def)

lemma in_unit_Fin [simp]: "in_unit (Fin r) \<longleftrightarrow> 0 \<le> r \<and> r \<le> 1"
  by (simp add: in_unit_def)

lemma in_unit_specials [simp]: "\<not> in_unit NaN" "\<not> in_unit PInf" "\<not> in_unit NInf"
  by (simp_all add: in_unit_def)

lemma in_unit_iff: "in_unit v \<longleftrightarrow> 0 \<le> v \<and> v \<le> 1"
  by (cases v) (simp_all add: f64_consts)

lemma in_unit_not_nan: "in_unit v \<Longrightarrow> v \<noteq> NaN"
  by auto

text \<open>A convex combination of unit values is a unit value.\<close>

lemma convex3_unit:
  fixes a b c wa wb wc :: real
  assumes "0 \<le> a" "a \<le> 1" "0 \<le> b" "b \<le> 1" "0 \<le> c" "c \<le> 1"
    and "0 \<le> wa" "0 \<le> wb" "0 \<le> wc"
  shows "0 \<le> wa * a + wb * b + wc * c \<and> wa * a + wb * b + wc * c \<le> wa + wb + wc"
  using assms by (simp add: add_mono mult_left_le)

end
