(* ===== verification/GoStrings.thy ===== *)
theory GoStrings
  imports Prelude "HOL-Library.Sublist"
begin

text \<open>
  The functions of Go's packages strings and unicode that the engine calls.  A Go string is a
  list of bytes, \<open>string\<close> here.  Case folding and white space are those of ASCII: bytes from 128
  on belong to no letter and no space, so a text of other scripts passes through unchanged.
  A trim set with non-ASCII runes is given by their UTF-8 encodings (\<open>trim_runes\<close>).
\<close>

section \<open>Characters\<close>

definition is_space :: "char \<Rightarrow> bool" where
  "is_space c = (c \<in> {CHR 0x09, CHR 0x0A, CHR 0x0B, CHR 0x0C, CHR 0x0D, CHR '' ''})"

definition code_of :: "char \<Rightarrow> nat" where "code_of c = of_char c"

definition is_upper :: "char \<Rightarrow> bool" where "is_upper c = (65 \<le> code_of c \<and> code_of c \<le> 90)"
definition is_lower :: "char \<Rightarrow> bool" where "is_lower c = (97 \<le> code_of c \<and> code_of c \<le> 122)"
definition is_digit :: "char \<Rightarrow> bool" where "is_digit c = (48 \<le> code_of c \<and> code_of c \<le> 57)"

definition lower_char :: "char \<Rightarrow> char" where
  "lower_char c = (if is_upper c then char_of (code_of c + 32) else c)"

lemma code_lower: "is_upper c \<Longrightarrow> code_of (lower_char c) = code_of c + 32"
  by (simp add: lower_char_def code_of_def is_upper_def)

lemma lower_char_idem [simp]: "lower_char (lower_char c) = lower_char c"
proof (cases "is_upper c")
  case True
  then have "\<not> is_upper (lower_char c)" using code_lower [of c] by (auto simp: is_upper_def)
  then show ?thesis by (simp add: lower_char_def [of "lower_char c"])
qed (simp add: lower_char_def)

lemma is_space_lower [simp]: "is_space (lower_char c) = is_space c"
proof (cases "is_upper c")
  case True
  then have "code_of (lower_char c) \<ge> 97" "code_of c \<ge> 65"
    using code_lower [of c] by (auto simp: is_upper_def)
  then show ?thesis by (auto simp: is_space_def code_of_def)
qed (simp add: lower_char_def)

section \<open>Case, trimming, prefixes\<close>

definition to_lower :: "string \<Rightarrow> string" where "to_lower s = map lower_char s"

definition trim_by :: "(char \<Rightarrow> bool) \<Rightarrow> string \<Rightarrow> string" where
  "trim_by P s = rev (dropWhile P (rev (dropWhile P s)))"

definition trim :: "string \<Rightarrow> string \<Rightarrow> string" where "trim s cutset = trim_by (\<lambda>c. c \<in> set cutset) s"
definition trim_space :: "string \<Rightarrow> string" where "trim_space s = trim_by is_space s"

definition has_prefix :: "string \<Rightarrow> string \<Rightarrow> bool" where "has_prefix s p = (take (length p) s = p)"
definition has_suffix :: "string \<Rightarrow> string \<Rightarrow> bool" where "has_suffix s p = has_prefix (rev s) (rev p)"

definition trim_prefix :: "string \<Rightarrow> string \<Rightarrow> string" where
  "trim_prefix s p = (if has_prefix s p then drop (length p) s else s)"

definition trim_suffix :: "string \<Rightarrow> string \<Rightarrow> string" where
  "trim_suffix s p = (if has_suffix s p then take (length s - length p) s else s)"

text \<open>\<open>strings.Trim\<close> with a cutset of runes: a rune is removed at an edge as its encoding.\<close>

function trim_left_runes :: "string list \<Rightarrow> string \<Rightarrow> string" where
  "trim_left_runes rs s =
     (case find (\<lambda>r. r \<noteq> [] \<and> has_prefix s r) rs of
        None \<Rightarrow> s | Some r \<Rightarrow> trim_left_runes rs (drop (length r) s))"
  by pat_completeness auto
termination
proof (relation "measure (\<lambda>(rs, s). length s)", goal_cases)
  case (2 rs s r)
  then have "r \<noteq> []" "has_prefix s r" by (auto simp: find_Some_iff)
  then have "length r > 0" "s \<noteq> []" by (auto simp: has_prefix_def)
  then show ?case by simp
qed simp

declare trim_left_runes.simps [simp del]

definition trim_runes :: "string list \<Rightarrow> string \<Rightarrow> string" where
  "trim_runes rs s = rev (trim_left_runes (map rev rs) (rev (trim_left_runes rs s)))"

section \<open>Search, split and join\<close>

fun index_of :: "string \<Rightarrow> string \<Rightarrow> nat option" where
  "index_of [] sub = (if sub = [] then Some 0 else None)"
| "index_of (c # s) sub = (if has_prefix (c # s) sub then Some 0 else map_option Suc (index_of s sub))"

definition contains :: "string \<Rightarrow> string \<Rightarrow> bool" where "contains s sub = (index_of s sub \<noteq> None)"

definition has_any :: "string \<Rightarrow> string list \<Rightarrow> bool" where
  "has_any text patterns = list_ex (contains text) patterns"

fun fields_acc :: "string \<Rightarrow> string \<Rightarrow> string list" where
  "fields_acc [] acc = (if acc = [] then [] else [rev acc])"
| "fields_acc (c # s) acc =
     (if is_space c then (if acc = [] then fields_acc s [] else rev acc # fields_acc s [])
      else fields_acc s (c # acc))"

definition str_fields :: "string \<Rightarrow> string list" where "str_fields s = fields_acc s []"

fun split_char_acc :: "char \<Rightarrow> string \<Rightarrow> string \<Rightarrow> string list" where
  "split_char_acc sep [] acc = [rev acc]"
| "split_char_acc sep (c # s) acc =
     (if c = sep then rev acc # split_char_acc sep s [] else split_char_acc sep s (c # acc))"

definition split_char :: "char \<Rightarrow> string \<Rightarrow> string list" where "split_char sep s = split_char_acc sep s []"

fun join :: "string \<Rightarrow> string list \<Rightarrow> string" where
  "join sep [] = []"
| "join sep [x] = x"
| "join sep (x # y # xs) = x @ sep @ join sep (y # xs)"

lemmas go_string_defs = to_lower_def trim_by_def trim_def trim_space_def has_prefix_def has_suffix_def
  trim_prefix_def trim_suffix_def contains_def has_any_def str_fields_def split_char_def
declare go_string_defs [go_defs]

section \<open>Laws\<close>

lemma to_lower_idem [simp]: "to_lower (to_lower s) = to_lower s"
  by (simp add: to_lower_def)

lemma to_lower_Nil [simp]: "to_lower [] = []" "to_lower s = [] \<longleftrightarrow> s = []"
  by (simp_all add: to_lower_def)

lemma length_to_lower [simp]: "length (to_lower s) = length s"
  by (simp add: to_lower_def)

lemma to_lower_rev: "to_lower (rev s) = rev (to_lower s)"
  by (simp add: to_lower_def rev_map)

lemma set_trim_by: "set (trim_by P s) \<subseteq> set s"
  unfolding trim_by_def by (metis set_dropWhileD set_rev subsetI)

lemma trim_by_ends:
  assumes "trim_by P s \<noteq> []"
  shows "\<not> P (hd (trim_by P s))" "\<not> P (last (trim_by P s))"
proof -
  let ?d = "dropWhile P s"
  have r: "dropWhile P (rev ?d) \<noteq> []" using assms by (simp add: trim_by_def)
  then show "\<not> P (last (trim_by P s))"
    by (simp add: trim_by_def last_rev hd_dropWhile)
  have d: "?d \<noteq> []" using r by (metis dropWhile.simps(1) rev.simps(1))
  then have "\<not> P (hd ?d)" by (simp add: hd_dropWhile)
  then have "last (rev ?d) = hd ?d" "\<not> P (last (rev ?d))" using d by (simp_all add: last_rev)
  moreover have "last (dropWhile P (rev ?d)) = last (rev ?d)"
    using r by (metis last_appendR takeWhile_dropWhile_id)
  ultimately show "\<not> P (hd (trim_by P s))" using r by (simp add: trim_by_def hd_rev)
qed

lemma trim_by_fixed:
  assumes "s \<noteq> [] \<Longrightarrow> \<not> P (hd s)" "s \<noteq> [] \<Longrightarrow> \<not> P (last s)"
  shows "trim_by P s = s"
proof (cases "s = []")
  case False
  have "dropWhile P s = s" using False assms(1) by (cases s) auto
  moreover have "dropWhile P (rev s) = rev s"
    using False assms(2) by (cases "rev s") (auto simp: hd_rev [symmetric])
  ultimately show ?thesis by (simp add: trim_by_def)
qed (simp add: trim_by_def)

lemma trim_by_idem [simp]: "trim_by P (trim_by P s) = trim_by P s"
  by (rule trim_by_fixed) (auto simp: trim_by_ends)

lemma to_lower_trim_by:
  "(\<And>c. P (lower_char c) = P c) \<Longrightarrow> to_lower (trim_by P s) = trim_by P (to_lower s)"
  by (simp add: trim_by_def to_lower_def rev_map dropWhile_map o_def)

text \<open>A field is a word without spaces; the fields of words joined by spaces are the words.\<close>

definition is_word :: "string \<Rightarrow> bool" where
  "is_word w = (w \<noteq> [] \<and> (\<forall>c \<in> set w. \<not> is_space c))"

lemma fields_acc_words:
  "\<forall>c \<in> set acc. \<not> is_space c \<Longrightarrow> w \<in> set (fields_acc s acc) \<Longrightarrow> is_word w"
proof (induction s arbitrary: acc)
  case Nil
  then show ?case by (auto simp: is_word_def split: if_splits)
next
  case (Cons c s)
  show ?case
  proof (cases "is_space c")
    case True
    have "w = rev acc \<and> acc \<noteq> [] \<or> w \<in> set (fields_acc s [])"
      using Cons.prems(2) True by (simp split: if_splits)
    then show ?thesis using Cons.IH [of "[]"] Cons.prems(1) by (auto simp: is_word_def)
  next
    case False
    then show ?thesis using Cons.IH [of "c # acc"] Cons.prems by simp
  qed
qed

lemma fields_words: "w \<in> set (str_fields s) \<Longrightarrow> is_word w"
  unfolding str_fields_def by (erule fields_acc_words [rotated]) simp

lemma fields_acc_word: "\<forall>c \<in> set w. \<not> is_space c \<Longrightarrow> fields_acc (w @ s) acc = fields_acc s (rev w @ acc)"
  by (induction w arbitrary: acc) auto

lemma fields_join:
  "\<forall>w \<in> set ws. is_word w \<Longrightarrow> str_fields (join '' '' ws) = ws"
proof (induction ws rule: induct_list012)
  case (3 x y zs)
  have "str_fields (join '' '' (x # y # zs)) = fields_acc ('' '' @ join '' '' (y # zs)) (rev x)"
    using "3.prems" by (simp add: str_fields_def fields_acc_word is_word_def)
  also have "\<dots> = x # str_fields (join '' '' (y # zs))"
    using "3.prems" by (simp add: str_fields_def is_space_def is_word_def)
  finally show ?case using 3 by simp
next
  case (2 x)
  then have "fields_acc (x @ []) [] = fields_acc [] (rev x)"
    by (subst fields_acc_word) (auto simp: is_word_def)
  then show ?case using 2 by (simp add: str_fields_def is_word_def)
qed (simp add: str_fields_def)

lemma join_words_inj:
  "\<forall>w \<in> set xs. is_word w \<Longrightarrow> \<forall>w \<in> set ys. is_word w \<Longrightarrow> join '' '' xs = join '' '' ys \<Longrightarrow> xs = ys"
  by (metis fields_join)

lemma join_eq_Nil: "\<forall>w \<in> set ws. w \<noteq> [] \<Longrightarrow> join sep ws = [] \<longleftrightarrow> ws = []"
  by (cases "(sep, ws)" rule: join.cases) auto

lemma to_lower_join: "to_lower (join '' '' ws) = join '' '' (map to_lower ws)"
  by (induction ws rule: induct_list012) (auto simp: to_lower_def lower_char_def is_upper_def code_of_def)

lemma fields_acc_lower:
  "fields_acc (to_lower s) (to_lower acc) = map to_lower (fields_acc s acc)"
  by (induction s acc rule: fields_acc.induct) (auto simp: to_lower_def rev_map)

lemma fields_lower: "str_fields (to_lower s) = map to_lower (str_fields s)"
  using fields_acc_lower [of s "[]"] by (simp add: str_fields_def)

lemma index_of_Some_iff: "contains s sub \<longleftrightarrow> (\<exists>a b. s = a @ sub @ b)"
proof (induction s)
  case Nil
  then show ?case by (auto simp: contains_def)
next
  case (Cons c s)
  have "has_prefix (c # s) sub \<longleftrightarrow> (\<exists>b. c # s = sub @ b)"
    unfolding has_prefix_def by (metis append_eq_conv_conj append_take_drop_id)
  moreover have "(\<exists>a b. c # s = a @ sub @ b) \<longleftrightarrow>
      (\<exists>b. c # s = sub @ b) \<or> (\<exists>a b. s = a @ sub @ b)"
    by (auto simp: Cons_eq_append_conv)
  ultimately show ?case using Cons by (auto simp: contains_def)
qed

end
