(* ===== verification/Digest.thy ===== *)
theory Digest
  imports GoStrings
begin

text \<open>
  \<open>crypto/sha256\<close>, \<open>encoding/hex\<close> and the FNV-1a hash of the bag-of-words embedder, on 32-bit
  words whose addition and multiplication wrap around as Go's do.  SHA-256 follows FIPS 180-4;
  no theorem of the development needs it to be collision free.
\<close>

unbundle bit_operations_syntax

section \<open>SHA-256\<close>

type_synonym u32 = "32 word"

text \<open>The round constants and initial state of SHA-256, in decimal.\<close>

definition sha_k :: "u32 list" where
  "sha_k = [
     1116352408, 1899447441, 3049323471, 3921009573, 961987163, 1508970993, 2453635748,
     2870763221, 3624381080, 310598401, 607225278, 1426881987, 1925078388, 2162078206,
     2614888103, 3248222580, 3835390401, 4022224774, 264347078, 604807628, 770255983, 1249150122,
     1555081692, 1996064986, 2554220882, 2821834349, 2952996808, 3210313671, 3336571891,
     3584528711, 113926993, 338241895, 666307205, 773529912, 1294757372, 1396182291, 1695183700,
     1986661051, 2177026350, 2456956037, 2730485921, 2820302411, 3259730800, 3345764771,
     3516065817, 3600352804, 4094571909, 275423344, 430227734, 506948616, 659060556, 883997877,
     958139571, 1322822218, 1537002063, 1747873779, 1955562222, 2024104815, 2227730452,
     2361852424, 2428436474, 2756734187, 3204031479, 3329325298]"

definition sha_h0 :: "u32 list" where
  "sha_h0 = [
     1779033703, 3144134277, 1013904242, 2773480762, 1359893119, 2600822924, 528734635, 1541459225]"

text \<open>Bytes are naturals below 256 here; a block is 64 of them, big-endian.\<close>

definition sha_pad :: "nat list \<Rightarrow> nat list" where
  "sha_pad m = m @ [128] @ replicate ((119 - length m mod 64) mod 64) 0 @
     map (\<lambda>i. (8 * length m) div 256 ^ (7 - i) mod 256) [0..<8]"

fun sha_words :: "nat list \<Rightarrow> u32 list" where
  "sha_words (a # b # c # d # rest) =
     of_nat (((a * 256 + b) * 256 + c) * 256 + d) # sha_words rest"
| "sha_words _ = []"

fun sha_schedule :: "nat \<Rightarrow> u32 list \<Rightarrow> u32 list" where
  "sha_schedule 0 ws = ws"
| "sha_schedule (Suc n) ws =
     (let t = length ws; x = ws ! (t - 15); y = ws ! (t - 2);
          s0 = word_rotr 7 x XOR word_rotr 18 x XOR drop_bit 3 x;
          s1 = word_rotr 17 y XOR word_rotr 19 y XOR drop_bit 10 y
      in sha_schedule n (ws @ [s1 + ws ! (t - 7) + s0 + ws ! (t - 16)]))"

fun sha_round :: "u32 \<times> u32 \<Rightarrow> u32 list \<Rightarrow> u32 list" where
  "sha_round (k, w) [a, b, c, d, e, f, g, h] =
     (let s1 = word_rotr 6 e XOR word_rotr 11 e XOR word_rotr 25 e;
          ch = (e AND f) XOR (NOT e AND g);
          t1 = h + s1 + ch + k + w;
          s0 = word_rotr 2 a XOR word_rotr 13 a XOR word_rotr 22 a;
          maj = (a AND b) XOR (a AND c) XOR (b AND c)
      in [t1 + (s0 + maj), a, b, c, d + t1, e, f, g])"
| "sha_round _ hs = hs"

definition sha_block :: "u32 list \<Rightarrow> nat list \<Rightarrow> u32 list" where
  "sha_block hs block =
     map2 (+) hs (fold sha_round (zip sha_k (sha_schedule 48 (sha_words block))) hs)"

function sha_blocks :: "u32 list \<Rightarrow> nat list \<Rightarrow> u32 list" where
  "sha_blocks hs m = (if m = [] then hs else sha_blocks (sha_block hs (take 64 m)) (drop 64 m))"
  by pat_completeness auto
termination by (relation "measure (\<lambda>(hs, m). length m)") auto

declare sha_blocks.simps [simp del]

definition sha256 :: "string \<Rightarrow> nat list" where
  "sha256 s = concat (map (\<lambda>w. map (\<lambda>i. unat (drop_bit (24 - 8 * i) w) mod 256) [0..<4])
     (sha_blocks sha_h0 (sha_pad (map code_of s))))"

lemma length_sha_round [simp]: "length (sha_round kw hs) = length hs"
  by (cases "(kw, hs)" rule: sha_round.cases) (simp_all add: Let_def)

lemma length_fold_sha_round: "length (fold sha_round kws hs) = length hs"
  by (induction kws arbitrary: hs) simp_all

lemma length_sha_blocks: "length (sha_blocks hs m) = length hs"
proof (induction hs m rule: sha_blocks.induct)
  case (1 hs m)
  show ?case
  proof (cases "m = []")
    case False
    with "1.IH" have "length (sha_blocks (sha_block hs (take 64 m)) (drop 64 m)) = length hs"
      by (simp add: sha_block_def length_fold_sha_round)
    then show ?thesis using False by (simp add: sha_blocks.simps [of hs m])
  qed (simp add: sha_blocks.simps [of hs "[]"])
qed

lemma length_sha256 [simp]: "length (sha256 s) = 32"
proof -
  have "length (sha256 s) = 4 * length (sha_blocks sha_h0 (sha_pad (map code_of s)))"
    by (simp add: sha256_def length_concat o_def sum_list_triv)
  then show ?thesis by (simp add: length_sha_blocks sha_h0_def)
qed

lemma sha256_byte: "b \<in> set (sha256 s) \<Longrightarrow> b < 256"
  by (auto simp: sha256_def)

section \<open>Hexadecimal\<close>

definition hex_digit :: "nat \<Rightarrow> char" where
  "hex_digit n = (if n < 10 then char_of (48 + n) else char_of (87 + n))"

definition hex_encode :: "nat list \<Rightarrow> string" where
  "hex_encode bs = concat (map (\<lambda>b. [hex_digit (b div 16), hex_digit (b mod 16)]) bs)"

definition is_hex_lower :: "char \<Rightarrow> bool" where
  "is_hex_lower c = (is_digit c \<or> (97 \<le> code_of c \<and> code_of c \<le> 102))"

lemma code_hex_digit: "n < 16 \<Longrightarrow> code_of (hex_digit n) = (if n < 10 then 48 + n else 87 + n)"
  by (simp add: hex_digit_def code_of_def)

lemma is_hex_hex_digit: "n < 16 \<Longrightarrow> is_hex_lower (hex_digit n)"
  by (auto simp: is_hex_lower_def is_digit_def code_hex_digit)

lemma hex_digit_inj: "m < 16 \<Longrightarrow> n < 16 \<Longrightarrow> hex_digit m = hex_digit n \<longleftrightarrow> m = n"
  by (auto dest!: arg_cong [where f = code_of] simp: code_hex_digit split: if_splits)

lemma length_hex_encode [simp]: "length (hex_encode bs) = 2 * length bs"
  by (induction bs) (simp_all add: hex_encode_def)

lemma hex_encode_hex: "\<forall>b \<in> set bs. b < 256 \<Longrightarrow> c \<in> set (hex_encode bs) \<Longrightarrow> is_hex_lower c"
  by (auto simp: hex_encode_def intro!: is_hex_hex_digit)

section \<open>FNV-1a\<close>

definition fnv_step :: "u32 \<Rightarrow> char \<Rightarrow> u32" where
  "fnv_step h c = (h XOR of_nat (code_of c)) * 16777619"

definition fnvHash :: "string \<Rightarrow> u32" where "fnvHash s = fold (\<lambda>c h. fnv_step h c) s 2166136261"

end
