(* ===== verification/DomainModel.thy ===== *)
theory DomainModel
  imports GoFloat Digest
begin

text \<open>
  \<^verbatim>\<open>pkg/model\<close>: memories, edges, sessions and entities, the tokens and the fingerprint of a
  memory's text, and the closed set of edge labels.  A \<open>MemoryType\<close> and a \<open>RelationshipType\<close> are
  strings, as in Go, because a row read back from the database may hold any string.  A
  \<open>uuid.UUID\<close> is its 16 bytes as one 128-bit number, whose order is \<open>bytes.Compare\<close>; a
  \<open>time.Time\<close> is a number of nanoseconds.
\<close>

section \<open>Data\<close>

type_synonym uuid = "128 word"
type_synonym gtime = int

definition nil_uuid :: uuid where "nil_uuid = 0"

type_synonym memory_type = string

definition MemoryTypeEpisodic :: memory_type where "MemoryTypeEpisodic = ''episodic''"
definition MemoryTypeSemantic :: memory_type where "MemoryTypeSemantic = ''semantic''"
definition MemoryTypeProcedural :: memory_type where "MemoryTypeProcedural = ''procedural''"

lemmas memory_type_defs = MemoryTypeEpisodic_def MemoryTypeSemantic_def MemoryTypeProcedural_def

record memory =
  m_id :: uuid
  m_content :: string
  m_type :: memory_type
  m_project :: string
  m_tags :: "string list"
  m_created :: gtime
  m_access :: int
  m_decay :: f64

type_synonym relationship_type = string

definition RelBelongsTo :: relationship_type where "RelBelongsTo = ''belongs_to''"
definition RelContains :: relationship_type where "RelContains = ''contains''"
definition RelRelatesTo :: relationship_type where "RelRelatesTo = ''relates_to''"
definition RelSupersedes :: relationship_type where "RelSupersedes = ''supersedes''"
definition RelCausedBy :: relationship_type where "RelCausedBy = ''caused_by''"
definition RelMentions :: relationship_type where "RelMentions = ''mentions''"

lemmas rel_defs = RelBelongsTo_def RelContains_def RelRelatesTo_def RelSupersedes_def RelCausedBy_def
  RelMentions_def

definition relationshipTypes :: "relationship_type list" where
  "relationshipTypes =
     [RelBelongsTo, RelContains, RelRelatesTo, RelSupersedes, RelCausedBy, RelMentions]"

definition rel_valid :: "relationship_type \<Rightarrow> bool" where "rel_valid r = (r \<in> set relationshipTypes)"

record edge =
  e_id :: uuid
  e_from :: uuid
  e_to :: uuid
  e_rel :: relationship_type
  e_weight :: f64
  e_created :: gtime

record context_edge =
  ce_rel :: relationship_type
  ce_target :: uuid
  ce_content :: string
  ce_weight :: f64

record memory_ctx =
  mc_memory :: memory
  mc_context :: "context_edge list"
  mc_relevance :: f64
  mc_score :: f64
  mc_superseded :: bool

record session =
  s_id :: uuid
  s_project :: string
  s_agent :: string
  s_started :: gtime
  s_ended :: "gtime option"

record entity =
  en_id :: uuid
  en_name :: string
  en_normalized :: string
  en_project :: string

section \<open>Time\<close>

text \<open>\<open>t.Sub(u)\<close> is a \<open>time.Duration\<close>, an int64 of nanoseconds that saturates.\<close>

definition max_duration :: int where "max_duration = 2 ^ 63 - 1"

definition time_sub :: "gtime \<Rightarrow> gtime \<Rightarrow> int" where
  "time_sub t u = max (- max_duration - 1) (min max_duration (t - u))"

definition dur_hours :: "int \<Rightarrow> f64" where "dur_hours d = Fin (real_of_int d / 3600000000000)"
definition dur_seconds :: "int \<Rightarrow> f64" where "dur_seconds d = Fin (real_of_int d / 1000000000)"

lemma time_sub_small: "\<bar>t - u\<bar> \<le> max_duration \<Longrightarrow> time_sub t u = t - u"
  by (auto simp: time_sub_def)

lemma time_sub_nonneg: "u \<le> t \<Longrightarrow> 0 \<le> time_sub t u"
  by (auto simp: time_sub_def max_duration_def)

lemma time_sub_mono: "u' \<le> u \<Longrightarrow> time_sub t u \<le> time_sub t u'"
  by (auto simp: time_sub_def)

section \<open>Content tokens and the content hash\<close>

definition dquote :: char where "dquote = CHR 0x22"
definition squote :: char where "squote = CHR 0x27"

definition token_cutset :: string where
  "token_cutset = ''.,;:!?'' @ [dquote, squote] @ ''()[]{}<>''"

definition ContentTokens :: "string \<Rightarrow> string list" where
  "ContentTokens text =
     filter (\<lambda>f. f \<noteq> []) (map (\<lambda>f. trim f token_cutset) (str_fields (to_lower text)))"

definition contentHashLen :: nat where "contentHashLen = 32"

definition ContentHash :: "string \<Rightarrow> string" where
  "ContentHash content =
     (let normalized = join '' '' (ContentTokens content) in
      if normalized = [] then [] else hex_encode (take (contentHashLen div 2) (sha256 normalized)))"

definition IsContentHash :: "string \<Rightarrow> bool" where
  "IsContentHash s = (length s = contentHashLen \<and> list_all is_hex_lower s)"

section \<open>Entity names\<close>

definition ldquote :: string where "ldquote = [CHR 0xE2, CHR 0x80, CHR 0x9C]"
definition rdquote :: string where "rdquote = [CHR 0xE2, CHR 0x80, CHR 0x9D]"
definition rsquote :: string where "rsquote = [CHR 0xE2, CHR 0x80, CHR 0x99]"

definition entity_cutset :: "string list" where
  "entity_cutset = map (\<lambda>c. [c]) (''.,;:!?'' @ [dquote, squote] @ ''()[]{}'') @ [ldquote, rdquote]"

definition NormalizeEntity :: "string \<Rightarrow> string" where
  "NormalizeEntity name =
     (let name = to_lower (trim_space name);
          name = trim_runes entity_cutset name;
          name = trim_suffix name [squote, CHR ''s''];
          name = trim_suffix name (rsquote @ ''s'')
      in join '' '' (str_fields name))"

section \<open>Tokens: a normal form\<close>

lemma token_cutset_lower [simp]: "lower_char c \<in> set token_cutset \<longleftrightarrow> c \<in> set token_cutset"
proof (cases "is_upper c")
  case True
  then have "97 \<le> code_of (lower_char c)" "code_of (lower_char c) \<le> 122" "65 \<le> code_of c" "code_of c \<le> 90"
    using code_lower [of c] by (auto simp: is_upper_def)
  then show ?thesis by (auto simp: token_cutset_def code_of_def dquote_def squote_def)
qed (simp add: lower_char_def)

definition is_token :: "string \<Rightarrow> bool" where
  "is_token t = (is_word t \<and> to_lower t = t \<and> hd t \<notin> set token_cutset \<and> last t \<notin> set token_cutset)"

lemma trim_word: "is_word w \<Longrightarrow> trim w cs \<noteq> [] \<Longrightarrow> is_word (trim w cs)"
  using set_trim_by [of "\<lambda>c. c \<in> set cs" w] by (auto simp: is_word_def trim_def)

lemma ContentTokens_tokens: "t \<in> set (ContentTokens s) \<Longrightarrow> is_token t"
proof -
  assume "t \<in> set (ContentTokens s)"
  then obtain f where f: "f \<in> set (str_fields (to_lower s))" "t = trim f token_cutset" "t \<noteq> []"
    by (auto simp: ContentTokens_def)
  then obtain g where g: "f = to_lower g" "g \<in> set (str_fields s)" by (auto simp: fields_lower)
  have "is_word t" using f trim_word fields_words by metis
  moreover have "to_lower t = t" using f(2) g(1) by (simp add: trim_def to_lower_trim_by)
  ultimately show ?thesis
    using f(2,3) trim_by_ends [of "\<lambda>c. c \<in> set token_cutset" f] by (simp add: is_token_def trim_def)
qed

lemma token_trim: "is_token t \<Longrightarrow> trim t token_cutset = t"
  unfolding trim_def by (rule trim_by_fixed) (auto simp: is_token_def)

lemma ContentTokens_join:
  assumes "\<forall>t \<in> set ts. is_token t"
  shows "ContentTokens (join '' '' ts) = ts"
proof -
  have low: "map to_lower ts = ts" using assms by (induction ts) (auto simp: is_token_def)
  have "str_fields (to_lower (join '' '' ts)) = ts"
    using assms low by (simp add: to_lower_join fields_join is_token_def)
  moreover have "map (\<lambda>f. trim f token_cutset) ts = ts" using assms token_trim by (simp add: map_idI)
  moreover have "filter (\<lambda>f. f \<noteq> []) ts = ts"
    using assms by (simp add: filter_id_conv is_token_def is_word_def)
  ultimately show ?thesis by (simp add: ContentTokens_def)
qed

lemma ContentTokens_idem: "ContentTokens (join '' '' (ContentTokens s)) = ContentTokens s"
  by (rule ContentTokens_join) (simp add: ContentTokens_tokens)

lemma ContentTokens_lower [simp]: "ContentTokens (to_lower s) = ContentTokens s"
  by (simp add: ContentTokens_def)

lemma tokens_join_eq_Nil [simp]: "join '' '' (ContentTokens s) = [] \<longleftrightarrow> ContentTokens s = []"
  by (rule join_eq_Nil) (use ContentTokens_tokens in \<open>auto simp: is_token_def is_word_def\<close>)

lemma tokens_join_inj:
  "join '' '' (ContentTokens a) = join '' '' (ContentTokens b) \<longleftrightarrow> ContentTokens a = ContentTokens b"
  using ContentTokens_idem by metis

lemma ContentHash_cong: "ContentTokens a = ContentTokens b \<Longrightarrow> ContentHash a = ContentHash b"
  by (simp add: ContentHash_def)

lemma ContentHash_Nil_iff: "ContentHash s = [] \<longleftrightarrow> ContentTokens s = []"
proof -
  have "hex_encode (take 16 (sha256 x)) \<noteq> []" for x
  proof -
    have "length (hex_encode (take 16 (sha256 x))) = 32" by simp
    then show ?thesis by (metis list.size(3) zero_neq_numeral)
  qed
  then show ?thesis by (simp add: ContentHash_def contentHashLen_def Let_def)
qed

lemma ContentHash_is_hash: "ContentHash s \<noteq> [] \<Longrightarrow> IsContentHash (ContentHash s)"
  using sha256_byte hex_encode_hex
  by (auto simp: ContentHash_def IsContentHash_def contentHashLen_def Let_def list_all_iff
      split: if_splits dest!: in_set_takeD hex_encode_hex [rotated])

section \<open>The closed sets\<close>

lemma is_hex_lower_safe: "is_hex_lower c \<Longrightarrow> c \<notin> {squote, CHR 0x5C, CHR ''{'', CHR ''}'', dquote, CHR ''$''}"
  by (auto simp: is_hex_lower_def is_digit_def squote_def dquote_def code_of_def)

lemma rel_valid_iff: "rel_valid r \<longleftrightarrow> r = ''belongs_to'' \<or> r = ''contains'' \<or> r = ''relates_to'' \<or>
    r = ''supersedes'' \<or> r = ''caused_by'' \<or> r = ''mentions''"
  by (auto simp: rel_valid_def relationshipTypes_def rel_defs)

text \<open>The key of an entity is not a fixed point: a period before a possessive suffix survives one pass.\<close>

lemma NormalizeEntity_not_idempotent:
  "NormalizeEntity ''Biscuit.'s'' = ''biscuit.'' \<and> NormalizeEntity ''biscuit.'' = ''biscuit''"
  by code_simp

end
