(* ===== verification/Dedup.thy ===== *)
theory Dedup
  imports DomainModel
begin

text \<open>
  \<^verbatim>\<open>internal/extraction/dedup.go\<close>: when two memories say the same thing, and the folding of one
  extraction's memories before anything is written; with \<open>ExtractedMemory\<close> and the exact-content
  deduplication of \<^verbatim>\<open>extractor.go\<close>.  The ordered-subsequence test is related to the library's
  \<open>subseq\<close>, and folding is shown to lose no fact, to invent none, and to keep each fact's
  polarity.
\<close>

record extracted =
  x_content :: string
  x_type :: memory_type
  x_tags :: "string list"
  x_entities :: "string list"

datatype Subsumption = Distinct | Equivalent | NewSubsumesOld | OldSubsumesNew

definition minSubsumptionTokens :: nat where "minSubsumptionTokens = 3"

definition polarityTokens :: "string list" where
  "polarityTokens =
     [''not'', ''never'', ''no'', ''none'', ''don't'', ''doesn't'', ''didn't'', ''isn't'',
      ''aren't'', ''wasn't'', ''weren't'', ''cannot'', ''can't'', ''won't'', ''wouldn't'',
      ''hasn't'', ''haven't'', ''hadn't'', ''couldn't'', ''shouldn't'', ''nor'', ''neither'',
      ''nothing'', ''nobody'', ''without'', ''unless'', ''denies'', ''denied'', ''deny'',
      ''denying'', ''disputes'', ''disputed'', ''dispute'', ''refuses'', ''refused'', ''refuse'',
      ''doubts'', ''doubted'', ''doubt'', ''rejects'', ''rejected'', ''reject'', ''stopped'',
      ''quit'', ''former'', ''formerly'', ''ex'', ''no-longer'', ''might'', ''maybe'', ''perhaps'',
      ''possibly'', ''probably'', ''allegedly'', ''supposedly'', ''unlikely'', ''hopes'',
      ''hoped'', ''plans'', ''planned'', ''wants'', ''wanted'', ''considering'', ''if'',
      ''whether'', ''would'', ''could'']"

definition hasPolarityMarker :: "string list \<Rightarrow> bool" where
  "hasPolarityMarker tokens = list_ex (\<lambda>t. t \<in> set polarityTokens) tokens"

text \<open>The scan of \<open>isOrderedSubsequence\<close>: the number of tokens of \<open>inner\<close> matched so far.\<close>

fun subseq_scan :: "string list \<Rightarrow> string list \<Rightarrow> nat \<Rightarrow> nat" where
  "subseq_scan inner [] i = i"
| "subseq_scan inner (t # outer) i =
     subseq_scan inner outer (if i < length inner \<and> inner ! i = t then Suc i else i)"

definition isOrderedSubsequence :: "string list \<Rightarrow> string list \<Rightarrow> bool" where
  "isOrderedSubsequence inner outer =
     (if length inner > length outer then False else subseq_scan inner outer 0 = length inner)"

definition Subsumes :: "string \<Rightarrow> string \<Rightarrow> Subsumption" where
  "Subsumes newer old =
     (let newTokens = ContentTokens newer; oldTokens = ContentTokens old in
      if length newTokens < minSubsumptionTokens \<or> length oldTokens < minSubsumptionTokens then Distinct
      else if hasPolarityMarker newTokens \<noteq> hasPolarityMarker oldTokens then Distinct
      else
        let newSubsumesOld = isOrderedSubsequence oldTokens newTokens;
            oldSubsumesNew = isOrderedSubsequence newTokens oldTokens
        in if newSubsumesOld \<and> oldSubsumesNew then Equivalent
           else if newSubsumesOld then NewSubsumesOld
           else if oldSubsumesNew then OldSubsumesNew
           else Distinct)"

definition tag_key :: "string \<Rightarrow> string" where "tag_key t = to_lower (trim_space t)"

definition unionTags :: "string list \<Rightarrow> string list \<Rightarrow> string list" where
  "unionTags a b = first_by tag_key (\<lambda>k. k = []) {} (a @ b)"

text \<open>
  The inner loop of \<open>FoldRedundant\<close>: the kept list after \<open>m\<close> has been merged into the first kept
  memory of its type that is not distinct from it, or \<open>None\<close> when there is none.
\<close>

fun merge_into :: "extracted \<Rightarrow> extracted list \<Rightarrow> extracted list option" where
  "merge_into m [] = None"
| "merge_into m (k # kept) =
     (if x_type k \<noteq> x_type m then map_option ((#) k) (merge_into m kept)
      else case Subsumes (x_content m) (x_content k) of
        NewSubsumesOld \<Rightarrow>
          Some (k\<lparr>x_content := x_content m, x_tags := unionTags (x_tags k) (x_tags m)\<rparr> # kept)
      | Equivalent \<Rightarrow>
          Some (k\<lparr>x_content := x_content m, x_tags := unionTags (x_tags k) (x_tags m)\<rparr> # kept)
      | OldSubsumesNew \<Rightarrow> Some (k\<lparr>x_tags := unionTags (x_tags k) (x_tags m)\<rparr> # kept)
      | Distinct \<Rightarrow> map_option ((#) k) (merge_into m kept))"

definition fold_step :: "extracted \<Rightarrow> extracted list \<Rightarrow> extracted list" where
  "fold_step m kept = (case merge_into m kept of Some kept' \<Rightarrow> kept' | None \<Rightarrow> kept @ [m])"

definition FoldRedundant :: "extracted list \<Rightarrow> extracted list" where
  "FoldRedundant memories = fold fold_step memories []"

definition dedup :: "extracted list \<Rightarrow> extracted list" where
  "dedup memories = first_by (\<lambda>m. to_lower (x_content m)) (\<lambda>k. False) {} memories"

section \<open>The subsequence test\<close>

lemma subseq_scan_le: "i \<le> length inner \<Longrightarrow> subseq_scan inner outer i \<le> length inner"
  by (induction outer arbitrary: i) auto

lemma subseq_scan_iff:
  "i \<le> length inner \<Longrightarrow> subseq_scan inner outer i = length inner \<longleftrightarrow> subseq (drop i inner) outer"
proof (induction outer arbitrary: i)
  case (Cons t outer)
  show ?case
  proof (cases "i < length inner")
    case True
    then have d: "drop i inner = inner ! i # drop (Suc i) inner" by (simp add: Cons_nth_drop_Suc)
    have "subseq (drop i inner) (t # outer) = (if inner ! i = t then subseq (drop (Suc i) inner) outer
        else subseq (drop i inner) outer)"
      unfolding d by simp
    then show ?thesis using Cons True by simp
  qed (use Cons in auto)
qed (auto dest: list_emb_Nil2)

lemma isOrderedSubsequence_iff [simp]: "isOrderedSubsequence inner outer = subseq inner outer"
  using subseq_scan_iff [of 0 inner outer] list_emb_length [of "(=)" inner outer]
  by (auto simp: isOrderedSubsequence_def)

lemma subseq_antisym_list: "subseq xs ys \<Longrightarrow> subseq ys xs \<Longrightarrow> xs = ys"
  by (rule subseq_order.antisym)

definition polar :: "string \<Rightarrow> bool" where "polar s = hasPolarityMarker (ContentTokens s)"

lemma Subsumes_cases:
  "Subsumes n s = Equivalent \<longleftrightarrow>
     3 \<le> length (ContentTokens n) \<and> ContentTokens n = ContentTokens s"
  "Subsumes n s = NewSubsumesOld \<longleftrightarrow>
     3 \<le> length (ContentTokens s) \<and> polar n = polar s \<and>
     subseq (ContentTokens s) (ContentTokens n) \<and> ContentTokens s \<noteq> ContentTokens n"
  "Subsumes n s = OldSubsumesNew \<longleftrightarrow>
     3 \<le> length (ContentTokens n) \<and> polar n = polar s \<and>
     subseq (ContentTokens n) (ContentTokens s) \<and> ContentTokens s \<noteq> ContentTokens n"
proof -
  have l: "length a \<le> length b" if "subseq a b" for a b :: "string list"
    using that by (rule list_emb_length)
  show "Subsumes n s = Equivalent \<longleftrightarrow>
      3 \<le> length (ContentTokens n) \<and> ContentTokens n = ContentTokens s"
    by (auto simp: Subsumes_def Let_def minSubsumptionTokens_def dest: subseq_antisym_list)
  show "Subsumes n s = NewSubsumesOld \<longleftrightarrow>
     3 \<le> length (ContentTokens s) \<and> polar n = polar s \<and>
     subseq (ContentTokens s) (ContentTokens n) \<and> ContentTokens s \<noteq> ContentTokens n"
    using l [of "ContentTokens s" "ContentTokens n"]
    by (auto simp: Subsumes_def Let_def minSubsumptionTokens_def polar_def dest: subseq_antisym_list)
  show "Subsumes n s = OldSubsumesNew \<longleftrightarrow>
     3 \<le> length (ContentTokens n) \<and> polar n = polar s \<and>
     subseq (ContentTokens n) (ContentTokens s) \<and> ContentTokens s \<noteq> ContentTokens n"
    using l [of "ContentTokens n" "ContentTokens s"]
    by (auto simp: Subsumes_def Let_def minSubsumptionTokens_def polar_def dest: subseq_antisym_list)
qed

fun mirror :: "Subsumption \<Rightarrow> Subsumption" where
  "mirror NewSubsumesOld = OldSubsumesNew"
| "mirror OldSubsumesNew = NewSubsumesOld"
| "mirror Equivalent = Equivalent"
| "mirror Distinct = Distinct"


section \<open>Folding loses no fact\<close>

definition tag_keys :: "extracted \<Rightarrow> string set" where
  "tag_keys m = {k \<in> tag_key ` set (x_tags m). k \<noteq> []}"

text \<open>\<open>covers k m\<close>: whoever keeps \<open>k\<close> knows what \<open>m\<close> says, with its polarity, type and tags.\<close>

definition covers :: "extracted \<Rightarrow> extracted \<Rightarrow> bool" where
  "covers k m = (x_type k = x_type m \<and> subseq (ContentTokens (x_content m)) (ContentTokens (x_content k)) \<and>
     polar (x_content k) = polar (x_content m) \<and> tag_keys m \<subseteq> tag_keys k)"

lemma covers_refl [simp]: "covers m m"
  by (simp add: covers_def)

lemma covers_trans: "covers k l \<Longrightarrow> covers l m \<Longrightarrow> covers k m"
  unfolding covers_def using subseq_order.order_trans by fastforce

lemma unionTags_keys: "{k \<in> tag_key ` set (unionTags a b). k \<noteq> []} = {k \<in> tag_key ` (set a \<union> set b). k \<noteq> []}"
  using first_by_key_set [of tag_key "\<lambda>k. k = []" "{}" "a @ b"] by (auto simp: unionTags_def image_Un)

lemma unionTags_subset: "set (unionTags a b) \<subseteq> set a \<union> set b"
  using set_first_by_subset [of tag_key "\<lambda>k. k = []" "{}" "a @ b"] by (simp add: unionTags_def)

lemma tag_keys_union [simp]:
  "tag_keys (k\<lparr>x_tags := unionTags a b\<rparr>) = {t \<in> tag_key ` (set a \<union> set b). t \<noteq> []}"
  "tag_keys (k\<lparr>x_content := c, x_tags := unionTags a b\<rparr>) = {t \<in> tag_key ` (set a \<union> set b). t \<noteq> []}"
  by (simp_all add: tag_keys_def unionTags_keys)

text \<open>One merge: the merged entry covers both, and is derived from both.\<close>

definition merged :: "extracted \<Rightarrow> extracted \<Rightarrow> extracted \<Rightarrow> bool" where
  "merged k m k' = (x_type k = x_type m \<and> x_type k' = x_type k \<and> x_entities k' = x_entities k \<and>
     x_content k' \<in> {x_content k, x_content m} \<and> set (x_tags k') \<subseteq> set (x_tags k) \<union> set (x_tags m) \<and>
     covers k' k \<and> covers k' m)"

lemma merge_into_Some:
  "merge_into m kept = Some kept' \<Longrightarrow>
     \<exists>xs k ys k'. kept = xs @ k # ys \<and> kept' = xs @ k' # ys \<and> merged k m k'"
proof (induction kept arbitrary: kept')
  case (Cons k kept)
  have here: ?case if "merged k m k'" "kept' = k' # kept" for k' using that by (metis append_Nil)
  have later: ?case
    if r: "map_option ((#) k) (merge_into m kept) = Some kept'"
  proof -
    obtain r where "merge_into m kept = Some r" "kept' = k # r" using r by auto
    then show ?thesis using Cons.IH by (metis append_Cons)
  qed
  let ?t = "unionTags (x_tags k) (x_tags m)"
  show ?case
  proof (cases "x_type k = x_type m")
    case ty: True
    show ?thesis
    proof (cases "Subsumes (x_content m) (x_content k)")
      case Distinct
      then show ?thesis using Cons.prems ty later by simp
    next
      case Equivalent
      then have "merged k m (k\<lparr>x_content := x_content m, x_tags := ?t\<rparr>)"
        using ty unionTags_subset [of "x_tags k" "x_tags m"] unfolding Subsumes_cases
        by (auto simp: merged_def covers_def tag_keys_def [of k] tag_keys_def [of m] polar_def)
      then show ?thesis by (rule here) (use Cons.prems ty Equivalent in simp)
    next
      case NewSubsumesOld
      then have "merged k m (k\<lparr>x_content := x_content m, x_tags := ?t\<rparr>)"
        using ty unionTags_subset [of "x_tags k" "x_tags m"] unfolding Subsumes_cases
        by (auto simp: merged_def covers_def tag_keys_def [of k] tag_keys_def [of m])
      then show ?thesis by (rule here) (use Cons.prems ty NewSubsumesOld in simp)
    next
      case OldSubsumesNew
      then have "merged k m (k\<lparr>x_tags := ?t\<rparr>)"
        using ty unionTags_subset [of "x_tags k" "x_tags m"] unfolding Subsumes_cases
        by (auto simp: merged_def covers_def tag_keys_def [of k] tag_keys_def [of m])
      then show ?thesis by (rule here) (use Cons.prems ty OldSubsumesNew in simp)
    qed
  qed (use Cons.prems later in simp)
qed simp

text \<open>What the kept list owes to the memories folded so far.\<close>

definition derived :: "extracted set \<Rightarrow> extracted \<Rightarrow> bool" where
  "derived ms k = ((\<exists>m \<in> ms. x_content k = x_content m \<and> x_type k = x_type m) \<and>
     (\<exists>m \<in> ms. x_entities k = x_entities m \<and> x_type k = x_type m) \<and>
     (\<forall>t \<in> set (x_tags k). \<exists>m \<in> ms. t \<in> set (x_tags m) \<and> x_type k = x_type m))"

definition fold_inv :: "extracted set \<Rightarrow> extracted list \<Rightarrow> bool" where
  "fold_inv ms kept = ((\<forall>m \<in> ms. \<exists>k \<in> set kept. covers k m) \<and> (\<forall>k \<in> set kept. derived ms k))"

lemma derived_mono: "derived ms k \<Longrightarrow> ms \<subseteq> ms' \<Longrightarrow> derived ms' k"
  unfolding derived_def by blast

lemma derived_merged: "derived ms k \<Longrightarrow> merged k m k' \<Longrightarrow> derived (insert m ms) k'"
  unfolding derived_def merged_def by (auto 4 4)

lemma fold_step_inv:
  assumes "fold_inv ms kept"
  shows "fold_inv (insert m ms) (fold_step m kept)"
proof (cases "merge_into m kept")
  case None
  have "derived (insert m ms) m" by (auto simp: derived_def)
  then show ?thesis
    using assms None by (auto simp: fold_step_def fold_inv_def intro: derived_mono bexI [of _ m])
next
  case (Some kept')
  then obtain xs k ys k' where k: "kept = xs @ k # ys" "kept' = xs @ k' # ys" "merged k m k'"
    using merge_into_Some by blast
  have cov: "covers k' k" "covers k' m" using k(3) by (simp_all add: merged_def)
  have "\<exists>c \<in> set kept'. covers c n" if n: "n \<in> insert m ms" for n
  proof (cases "n = m")
    case True
    then show ?thesis using k(2) cov(2) by auto
  next
    case False
    then obtain c where "c \<in> set kept" "covers c n" using n assms by (auto simp: fold_inv_def)
    then show ?thesis using k(1,2) covers_trans [OF cov(1)] by fastforce
  qed
  moreover have "derived (insert m ms) c" if "c \<in> set kept'" for c
    using that assms k derived_merged [of ms k m k'] derived_mono [of ms c "insert m ms"]
    by (auto simp: fold_inv_def)
  ultimately show ?thesis using Some by (simp add: fold_step_def fold_inv_def)
qed

lemma fold_inv_fold: "fold_inv ms kept \<Longrightarrow> fold_inv (ms \<union> set xs) (fold fold_step xs kept)"
proof (induction xs arbitrary: ms kept)
  case (Cons x xs)
  then show ?case using fold_step_inv [of ms kept x] by fastforce
qed simp

lemma FoldRedundant_inv: "fold_inv (set ms) (FoldRedundant ms)"
  using fold_inv_fold [of "{}" "[]" ms] by (simp add: FoldRedundant_def fold_inv_def)

lemma length_fold_step: "length (fold_step m kept) \<le> Suc (length kept)"
proof (cases "merge_into m kept")
  case (Some kept')
  then obtain xs k ys k' where "kept = xs @ k # ys" "kept' = xs @ k' # ys"
    using merge_into_Some by blast
  then show ?thesis using Some by (simp add: fold_step_def)
qed (simp add: fold_step_def)

lemma length_FoldRedundant: "length (FoldRedundant ms) \<le> length ms"
proof -
  have "length (fold fold_step ms kept) \<le> length kept + length ms" for kept
  proof (induction ms arbitrary: kept)
    case (Cons m ms)
    show ?case using Cons [of "fold_step m kept"] length_fold_step [of m kept] by simp
  qed simp
  from this [of "[]"] show ?thesis by (simp add: FoldRedundant_def)
qed

text \<open>
  C10: folding one extraction loses no fact.  Every extracted memory is covered by a kept one of the
  same type: its tokens are an ordered subsequence of the kept wording's, both assert with the
  same polarity, and all its tags (up to case and surrounding space) are on the kept memory.
\<close>

theorem FoldRedundant_loses_nothing:
  assumes "m \<in> set ms"
  shows "\<exists>k \<in> set (FoldRedundant ms). x_type k = x_type m \<and>
     subseq (ContentTokens (x_content m)) (ContentTokens (x_content k)) \<and>
     hasPolarityMarker (ContentTokens (x_content k)) = hasPolarityMarker (ContentTokens (x_content m)) \<and>
     (\<forall>t \<in> set (x_tags m). tag_key t \<noteq> [] \<longrightarrow> tag_key t \<in> tag_key ` set (x_tags k))"
proof -
  obtain k where k: "k \<in> set (FoldRedundant ms)" "covers k m"
    using FoldRedundant_inv [of ms] assms by (auto simp: fold_inv_def)
  then have "tag_key t \<in> tag_key ` set (x_tags k)" if "t \<in> set (x_tags m)" "tag_key t \<noteq> []" for t
    using that by (auto simp: covers_def tag_keys_def)
  then show ?thesis using k by (auto simp: covers_def polar_def)
qed

definition sample_extracted :: "string \<Rightarrow> string list \<Rightarrow> extracted" where
  "sample_extracted c es =
     \<lparr>x_content = c, x_type = MemoryTypeSemantic, x_tags = [''pets''], x_entities = es\<rparr>"

definition owns_dog :: extracted where
  "owns_dog = sample_extracted ''Caroline owns a dog'' [''Caroline'']"
definition owns_biscuit :: extracted where
  "owns_biscuit = sample_extracted ''Caroline owns a dog named Biscuit'' [''Caroline'', ''Biscuit'']"

lemma FoldRedundant_loses_nothing_witness:
  "\<exists>k \<in> set (FoldRedundant [owns_dog, owns_biscuit]).
     subseq (ContentTokens (x_content owns_dog)) (ContentTokens (x_content k))"
  using FoldRedundant_loses_nothing [of owns_dog "[owns_dog, owns_biscuit]"] by auto

text \<open>
  Folding invents nothing.  Each kept memory has the content of an extracted memory of its
  type, the entity list of one, and only tags that extracted memories of its type carried; and no
  more memories are kept than were extracted.
\<close>

lemma FoldRedundant_invents_nothing:
  "length (FoldRedundant ms) \<le> length ms \<and>
   list_all (\<lambda>k. list_ex (\<lambda>m. x_content k = x_content m \<and> x_type k = x_type m) ms \<and>
      list_ex (\<lambda>m. x_entities k = x_entities m \<and> x_type k = x_type m) ms \<and>
      list_all (\<lambda>t. list_ex (\<lambda>m. t \<in> set (x_tags m) \<and> x_type k = x_type m) ms) (x_tags k)) (FoldRedundant ms)"
  using FoldRedundant_inv [of ms]
  by (auto simp: length_FoldRedundant fold_inv_def derived_def list_all_iff list_ex_iff)

text \<open>
  The fuller wording replaces the content but not the entities.  Whenever the second of two
  memories of one type subsumes the first, the one memory kept carries the second's content with
  the first's entity list, so an entity only the fuller wording names is not linked.
\<close>

lemma FoldRedundant_keeps_old_entities:
  assumes "x_type a = x_type b" "Subsumes (x_content b) (x_content a) = NewSubsumesOld"
  shows "FoldRedundant [a, b] =
    [a\<lparr>x_content := x_content b, x_tags := unionTags (x_tags a) (x_tags b), x_entities := x_entities a\<rparr>]"
  using assms by (simp add: FoldRedundant_def fold_step_def)

lemma biscuit_tokens:
  "ContentTokens ''Caroline owns a dog'' = [''caroline'', ''owns'', ''a'', ''dog'']"
  "ContentTokens ''Caroline owns a dog named Biscuit'' =
     [''caroline'', ''owns'', ''a'', ''dog'', ''named'', ''biscuit'']"
  by code_simp+

lemma dedup_distinct: "distinct (map (\<lambda>m. to_lower (x_content m)) (dedup ms))"
  unfolding dedup_def by (rule first_by_distinct)

lemma dedup_subset: "set (dedup ms) \<subseteq> set ms"
  unfolding dedup_def by (rule set_first_by_subset)

text \<open>
  Exact-content deduplication keeps the first memory of each content up to case, keeps one for
  every content that occurs, and changes nothing when run again.
\<close>

lemma dedup_first_of_each:
  shows "(distinct (map (\<lambda>m. to_lower (x_content m)) (dedup ms))) \<and>
      ((\<lambda>m. to_lower (x_content m)) ` set (dedup ms) = (\<lambda>m. to_lower (x_content m)) ` set ms) \<and>
      (set (dedup ms) \<subseteq> set ms) \<and>
      (dedup (dedup ms) = dedup ms)"
  unfolding dedup_def using first_by_key_set [of "\<lambda>m. to_lower (x_content m)" "\<lambda>k. False" "{}" ms]
  by (simp_all add: first_by_distinct first_by_idem set_first_by_subset)

end
