(* ===== verification/Extractor.thy ===== *)
theory Extractor
  imports Dedup
begin

text \<open>
  \<^verbatim>\<open>internal/extraction/extractor.go\<close>, \<^verbatim>\<open>entity.go\<close> and \<^verbatim>\<open>llm.go\<close>: the rule-based extractor, the
  entity heuristic and the extractor backed by a chat provider.  Text is UTF-8; a regular
  expression runs on its runes, with Go's leftmost-first choice: a match is the first, in priority
  order, of the ends the expression reaches from the leftmost position that has one.  Whether a
  rune beyond ASCII is a letter or a digit is a parameter (\<open>uni\<close>), the table of package unicode;
  the chat provider and the decoding of its JSON are parameters (\<open>provider\<close>).
\<close>

section \<open>Runes\<close>

definition is_cont :: "char \<Rightarrow> bool" where "is_cont c = (128 \<le> code_of c \<and> code_of c < 192)"

definition rune_width :: "string \<Rightarrow> nat" where
  "rune_width s =
     (let c = (case s of [] \<Rightarrow> 0 | x # _ \<Rightarrow> code_of x); d = (case tl s of [] \<Rightarrow> 0 | x # _ \<Rightarrow> code_of x);
          n = (if 194 \<le> c \<and> c \<le> 223 then 2 else if 224 \<le> c \<and> c \<le> 239 then 3
               else if 240 \<le> c \<and> c \<le> 244 then 4 else 1)
      in if length s \<ge> n \<and> list_all is_cont (take (n - 1) (tl s)) \<and>
            (c = 224 \<longrightarrow> 160 \<le> d) \<and> (c = 237 \<longrightarrow> d < 160) \<and> (c = 240 \<longrightarrow> 144 \<le> d) \<and> (c = 244 \<longrightarrow> d < 144)
         then n else 1)"

function runes :: "string \<Rightarrow> string list" where
  "runes s = (if s = [] then [] else take (rune_width s) s # runes (drop (rune_width s) s))"
  by pat_completeness auto
termination by (relation "measure length") (auto simp: rune_width_def Let_def)

declare runes.simps [simp del]

section \<open>Regular expressions\<close>

datatype rx =
    RClass "string \<Rightarrow> bool"
  | RStart
  | RWordB
  | RSeq rx rx
  | RAlt rx rx
  | RStar rx
  | RUpTo nat rx

text \<open>Zero or more, greedy: an iteration has to advance, so the number of runes bounds them.\<close>

fun rep_ends :: "(nat \<Rightarrow> nat list) \<Rightarrow> nat \<Rightarrow> nat \<Rightarrow> nat list" where
  "rep_ends f 0 i = [i]"
| "rep_ends f (Suc n) i = concat (map (\<lambda>j. if i < j then rep_ends f n j else []) (f i)) @ [i]"

definition word_rune :: "string \<Rightarrow> bool" where
  "word_rune r = (case r of [c] \<Rightarrow> is_digit c \<or> is_upper c \<or> is_lower c \<or> c = CHR ''_'' | _ \<Rightarrow> False)"

definition at_word :: "string list \<Rightarrow> nat \<Rightarrow> bool" where
  "at_word s i = (i < length s \<and> word_rune (s ! i))"

primrec ends :: "rx \<Rightarrow> string list \<Rightarrow> nat \<Rightarrow> nat list" where
  "ends (RClass P) s i = (if i < length s \<and> P (s ! i) then [Suc i] else [])"
| "ends RStart s i = (if i = 0 then [i] else [])"
| "ends RWordB s i = (if (i > 0 \<and> at_word s (i - 1)) \<noteq> at_word s i then [i] else [])"
| "ends (RSeq a b) s i = concat (map (ends b s) (ends a s i))"
| "ends (RAlt a b) s i = ends a s i @ ends b s i"
| "ends (RStar a) s i = rep_ends (ends a s) (length s) i"
| "ends (RUpTo n a) s i = rep_ends (ends a s) n i"

definition rx_seq :: "rx list \<Rightarrow> rx" where "rx_seq rs = foldr RSeq (butlast rs) (last rs)"

text \<open>The leftmost match from \<open>i\<close> on, as its start and end; and all of them, left to right.\<close>

definition find_from :: "rx \<Rightarrow> string list \<Rightarrow> nat \<Rightarrow> (nat \<times> nat) option" where
  "find_from r s i =
     map_option (\<lambda>j. (j, hd (ends r s j))) (find (\<lambda>j. ends r s j \<noteq> []) [i..<Suc (length s)])"

fun find_all :: "nat \<Rightarrow> rx \<Rightarrow> string list \<Rightarrow> nat \<Rightarrow> (nat \<times> nat) list" where
  "find_all 0 r s i = []"
| "find_all (Suc n) r s i =
     (case find_from r s i of None \<Rightarrow> [] | Some (a, b) \<Rightarrow> (a, b) # find_all n r s (max b (Suc a)))"

definition FindAll :: "rx \<Rightarrow> string list \<Rightarrow> (nat \<times> nat) list" where
  "FindAll r s = find_all (Suc (length s)) r s 0"

definition text_slice :: "string list \<Rightarrow> nat \<Rightarrow> nat \<Rightarrow> string" where
  "text_slice s a b = concat (take (b - a) (drop a s))"

definition rx_char :: "(char \<Rightarrow> bool) \<Rightarrow> rx" where
  "rx_char P = RClass (\<lambda>r. case r of [c] \<Rightarrow> code_of c < 128 \<and> P c | _ \<Rightarrow> False)"

definition rx_is :: "char \<Rightarrow> rx" where "rx_is c = rx_char (\<lambda>x. x = c)"
definition rx_word :: "string \<Rightarrow> rx" where "rx_word w = rx_seq (map rx_is w)"

definition re_space :: "char \<Rightarrow> bool" where
  "re_space c = (c \<in> {CHR 0x09, CHR 0x0A, CHR 0x0C, CHR 0x0D, CHR '' ''})"

definition rx_spaces :: rx where "rx_spaces = RSeq (rx_char re_space) (RStar (rx_char re_space))"

section \<open>The words the heuristics know\<close>

definition temporalWords :: "string list" where
  "temporalWords =
     [''monday'', ''tuesday'', ''wednesday'', ''thursday'', ''friday'', ''saturday'', ''sunday'',
      ''january'', ''february'', ''march'', ''april'', ''may'', ''june'', ''july'', ''august'',
      ''september'', ''october'', ''november'', ''december'', ''jan'', ''feb'', ''mar'', ''apr'',
      ''jun'', ''jul'', ''aug'', ''sep'', ''sept'', ''oct'', ''nov'', ''dec'', ''today'',
      ''tomorrow'', ''yesterday'', ''morning'', ''afternoon'', ''evening'', ''night'', ''week'',
      ''month'', ''year'', ''day'', ''spring'', ''summer'', ''autumn'', ''fall'', ''winter'',
      ''am'', ''pm'', ''christmas'', ''easter'']"

definition numberWords :: "string list" where
  "numberWords =
     [''one'', ''two'', ''three'', ''four'', ''five'', ''six'', ''seven'', ''eight'', ''nine'',
      ''ten'', ''eleven'', ''twelve'', ''hundred'', ''thousand'', ''million'', ''billion'',
      ''first'', ''second'', ''third'', ''fourth'', ''fifth'', ''sixth'', ''seventh'', ''eighth'',
      ''ninth'', ''tenth'']"

definition sentenceOpeners :: "string list" where
  "sentenceOpeners =
     [''the'', ''a'', ''an'', ''this'', ''that'', ''these'', ''those'', ''it'', ''its'', ''there'',
      ''here'', ''he'', ''she'', ''they'', ''we'', ''you'', ''i'', ''his'', ''her'', ''their'',
      ''our'', ''your'', ''my'', ''what'', ''when'', ''where'', ''who'', ''why'', ''how'',
      ''which'', ''whose'', ''and'', ''but'', ''or'', ''so'', ''if'', ''because'', ''while'',
      ''after'', ''before'', ''since'', ''although'', ''though'', ''unless'', ''is'', ''are'',
      ''was'', ''were'', ''be'', ''do'', ''does'', ''did'', ''have'', ''has'', ''had'', ''will'',
      ''would'', ''can'', ''could'', ''should'', ''may'', ''might'', ''must'', ''yes'', ''no'',
      ''not'', ''now'', ''then'', ''later'', ''also'', ''just'', ''still'', ''very'', ''every'',
      ''some'', ''any'', ''all'', ''both'', ''one'', ''two'', ''for'', ''from'', ''with'',
      ''about'', ''as'', ''at'', ''by'', ''in'', ''of'', ''on'', ''to'', ''up'', ''out'', ''let'',
      ''let's'', ''please'', ''thanks'', ''hello'', ''hi'', ''hey'', ''okay'', ''ok'', ''sure'',
      ''right'', ''well'', ''actually'']"

definition prefPatterns :: "string list" where
  "prefPatterns =
     [''prefer'', ''like to'', ''always use'', ''rather'', ''favorite'', ''usually'']"

definition procPatterns :: "string list" where
  "procPatterns =
     [''always run'', ''make sure to'', ''before deploying'', ''workflow'', ''step 1'', ''first,'',
      ''process for'']"

definition eventPatterns :: "string list" where
  "eventPatterns =
     [''decided to'', ''switched to'', ''migrated'', ''deployed'', ''fixed'', ''changed'',
      ''meeting about'', ''discussed'']"

definition factPatterns :: "string list" where
  "factPatterns =
     ['' is '', '' uses '', '' has '', '' runs on '', '' built with '', '' written in '',
      '' deployed on '', '' stored in '']"

definition noise_words :: "string list" where
  "noise_words =
     [''hello'', ''hi there'', ''hey'', ''thanks'', ''thank you'', ''ok'', ''okay'', ''sure'',
      ''yes'', ''no'', ''got it'', ''sounds good'', ''right'', ''hmm'', ''let me'', ''i see'',
      ''understood'']"

definition techTerms :: "string list" where
  "techTerms =
     [''postgresql'', ''postgres'', ''mysql'', ''redis'', ''kubernetes'', ''k8s'', ''docker'',
      ''helm'', ''go'', ''golang'', ''python'', ''typescript'', ''rust'', ''java'', ''grpc'',
      ''rest'', ''api'', ''graphql'', ''react'', ''vue'', ''angular'', ''nextjs'', ''aws'',
      ''gcp'', ''azure'', ''auth'', ''oauth'', ''jwt'', ''authentication'', ''database'',
      ''cache'', ''queue'', ''deployment'', ''testing'', ''ci'', ''cd'', ''cicd'', ''git'',
      ''github'', ''gitlab'']"

definition maxEntitiesPerMemory :: nat where "maxEntitiesPerMemory = 6"
definition minEntityLen :: nat where "minEntityLen = 2"

section \<open>Entities\<close>

definition quotedSpan :: rx where
  "quotedSpan =
     (let open_q = RClass (\<lambda>r. r = [dquote] \<or> r = ldquote);
          inner = RClass (\<lambda>r. r \<noteq> [dquote] \<and> r \<noteq> rdquote \<and> r \<noteq> [CHR 0x0A]);
          close_q = RClass (\<lambda>r. r = [dquote] \<or> r = rdquote)
      in rx_seq [open_q, inner, inner, RUpTo 58 inner, close_q])"

definition name_rune :: "(string \<Rightarrow> bool) \<Rightarrow> string \<Rightarrow> bool" where
  "name_rune uni r =
     ((case r of [c] \<Rightarrow> code_of c < 128 \<and> (is_upper c \<or> is_lower c \<or> is_digit c \<or> c = squote \<or> c = CHR ''-'')
               | _ \<Rightarrow> False) \<or> r = rsquote \<or> length r > 1 \<and> uni r)"

definition name_word :: "(string \<Rightarrow> bool) \<Rightarrow> rx" where
  "name_word uni = RSeq (rx_char is_upper) (RStar (RClass (name_rune uni)))"

definition particle :: rx where
  "particle = foldr RAlt (map rx_word [''of'', ''the'', ''de'', ''van'', ''von'', ''del'', ''la'', ''le'', ''and''])
     (rx_word ''&'')"

definition capitalisedRun :: "(string \<Rightarrow> bool) \<Rightarrow> rx" where
  "capitalisedRun uni =
     rx_seq [RWordB, name_word uni,
       RStar (RAlt (rx_seq [rx_spaces, particle, rx_spaces, name_word uni]) (RSeq rx_spaces (name_word uni)))]"

text \<open>\<open>sentenceStart\<close> matches a prefix that is empty or ends in a stop, a closing quote or none, and spaces.\<close>

definition sentence_start :: "string list \<Rightarrow> bool" where
  "sentence_start pre =
     (pre = [] \<or>
      (let sp = (\<lambda>r. case r of [c] \<Rightarrow> re_space c | _ \<Rightarrow> False);
           stop = (\<lambda>r. r \<in> {''.'', ''!'', ''?''});
           rest = dropWhile sp (rev pre)
       in rest \<noteq> rev pre \<and> rest \<noteq> [] \<and>
          (stop (hd rest) \<or> hd rest \<in> {[dquote], rdquote, [squote]} \<and> tl rest \<noteq> [] \<and> stop (hd (tl rest)))))"

definition firstWord :: "string \<Rightarrow> string" where
  "firstWord s = takeWhile (\<lambda>c. c \<noteq> CHR '' '' \<and> c \<noteq> CHR 0x09) s"

definition opener_cutset :: string where "opener_cutset = ''.,;:!?'' @ [dquote, squote]"

definition isCommonSentenceOpener :: "string \<Rightarrow> bool" where
  "isCommonSentenceOpener word = (to_lower (trim word opener_cutset) \<in> set sentenceOpeners)"

definition isNumeric :: "string \<Rightarrow> bool" where
  "isNumeric lower =
     (let fs = str_fields lower in
      if length fs = 0 then False
      else list_all (\<lambda>f. let f = trim f ''.,;:!?%$'' in f \<in> set numberWords \<or> list_all is_digit f) fs)"

definition isPlausibleEntity :: "string \<Rightarrow> bool" where
  "isPlausibleEntity name =
     (if length (runes name) < minEntityLen \<or> length name > 80 then False
      else
        let lower = to_lower name in
        if list_ex (\<lambda>w. trim w opener_cutset \<in> set temporalWords) (str_fields lower) then False
        else if isNumeric lower then False
        else list_ex (\<lambda>c. is_lower c \<or> is_upper c \<or> code_of c > 127) name)"

definition overlaps :: "(nat \<times> nat) list \<Rightarrow> nat \<times> nat \<Rightarrow> bool" where
  "overlaps ranges sp = list_ex (\<lambda>r. fst sp < snd r \<and> fst r < snd sp) ranges"

definition add_cutset :: "string list" where
  "add_cutset = map (\<lambda>c. [c]) (''.,;:!?'' @ [dquote, squote]) @ [ldquote, rdquote] @ map (\<lambda>c. [c]) ''()[]{}''"

text \<open>The closure \<open>add\<close>, on the pair of the names seen (normalized) and the names kept.\<close>

definition add_entity :: "string \<Rightarrow> string set \<times> string list \<Rightarrow> string set \<times> string list" where
  "add_entity name st =
     (let name = trim_space (trim_runes add_cutset name) in
      if \<not> isPlausibleEntity name then st
      else let key = NormalizeEntity name in
        if key = [] \<or> key \<in> fst st then st
        else (insert key (fst st), snd st @ [name]))"

definition run_span :: "string list \<Rightarrow> nat \<times> nat \<Rightarrow> string" where
  "run_span rs loc =
     (let sp = text_slice rs (fst loc) (snd loc) in
      if sentence_start (take (fst loc) rs) \<and> isCommonSentenceOpener (firstWord sp)
      then trim_space (trim_prefix sp (firstWord sp)) else sp)"

definition ExtractEntities :: "(string \<Rightarrow> bool) \<Rightarrow> string \<Rightarrow> string list" where
  "ExtractEntities uni content =
     (let rs = runes content;
          quoted = FindAll quotedSpan rs;
          st = fold (\<lambda>(a, b). add_entity (text_slice rs (a + 1) (b - 1))) quoted ({}, []);
          st = fold (\<lambda>loc st. if overlaps quoted loc then st else add_entity (run_span rs loc) st)
                 (FindAll (capitalisedRun uni) rs) st
      in take maxEntitiesPerMemory (snd st))"

section \<open>Utterances\<close>

text \<open>\<open>speakerLabel\<close> is its anchor followed by the label, the second submatch, and the colon.\<close>

definition label_lead :: rx where
  "label_lead = RAlt RStart (RSeq (rx_char (\<lambda>c. c \<in> set ''.!?'')) rx_spaces)"

definition label_word :: rx where
  "label_word = RSeq (rx_char is_upper)
     (RUpTo 20 (rx_char (\<lambda>c. is_upper c \<or> is_lower c \<or> is_digit c \<or> c = CHR ''_'' \<or> c = CHR ''-'')))"

definition label_body :: rx where
  "label_body = rx_seq [label_word, RUpTo 1 (RSeq rx_spaces label_word), rx_is CHR '':'', rx_char re_space]"

definition speakerLabel :: rx where "speakerLabel = RSeq label_lead label_body"

text \<open>Where the second submatch of the match at \<open>i\<close> begins: the first end of the anchor that goes on.\<close>

definition label_start :: "string list \<Rightarrow> nat \<Rightarrow> nat" where
  "label_start rs i = hd (filter (\<lambda>p. ends label_body rs p \<noteq> []) (ends label_lead rs i))"

definition segment :: "string \<Rightarrow> string list" where
  "segment s = (let seg = trim_space s in if seg \<noteq> [] then [seg] else [])"

fun cut_at :: "string list \<Rightarrow> nat \<Rightarrow> nat list \<Rightarrow> string list" where
  "cut_at rs prev [] = segment (concat (drop prev rs))"
| "cut_at rs prev (start # starts) =
     (if start > prev then segment (text_slice rs prev start) else []) @ cut_at rs start starts"

definition splitOnSpeakerLabels :: "string \<Rightarrow> string list" where
  "splitOnSpeakerLabels line =
     (let rs = runes line; locs = FindAll speakerLabel rs in
      if length locs = 0 then [line] else cut_at rs 0 (map (\<lambda>loc. label_start rs (fst loc)) locs))"

definition splitUtterances :: "string \<Rightarrow> string list" where
  "splitUtterances conversation = concat (map splitOnSpeakerLabels (split_char (CHR 0x0A) conversation))"

definition stripSpeaker :: "string \<Rightarrow> string" where
  "stripSpeaker line =
     (case index_of line '': '' of
        Some idx \<Rightarrow> if idx > 0 \<and> idx < 30 then trim_space (drop (idx + 2) line) else line
      | None \<Rightarrow> line)"

section \<open>Classification\<close>

definition isNoise :: "string \<Rightarrow> bool" where
  "isNoise lower = (if trim_space lower \<in> set noise_words then True else length lower < 15)"

definition topic_cutset :: string where
  "topic_cutset = ''.,;:!?'' @ [dquote, squote] @ ''()[]{}/-''"

definition extractTopics :: "string \<Rightarrow> string list" where
  "extractTopics content =
     take 4 (first_by (\<lambda>w. w) (\<lambda>w. length w < 2 \<or> w \<notin> set techTerms) {}
       (map (\<lambda>w. trim (to_lower w) topic_cutset) (str_fields content)))"

definition classifyLine :: "(string \<Rightarrow> bool) \<Rightarrow> string \<Rightarrow> extracted option" where
  "classifyLine uni content =
     (let lower = to_lower content;
          mk = (\<lambda>t tags. Some \<lparr>x_content = content, x_type = t, x_tags = tags,
                             x_entities = ExtractEntities uni content\<rparr>)
      in if isNoise lower then None
         else if has_any lower prefPatterns then mk MemoryTypeSemantic (extractTopics content @ [''preference''])
         else if has_any lower procPatterns then mk MemoryTypeProcedural (extractTopics content @ [''workflow''])
         else if has_any lower eventPatterns then mk MemoryTypeEpisodic (extractTopics content @ [''event''])
         else if has_any lower factPatterns then mk MemoryTypeSemantic (extractTopics content)
         else if length content > 30 then mk MemoryTypeEpisodic (extractTopics content)
         else None)"

definition Extract :: "(string \<Rightarrow> bool) \<Rightarrow> string \<Rightarrow> extracted list" where
  "Extract uni conversation =
     dedup (List.map_filter
       (\<lambda>line. let line = trim_space line in
          if length line < 10 then None else classifyLine uni (stripSpeaker line))
       (splitUtterances conversation))"

section \<open>The LLM extractor\<close>

text \<open>
  The provider is outside the program: \<open>chat\<close> gives the contents of the choices of its decoded
  answer to a prompt, or nothing on a transport error, an error status or an undecodable body.
  \<open>unmarshal\<close> is the JSON decoding of a message into the array of \<open>llmMemory\<close>.
\<close>

record llm_memory =
  l_content :: string
  l_type :: string
  l_tags :: "string list"
  l_entities :: "string list"

record provider =
  p_chat :: "string \<Rightarrow> string \<Rightarrow> string \<Rightarrow> string \<Rightarrow> string list option"
  p_unmarshal :: "string \<Rightarrow> llm_memory list option"

datatype extract_error = RequestFailed | NoChoices | NotAnArray

record llm_extractor =
  lx_url :: string
  lx_key :: string
  lx_model :: string

definition replace_once :: "string \<Rightarrow> string \<Rightarrow> string \<Rightarrow> string" where
  "replace_once s old new =
     (case index_of s old of None \<Rightarrow> s | Some i \<Rightarrow> take i s @ new @ drop (i + length old) s)"

definition NewLLMExtractor :: "string \<Rightarrow> string \<Rightarrow> string \<Rightarrow> llm_extractor" where
  "NewLLMExtractor baseURL apiKey modelName =
     (let endpoint = trim_suffix baseURL ''/'';
          endpoint = (if \<not> contains endpoint ''/chat/completions'' then endpoint @ ''/v1/chat/completions'' else endpoint)
      in \<lparr>lx_url = replace_once endpoint ''/v1/v1/'' ''/v1/'', lx_key = apiKey, lx_model = modelName\<rparr>)"

definition fence :: string where "fence = replicate 3 (CHR 0x60)"

definition last_index :: "string \<Rightarrow> string \<Rightarrow> nat option" where
  "last_index s sub =
     (case filter (\<lambda>i. has_prefix (drop i s) sub) [0..<Suc (length s)] of [] \<Rightarrow> None | ixs \<Rightarrow> Some (last ixs))"

definition stripCodeFence :: "string \<Rightarrow> string" where
  "stripCodeFence s =
     (let s = trim_space s in
      if \<not> has_prefix s fence then s
      else
        let s = (case index_of s [CHR 0x0A] of Some i \<Rightarrow> drop (i + 1) s | None \<Rightarrow> s);
            s = (case last_index s fence of Some i \<Rightarrow> take i s | None \<Rightarrow> s)
        in trim_space s)"

definition parseMemoryType :: "string \<Rightarrow> memory_type" where
  "parseMemoryType s =
     (let t = to_lower (trim_space s) in
      if t = ''episodic'' then MemoryTypeEpisodic
      else if t = ''procedural'' then MemoryTypeProcedural else MemoryTypeSemantic)"

definition reconcileEntities :: "(string \<Rightarrow> bool) \<Rightarrow> string list \<Rightarrow> string \<Rightarrow> string list" where
  "reconcileEntities uni fromModel content =
     (let out = first_by NormalizeEntity (\<lambda>k. k = []) {} (filter isPlausibleEntity (map trim_space fromModel))
      in if length out = 0 then ExtractEntities uni content else take maxEntitiesPerMemory out)"

definition parseExtracted :: "(string \<Rightarrow> bool) \<Rightarrow> provider \<Rightarrow> string \<Rightarrow> extract_error + extracted list" where
  "parseExtracted uni P content =
     (case p_unmarshal P (stripCodeFence content) of
        None \<Rightarrow> Inl NotAnArray
      | Some raw \<Rightarrow> Inr (List.map_filter (\<lambda>m.
          let c = trim_space (l_content m) in
          if c = [] then None
          else Some \<lparr>x_content = c, x_type = parseMemoryType (l_type m), x_tags = l_tags m,
                     x_entities = reconcileEntities uni (l_entities m) c\<rparr>) raw))"

definition extractViaLLM :: "(string \<Rightarrow> bool) \<Rightarrow> provider \<Rightarrow> llm_extractor \<Rightarrow> string \<Rightarrow> extract_error + extracted list" where
  "extractViaLLM uni P e conversation =
     (case p_chat P (lx_url e) (lx_key e) (lx_model e) conversation of
        None \<Rightarrow> Inl RequestFailed
      | Some [] \<Rightarrow> Inl NoChoices
      | Some (c # _) \<Rightarrow> parseExtracted uni P c)"

text \<open>\<open>LLMExtractor.Extract\<close>; the second component is the fallback counter it increments.\<close>

definition llm_Extract ::
  "(string \<Rightarrow> bool) \<Rightarrow> provider \<Rightarrow> llm_extractor \<Rightarrow> string \<Rightarrow> extracted list \<times> string option" where
  "llm_Extract uni P e conversation =
     (case extractViaLLM uni P e conversation of
        Inl err \<Rightarrow> (Extract uni conversation, Some ''error'')
      | Inr [] \<Rightarrow> (let fb = Extract uni conversation in (fb, if length fb > 0 then Some ''empty'' else None))
      | Inr memories \<Rightarrow> (memories, None))"

record provider_config =
  pc_provider :: string
  pc_model :: string
  pc_key :: string
  pc_url :: string

datatype extractor = RuleExtractor | LLMExtractor llm_extractor

datatype config_error = NoBaseURL | NoModel | UnknownProvider string

definition NewFromConfig :: "provider_config \<Rightarrow> config_error + extractor" where
  "NewFromConfig cfg =
     (if pc_provider cfg \<in> {''rule'', ''''} then Inr RuleExtractor
      else if pc_provider cfg = ''llm'' then
        if pc_url cfg = [] then Inl NoBaseURL
        else if pc_model cfg = [] then Inl NoModel
        else Inr (LLMExtractor (NewLLMExtractor (pc_url cfg) (pc_key cfg) (pc_model cfg)))
      else Inl (UnknownProvider (pc_provider cfg)))"

definition run_extractor :: "(string \<Rightarrow> bool) \<Rightarrow> provider \<Rightarrow> extractor \<Rightarrow> string \<Rightarrow> extracted list" where
  "run_extractor uni P x conversation =
     (case x of RuleExtractor \<Rightarrow> Extract uni conversation | LLMExtractor e \<Rightarrow> fst (llm_Extract uni P e conversation))"

section \<open>Runes, matches and pieces of text\<close>

lemma concat_runes [simp]: "concat (runes s) = s"
  by (induction s rule: runes.induct) (subst runes.simps, auto)

lemma rep_ends_bounds:
  assumes "\<And>k j. j \<in> set (f k) \<Longrightarrow> k \<le> j" "j \<in> set (rep_ends f n i)"
  shows "i \<le> j"
  using assms(2)
proof (induction n arbitrary: i)
  case (Suc n)
  then show ?case by (fastforce split: if_splits dest: less_imp_le intro: le_trans)
qed simp

lemma ends_advance: "j \<in> set (ends r s i) \<Longrightarrow> i \<le> j"
proof (induction r arbitrary: i j)
  case (RSeq a b)
  then show ?case by (fastforce intro: le_trans)
next
  case (RStar a)
  then show ?case using rep_ends_bounds [of "ends a s"] by auto
next
  case (RUpTo n a)
  then show ?case using rep_ends_bounds [of "ends a s"] by auto
qed (auto split: if_splits)

lemma find_Some_mem: "find P xs = Some x \<Longrightarrow> x \<in> set xs \<and> P x"
  by (induction xs) (auto split: if_splits)

lemma find_from_Some:
  assumes "find_from r s i = Some (a, b)"
  shows "i \<le> a" "a \<le> b" "ends r s a \<noteq> []" "b = hd (ends r s a)"
proof -
  obtain j where j: "find (\<lambda>j. ends r s j \<noteq> []) [i..<Suc (length s)] = Some j"
    and ab: "a = j" "b = hd (ends r s j)"
    using assms by (auto simp: find_from_def)
  have m: "j \<in> set [i..<Suc (length s)]" "ends r s j \<noteq> []"
    using find_Some_mem [OF j] by auto
  then show "i \<le> a" "ends r s a \<noteq> []" "b = hd (ends r s a)" using ab by auto
  show "a \<le> b" using ab ends_advance [OF hd_in_set [OF m(2)]] by simp
qed

lemma label_start_bounds:
  assumes "find_from speakerLabel s i = Some (a, b)"
  shows "i \<le> label_start s a" "label_start s a \<le> b"
proof -
  let ?ps = "filter (\<lambda>p. ends label_body s p \<noteq> []) (ends label_lead s a)"
  note f = find_from_Some [OF assms]
  have c: "concat (map (ends label_body s) xs) =
      concat (map (ends label_body s) (filter (\<lambda>p. ends label_body s p \<noteq> []) xs))" for xs
    by (induction xs) auto
  have e: "ends speakerLabel s a = concat (map (ends label_body s) ?ps)"
    using c [of "ends label_lead s a"] by (simp add: speakerLabel_def)
  then obtain p ps where p: "?ps = p # ps" using f(3) by (cases ?ps) auto
  then have m: "p \<in> set (ends label_lead s a)" "ends label_body s p \<noteq> []"
    using list.set_intros(1) [of p ps] unfolding p [symmetric] by auto
  have "b = hd (ends label_body s p)" using f(4) e p m(2) by simp
  then have "p \<le> b" using m(2) ends_advance [of b label_body s p] by simp
  moreover have "a \<le> p" by (rule ends_advance [OF m(1)])
  ultimately show "i \<le> label_start s a" "label_start s a \<le> b"
    using p f(1) by (auto simp: label_start_def)
qed

lemma label_starts_sorted:
  "sorted (map (\<lambda>loc. label_start s (fst loc)) (find_all n speakerLabel s i)) \<and>
   (\<forall>p \<in> set (map (\<lambda>loc. label_start s (fst loc)) (find_all n speakerLabel s i)). i \<le> p)"
proof (induction n arbitrary: i)
  case (Suc n)
  show ?case
  proof (cases "find_from speakerLabel s i")
    case (Some ab)
    obtain a b where ab: "ab = (a, b)" by (cases ab)
    note l = label_start_bounds [OF Some [unfolded ab]]
    show ?thesis using Suc.IH [of "max b (Suc a)"] l find_from_Some(1) [OF Some [unfolded ab]]
      by (fastforce simp: Some ab)
  qed simp
qed simp

definition visible :: "string \<Rightarrow> string" where "visible s = filter (\<lambda>c. \<not> is_space c) s"

lemma visible_append [simp]: "visible (a @ b) = visible a @ visible b"
  by (simp add: visible_def)

lemma visible_Nil [simp]: "visible [] = []"
  by (simp add: visible_def)

lemma visible_dropWhile: "visible (dropWhile is_space s) = visible s"
  by (induction s) (auto simp: visible_def)

lemma visible_rev: "visible (rev s) = rev (visible s)"
  by (simp add: visible_def rev_filter)

lemma visible_trim [simp]: "visible (trim_space s) = visible s"
  by (simp add: trim_space_def trim_by_def visible_rev visible_dropWhile)

lemma visible_segment [simp]: "visible (concat (segment s)) = visible s"
proof (cases "trim_space s = []")
  case True
  then have "visible s = []" using visible_trim [of s] by (simp del: visible_trim)
  then show ?thesis using True by (simp add: segment_def)
qed (simp add: segment_def Let_def)

lemma slice_drop: "a \<le> b \<Longrightarrow> text_slice rs a b @ concat (drop b rs) = concat (drop a rs)"
proof -
  assume "a \<le> b"
  then have "take (b - a) (drop a rs) @ drop b rs = drop a rs"
    by (metis append_take_drop_id drop_drop le_add_diff_inverse2)
  from arg_cong [OF this, of concat] show "text_slice rs a b @ concat (drop b rs) = concat (drop a rs)"
    by (simp add: text_slice_def)
qed

lemma text_slice_empty [simp]: "text_slice rs a a = []"
  by (simp add: text_slice_def)

lemma visible_cut_at:
  "sorted (prev # starts) \<Longrightarrow> visible (concat (cut_at rs prev starts)) = visible (concat (drop prev rs))"
proof (induction starts arbitrary: prev)
  case (Cons start starts)
  have le: "prev \<le> start" using Cons.prems by simp
  have "visible (concat (if start > prev then segment (text_slice rs prev start) else [])) = visible (text_slice rs prev start)"
    using le by (auto simp: slice_def)
  then show ?case
    using Cons.IH [of start] Cons.prems
    unfolding slice_drop [OF le, of rs, symmetric] visible_append cut_at.simps concat_append
    by auto
qed simp

lemma visible_labels: "visible (concat (splitOnSpeakerLabels line)) = visible line"
proof -
  have "sorted (0 # map (\<lambda>loc. label_start (runes line) (fst loc)) (FindAll speakerLabel (runes line)))"
    using label_starts_sorted unfolding FindAll_def by (simp del: find_all.simps)
  from visible_cut_at [OF this] show ?thesis
    by (simp add: splitOnSpeakerLabels_def Let_def)
qed

lemma visible_split_acc:
  "is_space sep \<Longrightarrow> visible (concat (split_char_acc sep s acc)) = visible (rev acc @ s)"
  by (induction sep s acc rule: split_char_acc.induct) (auto simp: visible_def)

lemma visible_map: "\<forall>x \<in> set xs. visible (concat (f x)) = visible x \<Longrightarrow>
  visible (concat (concat (map f xs))) = visible (concat xs)"
  by (induction xs) auto

lemma is_space_newline: "is_space (CHR 0x0A)"
  by (simp add: is_space_def)

lemma segment_trimmed: "seg \<in> set (segment s) \<Longrightarrow> seg \<noteq> [] \<and> trim_space seg = seg"
  by (auto simp: segment_def Let_def trim_space_def split: if_splits)

lemma cut_at_trimmed: "seg \<in> set (cut_at rs prev starts) \<Longrightarrow> seg \<noteq> [] \<and> trim_space seg = seg"
  by (induction starts arbitrary: prev) (auto split: if_splits dest: segment_trimmed)

text \<open>
  Cutting a conversation into turns keeps all of it: up to white space, the turns in order are
  the conversation, whatever labels and newlines it holds; and a line with a speaker label is cut
  into turns that are trimmed and not empty.
\<close>

lemma splitUtterances_keeps_text:
  shows "(visible (concat (splitUtterances conversation)) = visible conversation) \<and>
      (splitOnSpeakerLabels line = [line] \<or>
      list_all (\<lambda>t. t \<noteq> [] \<and> trim_space t = t) (splitOnSpeakerLabels line))"
proof (rule conjI)
  show "visible (concat (splitUtterances conversation)) = visible conversation"
    unfolding splitUtterances_def
    by (subst visible_map)
      (simp_all add: visible_labels split_char_def visible_split_acc is_space_newline)
  show "splitOnSpeakerLabels line = [line] \<or>
      list_all (\<lambda>t. t \<noteq> [] \<and> trim_space t = t) (splitOnSpeakerLabels line)"
    by (auto simp: splitOnSpeakerLabels_def Let_def list_all_iff dest: cut_at_trimmed)
qed

section \<open>What is extracted\<close>

lemma sublist_trim_by: "sublist (trim_by P s) s"
proof -
  have "sublist (dropWhile P (rev (dropWhile P s))) (rev (dropWhile P s))"
    by (metis sublist_append_leftI takeWhile_dropWhile_id sublist_order.order_refl sublist_appendI append_Nil2)
  then have "sublist (trim_by P s) (dropWhile P s)"
    unfolding trim_by_def by (metis rev_rev_ident sublist_rev)
  moreover have "sublist (dropWhile P s) s"
    by (metis suffix_dropWhile suffix_imp_sublist)
  ultimately show ?thesis by (rule sublist_order.order_trans)
qed

lemma sublist_trim_space: "sublist (trim_space s) s"
  by (simp add: trim_space_def sublist_trim_by)

lemma sublist_text_slice: "sublist (text_slice rs a b) (concat rs)"
proof -
  have "concat rs = concat (take a rs) @ concat (take (b - a) (drop a rs)) @ concat (drop (b - a) (drop a rs))"
    by (metis append_take_drop_id concat_append)
  then show ?thesis unfolding text_slice_def by (metis sublist_appendI)
qed

lemma sublist_concat_drop: "sublist (concat (drop a rs)) (concat rs)"
  by (metis append_take_drop_id concat_append sublist_append_leftI sublist_order.order_refl)

lemma sublist_segment: "seg \<in> set (segment s) \<Longrightarrow> sublist seg s"
  by (auto simp: segment_def Let_def sublist_trim_space split: if_splits)

lemma sublist_cut_at: "seg \<in> set (cut_at rs prev starts) \<Longrightarrow> sublist seg (concat rs)"
proof (induction starts arbitrary: prev)
  case Nil
  then have "sublist seg (concat (drop prev rs))" by (simp add: sublist_segment)
  then show ?case by (rule sublist_order.order_trans [OF _ sublist_concat_drop])
next
  case (Cons start starts)
  then consider "seg \<in> set (segment (text_slice rs prev start))" | "seg \<in> set (cut_at rs start starts)"
    by (auto split: if_splits)
  then show ?case
  proof cases
    case 1
    then show ?thesis by (rule sublist_order.order_trans [OF sublist_segment sublist_text_slice])
  qed (rule Cons.IH)
qed

lemma sublist_labels: "seg \<in> set (splitOnSpeakerLabels line) \<Longrightarrow> sublist seg line"
  using sublist_cut_at [of seg "runes line"]
  by (fastforce simp: splitOnSpeakerLabels_def Let_def split: if_splits)

lemma sublist_split_acc: "p \<in> set (split_char_acc sep s acc) \<Longrightarrow> sublist p (rev acc @ s)"
proof (induction sep s acc rule: split_char_acc.induct)
  case (2 sep c s acc)
  show ?case
  proof (cases "c = sep")
    case True
    have "sublist s (rev acc @ c # s)"
      by (metis append.assoc append_Cons append_Nil sublist_append_leftI sublist_order.order_refl)
    then show ?thesis using 2 True by (auto intro: sublist_order.order_trans)
  qed (use 2 in auto)
qed auto

lemma sublist_utterance: "u \<in> set (splitUtterances c) \<Longrightarrow> sublist u c"
  using sublist_split_acc [of _ "CHR 0x0A" c "[]"] sublist_labels sublist_order.order_trans
  by (fastforce simp: splitUtterances_def split_char_def)

lemma sublist_stripSpeaker: "sublist (stripSpeaker line) line"
proof -
  have "sublist (trim_space (drop k line)) line" for k
    using sublist_trim_space sublist_drop sublist_order.order_trans by blast
  then show ?thesis by (auto simp: stripSpeaker_def split: option.splits)
qed

definition entity_inv :: "string set \<times> string list \<Rightarrow> bool" where
  "entity_inv st =
     (fst st = NormalizeEntity ` set (snd st) \<and> distinct (map NormalizeEntity (snd st)) \<and>
      (\<forall>n \<in> set (snd st). isPlausibleEntity n \<and> NormalizeEntity n \<noteq> []))"

lemma add_entity_inv: "entity_inv st \<Longrightarrow> entity_inv (add_entity name st)"
  by (auto simp: entity_inv_def add_entity_def Let_def)

lemma fold_entity_inv:
  "entity_inv st \<Longrightarrow> (\<And>x st. entity_inv st \<Longrightarrow> entity_inv (f x st)) \<Longrightarrow> entity_inv (fold f xs st)"
  by (induction xs arbitrary: st) auto

lemma ExtractEntities_inv:
  obtains st where "entity_inv st" "ExtractEntities uni c = take maxEntitiesPerMemory (snd st)"
proof -
  have "entity_inv ({}, [])" by (simp add: entity_inv_def)
  then have "entity_inv (fold (\<lambda>loc st. if overlaps Q loc then st else add_entity (run_span rs loc) st) L
      (fold (\<lambda>(a, b). add_entity (text_slice rs (a + 1) (b - 1))) Q ({}, [])))" for Q L rs
    by (intro fold_entity_inv) (auto intro: add_entity_inv)
  from that [OF this] show thesis unfolding ExtractEntities_def Let_def by blast
qed

definition good_entities :: "string list \<Rightarrow> bool" where
  "good_entities es =
     (length es \<le> 6 \<and> distinct (map NormalizeEntity es) \<and>
      list_all (\<lambda>n. NormalizeEntity n \<noteq> [] \<and> isPlausibleEntity n) es)"

lemma good_take: "distinct (map NormalizeEntity es) \<Longrightarrow>
  list_all (\<lambda>n. NormalizeEntity n \<noteq> [] \<and> isPlausibleEntity n) es \<Longrightarrow> good_entities (take maxEntitiesPerMemory es)"
  by (auto simp: good_entities_def maxEntitiesPerMemory_def take_map distinct_take list_all_iff dest: in_set_takeD
      simp flip: take_map)

lemma good_ExtractEntities: "good_entities (ExtractEntities uni c)"
proof -
  obtain st where "entity_inv st" "ExtractEntities uni c = take maxEntitiesPerMemory (snd st)"
    by (rule ExtractEntities_inv)
  then show ?thesis using good_take [of "snd st"] by (auto simp: entity_inv_def list_all_iff)
qed

lemma good_reconcileEntities: "good_entities (reconcileEntities uni es c)"
proof -
  let ?out = "first_by NormalizeEntity (\<lambda>k. k = []) {} (filter isPlausibleEntity (map trim_space es))"
  have "distinct (map NormalizeEntity ?out)" by (rule first_by_distinct)
  moreover have "list_all (\<lambda>n. NormalizeEntity n \<noteq> [] \<and> isPlausibleEntity n) ?out"
    using set_first_by_subset [of NormalizeEntity "\<lambda>k. k = []" "{}"]
    by (fastforce simp: list_all_iff dest: first_by_avoids)
  ultimately show ?thesis using good_take [of ?out] good_ExtractEntities
    by (simp add: reconcileEntities_def Let_def)
qed

lemma length_extractTopics: "length (extractTopics c) \<le> 4"
  by (simp add: extractTopics_def)

definition known_types :: "memory_type list" where
  "known_types = [MemoryTypeSemantic, MemoryTypeProcedural, MemoryTypeEpisodic]"

lemma classifyLine_Some:
  assumes "classifyLine uni c = Some m"
  shows "x_content m = c" "\<not> isNoise (to_lower c)" "x_type m \<in> set known_types" "length (x_tags m) \<le> 5"
    "x_entities m = ExtractEntities uni c"
  using assms length_extractTopics [of c]
  by (auto simp: classifyLine_def Let_def known_types_def split: if_splits)

lemma Extract_from_line:
  assumes "m \<in> set (Extract uni c)"
  obtains u where "u \<in> set (splitUtterances c)" "length (trim_space u) \<ge> 10"
    "classifyLine uni (stripSpeaker (trim_space u)) = Some m"
proof -
  have "m \<in> set (List.map_filter (\<lambda>line. let line = trim_space line in
      if length line < 10 then None else classifyLine uni (stripSpeaker line)) (splitUtterances c))"
    using assms dedup_subset by (auto simp: Extract_def)
  then show thesis using that by (auto simp: List.map_filter_def Let_def split: if_splits)
qed

lemma Extract_member:
  assumes "m \<in> set (Extract uni c)"
  shows "sublist (x_content m) c" "15 \<le> length (x_content m)" "x_content m \<noteq> []"
    "trim_space (to_lower (x_content m)) \<notin> set noise_words"
    "x_type m \<in> set known_types" "length (x_tags m) \<le> 5" "good_entities (x_entities m)"
proof -
  obtain u where u: "u \<in> set (splitUtterances c)"
    and m: "classifyLine uni (stripSpeaker (trim_space u)) = Some m"
    using assms by (rule Extract_from_line)
  have "sublist (stripSpeaker (trim_space u)) c"
    using sublist_stripSpeaker sublist_trim_space sublist_utterance [OF u] sublist_order.order_trans by blast
  then show "sublist (x_content m) c" "15 \<le> length (x_content m)" "x_content m \<noteq> []"
    "trim_space (to_lower (x_content m)) \<notin> set noise_words"
    "x_type m \<in> set known_types" "length (x_tags m) \<le> 5" "good_entities (x_entities m)"
    using classifyLine_Some [OF m] good_ExtractEntities [of uni] by (auto simp: isNoise_def split: if_splits)
qed


section \<open>The provider cannot lose a conversation\<close>

lemma parseExtracted_members:
  assumes "parseExtracted uni P s = Inr ms" "m \<in> set ms"
  shows "x_content m \<noteq> []" "x_type m \<in> set known_types" "good_entities (x_entities m)"
  using assms good_reconcileEntities
  by (auto simp: parseExtracted_def parseMemoryType_def known_types_def List.map_filter_def Let_def
      split: option.splits if_splits)

lemma extractViaLLM_Inr:
  "extractViaLLM uni P e c = Inr ms \<Longrightarrow> \<exists>s. parseExtracted uni P s = Inr ms"
  by (auto simp: extractViaLLM_def split: option.splits list.splits)

text \<open>
  C36: no answer of the provider costs the caller a conversation.  Whatever it returns, extraction
  gives the validated memories of the answer when there are any and the rule-based memories
  otherwise; so nothing comes back only when the rule-based pass finds nothing either.  Every
  memory returned has content, one of the three known types and good entities, whatever the
  provider sent, and the fallback is counted as an error exactly when the provider's pass failed.
\<close>

theorem llm_Extract_never_loses:
  shows "(list_all (\<lambda>m. x_content m \<noteq> [] \<and> x_type m \<in> set known_types \<and> good_entities (x_entities m))
      (fst (llm_Extract uni P e c))) \<and>
      (fst (llm_Extract uni P e c) =
      (case extractViaLLM uni P e c of Inr (m # ms) \<Rightarrow> m # ms | _ \<Rightarrow> Extract uni c)) \<and>
      (fst (llm_Extract uni P e c) = [] \<longleftrightarrow> Extract uni c = [] \<and> extractViaLLM uni P e c \<in> Inr ` {[]} \<union> range Inl) \<and>
      (snd (llm_Extract uni P e c) = Some ''error'' \<longleftrightarrow> extractViaLLM uni P e c \<in> range Inl)"
proof (rule conjI4)
  show "fst (llm_Extract uni P e c) =
      (case extractViaLLM uni P e c of Inr (m # ms) \<Rightarrow> m # ms | _ \<Rightarrow> Extract uni c)"
    and "fst (llm_Extract uni P e c) = [] \<longleftrightarrow> Extract uni c = [] \<and> extractViaLLM uni P e c \<in> Inr ` {[]} \<union> range Inl"
    and "snd (llm_Extract uni P e c) = Some ''error'' \<longleftrightarrow> extractViaLLM uni P e c \<in> range Inl"
    by (auto simp: llm_Extract_def Let_def image_iff split: sum.splits list.splits)
  have "\<forall>m \<in> set (Extract uni c). x_content m \<noteq> [] \<and> x_type m \<in> set known_types \<and> good_entities (x_entities m)"
    by (auto dest: Extract_member)
  moreover have "extractViaLLM uni P e c = Inr ms \<Longrightarrow>
      \<forall>m \<in> set ms. x_content m \<noteq> [] \<and> x_type m \<in> set known_types \<and> good_entities (x_entities m)" for ms
    using extractViaLLM_Inr parseExtracted_members by blast
  ultimately show "list_all (\<lambda>m. x_content m \<noteq> [] \<and> x_type m \<in> set known_types \<and> good_entities (x_entities m))
      (fst (llm_Extract uni P e c))"
    unfolding list_all_iff by (auto simp: llm_Extract_def Let_def split: sum.splits list.splits)
qed

end
