(* ===== verification/Ranking.thy ===== *)
theory Ranking
  imports DomainModel
begin

text \<open>
  \<^verbatim>\<open>internal/ranking\<close>: the composite score and the ranked page (\<open>scorer.go\<close>), the retrieval-stage
  relevance (\<open>relevance.go\<close>), and the normalisation and fusion of the keyword, semantic and entity
  signals (\<open>bm25.go\<close>).  Every signal is an arbitrary \<open>float64\<close>: the lemmas bound them for every
  input, NaN and the infinities included.
\<close>

section \<open>scorer.go\<close>

definition relevanceWeight :: f64 where "relevanceWeight = Fin 0.75"
definition recencyWeight :: f64 where "recencyWeight = Fin 0.10"
definition frequencyWeight :: f64 where "frequencyWeight = Fin 0.10"
definition typeWeight :: f64 where "typeWeight = Fin 0.05"
definition supersededDemotion :: f64 where "supersededDemotion = Fin 0.6"
definition frequencySaturation :: f64 where "frequencySaturation = Fin 10"

definition TypePriority :: "memory_type \<Rightarrow> f64" where
  "TypePriority t =
     (if t = MemoryTypeSemantic then Fin 1.0
      else if t = MemoryTypeProcedural then Fin 0.95
      else if t = MemoryTypeEpisodic then Fin 0.90
      else 0)"

definition clamp01 :: "f64 \<Rightarrow> f64" where
  "clamp01 v = (if is_nan v \<or> v < 0 then 0 else if v > 1 then 1 else v)"

definition recencyFactor :: "gtime \<Rightarrow> gtime \<Rightarrow> f64" where
  "recencyFactor createdAt now =
     (let hoursSince = dur_hours (time_sub now createdAt);
          hoursSince = (if hoursSince < 0 then 0 else hoursSince);
          halfLifeHours = Fin 90 * Fin 24
      in math_exp (Fin (- 0.693) * hoursSince / halfLifeHours))"

definition frequencyFactor :: "int \<Rightarrow> f64" where
  "frequencyFactor accessCount =
     (if accessCount \<le> 0 then 0
      else let count = f_of_int accessCount
           in math_log1p count / math_log1p (count + frequencySaturation))"

definition Score :: "memory_ctx \<Rightarrow> gtime \<Rightarrow> f64" where
  "Score mem now =
     (let relevance = clamp01 (mc_relevance mem);
          recency = recencyFactor (m_created (mc_memory mem)) now;
          frequency = frequencyFactor (m_access (mc_memory mem));
          typePrio = TypePriority (m_type (mc_memory mem));
          score = relevanceWeight * relevance + recencyWeight * recency +
                  frequencyWeight * frequency + typeWeight * typePrio
      in if mc_superseded mem then score * supersededDemotion else score)"

definition rank_less :: "memory_ctx \<Rightarrow> memory_ctx \<Rightarrow> bool" where
  "rank_less a b =
     (if \<not> feq (mc_score a) (mc_score b) then mc_score a > mc_score b
      else m_id (mc_memory a) < m_id (mc_memory b))"

definition RankResultsAt :: "memory_ctx list \<Rightarrow> int \<Rightarrow> gtime \<Rightarrow> memory_ctx list" where
  "RankResultsAt results topK now =
     (let results = map (\<lambda>r. r\<lparr>mc_score := Score r now\<rparr>) results;
          results = sort_stable rank_less results
      in if topK > 0 \<and> int (length results) > topK then take (nat topK) results else results)"

section \<open>relevance.go\<close>

definition agreementBoost :: f64 where "agreementBoost = Fin 0.25"
definition entityBoost :: f64 where "entityBoost = Fin 0.05"
definition entityMatchRelevance :: f64 where "entityMatchRelevance = Fin 0.5"

text \<open>The keywords the loop scores: trimmed, lowered, the empty and the repeated ones skipped.\<close>

definition distinct_keywords :: "string list \<Rightarrow> string list" where
  "distinct_keywords keywords =
     first_by (\<lambda>k. k) (\<lambda>k. k = []) {} (map (\<lambda>kw. to_lower (trim_space kw)) keywords)"

definition keyword_credit :: "string \<Rightarrow> string list \<Rightarrow> string \<Rightarrow> f64" where
  "keyword_credit lowerContent lowerTags kw =
     (if list_ex (\<lambda>t. contains t kw) lowerTags then Fin 1.0
      else if contains lowerContent kw then Fin 0.75 else 0)"

definition LexicalRelevance :: "string \<Rightarrow> string list \<Rightarrow> string list \<Rightarrow> f64" where
  "LexicalRelevance content tags keywords =
     (if keywords = [] then Fin 1.0
      else let lowerContent = to_lower content;
               lowerTags = map to_lower tags;
               kws = distinct_keywords keywords;
               total = fold (\<lambda>kw t. t + keyword_credit lowerContent lowerTags kw) kws 0
           in if length kws = 0 then Fin 1.0 else clamp01 (total / f_of_nat (length kws)))"

definition CombineRelevance :: "f64 \<Rightarrow> f64 \<Rightarrow> f64" where
  "CombineRelevance a b =
     (let a = clamp01 a; b = clamp01 b;
          (strong, weak) = (if b > a then (b, a) else (a, b))
      in clamp01 (strong + agreementBoost * weak * (1 - strong)))"

definition RelevanceTier :: "f64 \<Rightarrow> f64 \<Rightarrow> bool \<Rightarrow> f64" where
  "RelevanceTier lexical cosine hasKeywords =
     (let lexical = clamp01 lexical; cosine = clamp01 cosine in
      if \<not> hasKeywords then cosine
      else if lexical > 0 then clamp01 (Fin 0.5 + Fin 0.5 * CombineRelevance lexical cosine)
      else clamp01 cosine * Fin 0.499)"

definition EntityRelevance :: "f64 \<Rightarrow> f64" where
  "EntityRelevance overlap = clamp01 (entityMatchRelevance * clamp01 overlap)"

definition distinct_entities :: "string list \<Rightarrow> string list" where
  "distinct_entities qs = first_by (\<lambda>q. q) (\<lambda>q. q = []) {} qs"

definition EntityOverlap :: "string list \<Rightarrow> string list \<Rightarrow> f64" where
  "EntityOverlap memoryEntities queryEntities =
     (if queryEntities = [] \<or> memoryEntities = [] then 0
      else let qs = distinct_entities queryEntities;
               matched = length (filter (\<lambda>q. q \<in> set memoryEntities) qs)
           in if length qs = 0 then 0 else f_of_nat matched / f_of_nat (length qs))"

definition EntityOverlapCount :: "int \<Rightarrow> string list \<Rightarrow> f64" where
  "EntityOverlapCount matched queryEntities =
     (if matched \<le> 0 \<or> queryEntities = [] then 0
      else let n = length (distinct_entities queryEntities)
           in if n = 0 then 0
              else f_of_int (if matched > int n then int n else matched) / f_of_nat n)"

definition ApplyEntityBoost :: "f64 \<Rightarrow> f64 \<Rightarrow> f64" where
  "ApplyEntityBoost relevance overlap = clamp01 (clamp01 relevance + entityBoost * clamp01 overlap)"

section \<open>bm25.go\<close>

definition bm25RankPerTerm :: f64 where "bm25RankPerTerm = Fin 0.1"
definition bm25MidpointCoverage :: f64 where "bm25MidpointCoverage = Fin 0.4"
definition bm25SteepnessScale :: f64 where "bm25SteepnessScale = Fin 2.3"
definition semanticGate :: f64 where "semanticGate = Fin 0.15"
definition fusionKeywordWeight :: f64 where "fusionKeywordWeight = Fin 0.45"
definition fusionSemanticWeight :: f64 where "fusionSemanticWeight = Fin 0.40"
definition fusionEntityWeight :: f64 where "fusionEntityWeight = Fin 0.15"

definition FullMatchScore :: "f64 \<Rightarrow> f64" where
  "FullMatchScore idfSum = (if is_nan idfSum \<or> idfSum \<le> 0 then 0 else bm25RankPerTerm * idfSum)"

definition NormalizeBM25 :: "f64 \<Rightarrow> int \<Rightarrow> f64" where
  "NormalizeBM25 raw queryTerms =
     (if is_nan raw \<or> raw \<le> 0 \<or> queryTerms \<le> 0 then 0
      else let midpoint = bm25RankPerTerm * f_of_int queryTerms * bm25MidpointCoverage;
               steepness = bm25SteepnessScale / midpoint
           in clamp01 (1 / (1 + math_exp (- steepness * (raw - midpoint)))))"

definition PassesSemanticGate :: "f64 \<Rightarrow> bool \<Rightarrow> bool \<Rightarrow> bool" where
  "PassesSemanticGate cosine hasCosine hasOtherEvidence =
     (if \<not> hasCosine \<or> hasOtherEvidence then True else cosine \<ge> semanticGate)"

definition FuseWeighted :: "f64 \<Rightarrow> f64 \<Rightarrow> f64 \<Rightarrow> f64 \<Rightarrow> f64 \<Rightarrow> f64 \<Rightarrow> f64" where
  "FuseWeighted keyword semantic entity wk ws we =
     (let total = wk + ws + we in
      if total \<le> 0 then 0
      else clamp01 ((wk * clamp01 keyword + ws * clamp01 semantic + we * clamp01 entity) / total))"

definition FuseRelevance :: "f64 \<Rightarrow> f64 \<Rightarrow> f64 \<Rightarrow> f64" where
  "FuseRelevance keyword semantic entity =
     FuseWeighted keyword semantic entity fusionKeywordWeight fusionSemanticWeight fusionEntityWeight"

definition DefaultFusionWeights :: "f64 \<times> f64 \<times> f64" where
  "DefaultFusionWeights = (fusionKeywordWeight, fusionSemanticWeight, fusionEntityWeight)"

definition MinMax :: "f64 \<Rightarrow> f64 \<Rightarrow> f64 \<Rightarrow> f64" where
  "MinMax v lo hi = (if hi \<le> lo then 1 else clamp01 ((v - lo) / (hi - lo)))"

definition RRF :: "int \<Rightarrow> f64 \<Rightarrow> f64 \<Rightarrow> f64" where
  "RRF rank k weight = (if rank \<le> 0 then 0 else weight / (k + f_of_int rank))"

lemmas weight_defs = relevanceWeight_def recencyWeight_def frequencyWeight_def typeWeight_def
  supersededDemotion_def frequencySaturation_def agreementBoost_def entityBoost_def
  entityMatchRelevance_def bm25RankPerTerm_def bm25MidpointCoverage_def bm25SteepnessScale_def
  semanticGate_def fusionKeywordWeight_def fusionSemanticWeight_def fusionEntityWeight_def

section \<open>The signals are bounded\<close>

text \<open>\<open>clamped v\<close>: the real number a clamped signal holds.\<close>

definition clamped :: "f64 \<Rightarrow> real" where "clamped v = the_fin (clamp01 v)"

lemma clamp01_unit [range_simps, simp]: "in_unit (clamp01 v)"
  by (cases v) (auto simp: clamp01_def f64_consts)

lemma clamp01_eq: "clamp01 v = Fin (clamped v)"
  by (cases v) (auto simp: clamped_def clamp01_def f64_consts)

lemma clamped_bounds [range_simps, simp]: "0 \<le> clamped v" "clamped v \<le> 1"
  using clamp01_unit [of v] by (simp_all add: clamp01_eq)

lemma clamp01_fixed: "in_unit v \<Longrightarrow> clamp01 v = v"
  by (auto simp: clamp01_def f64_consts elim: in_unitE)

lemma clamped_Fin: "clamped (Fin x) = max 0 (min 1 x)"
  by (simp add: clamped_def clamp01_def f64_consts)

lemma clamped_special [simp]: "clamped NaN = 0" "clamped PInf = 1" "clamped NInf = 0"
  by (simp_all add: clamped_def clamp01_def f64_consts)

lemma clamped_unit: "0 \<le> x \<Longrightarrow> x \<le> 1 \<Longrightarrow> clamped (Fin x) = x"
  by (simp add: clamped_Fin)

lemma clamped_mono: "v \<le> w \<Longrightarrow> clamped v \<le> clamped w"
  by (cases v; cases w) (auto simp: clamped_Fin)

text \<open>The age the recency signal decays with, in hours.\<close>

definition age_hours :: "gtime \<Rightarrow> gtime \<Rightarrow> real" where
  "age_hours createdAt now = max 0 (real_of_int (time_sub now createdAt) / 3600000000000)"

lemma recencyFactor_eq:
  "recencyFactor createdAt now = Fin (exp (- 0.693 * age_hours createdAt now / 2160))"
  by (simp add: recencyFactor_def dur_hours_def age_hours_def f64_consts max_def Let_def)

lemma recencyFactor_unit [range_simps]: "in_unit (recencyFactor createdAt now)"
  by (simp add: recencyFactor_eq age_hours_def)

lemma recencyFactor_antimono:
  "createdAt \<le> createdAt' \<Longrightarrow> recencyFactor createdAt now \<le> recencyFactor createdAt' now"
proof -
  assume "createdAt \<le> createdAt'"
  then have "age_hours createdAt' now \<le> age_hours createdAt now"
    using time_sub_mono [of createdAt createdAt' now] by (simp add: age_hours_def max.mono divide_right_mono)
  then show ?thesis by (simp add: recencyFactor_eq)
qed

definition freq :: "int \<Rightarrow> real" where
  "freq n = (if n \<le> 0 then 0 else ln (1 + real_of_int n) / ln (11 + real_of_int n))"

lemma frequencyFactor_eq: "frequencyFactor n = Fin (freq n)"
  by (simp add: frequencyFactor_def freq_def f_of_int_def frequencySaturation_def f64_consts)

lemma freq_bounds: "0 \<le> freq n" "freq n < 1"
  by (auto simp: freq_def divide_less_eq)

lemma frequencyFactor_unit [range_simps]: "in_unit (frequencyFactor n)"
  using freq_bounds [of n] by (simp add: frequencyFactor_eq)

definition prio :: "memory_type \<Rightarrow> real" where "prio t = the_fin (TypePriority t)"

lemma TypePriority_eq: "TypePriority t = Fin (prio t)"
  by (simp add: prio_def TypePriority_def f64_consts)

lemma prio_bounds: "0 \<le> prio t" "prio t \<le> 1"
  by (simp_all add: prio_def TypePriority_def f64_consts)

lemma prio_known:
  "t \<in> {MemoryTypeSemantic, MemoryTypeProcedural, MemoryTypeEpisodic} \<Longrightarrow> 0.9 \<le> prio t"
  by (auto simp: prio_def TypePriority_def)

definition recency :: "memory_ctx \<Rightarrow> gtime \<Rightarrow> real" where
  "recency mem now = exp (- 0.693 * age_hours (m_created (mc_memory mem)) now / 2160)"

lemma recency_bounds: "0 \<le> recency mem now" "recency mem now \<le> 1"
  by (simp_all add: recency_def age_hours_def)

definition base_score :: "memory_ctx \<Rightarrow> gtime \<Rightarrow> real" where
  "base_score mem now =
     3/4 * clamped (mc_relevance mem) + 1/10 * recency mem now +
     1/10 * freq (m_access (mc_memory mem)) + 1/20 * prio (m_type (mc_memory mem))"

lemma base_score_bounds: "0 \<le> base_score mem now" "base_score mem now \<le> 1"
  using clamped_bounds [of "mc_relevance mem"] recency_bounds [of mem now]
    freq_bounds [of "m_access (mc_memory mem)"] prio_bounds [of "m_type (mc_memory mem)"]
  unfolding base_score_def by linarith+

lemma Score_eq: "Score mem now = Fin ((if mc_superseded mem then 0.6 else 1) * base_score mem now)"
  by (simp add: Score_def base_score_def recency_def recencyFactor_eq frequencyFactor_eq
      TypePriority_eq clamp01_eq weight_defs Let_def)

lemma Score_not_nan [simp]: "Score mem now \<noteq> NaN"
  by (simp add: Score_eq)

section \<open>The ranked page\<close>

interpretation rk: sort_less rank_less "\<lambda>r. mc_score r \<noteq> NaN"
proof unfold_locales
  fix a b c :: memory_ctx
  assume n: "mc_score a \<noteq> NaN" "mc_score b \<noteq> NaN" "mc_score c \<noteq> NaN"
  then show "rank_less a b \<Longrightarrow> \<not> rank_less b a"
    by (auto simp: rank_less_def feq_def dest: f64_less_asym split: if_splits)
  show "\<not> rank_less b a \<Longrightarrow> \<not> rank_less c b \<Longrightarrow> \<not> rank_less c a"
    using n by (cases "mc_score a"; cases "mc_score b"; cases "mc_score c")
      (auto simp: rank_less_def feq_def split: if_splits)
qed

lemma rank_less_total:
  "mc_score a \<noteq> NaN \<Longrightarrow> mc_score b \<noteq> NaN \<Longrightarrow> m_id (mc_memory a) \<noteq> m_id (mc_memory b) \<Longrightarrow>
     rank_less a b \<or> rank_less b a"
  by (cases "mc_score a"; cases "mc_score b") (auto simp: rank_less_def feq_def)

definition scored :: "gtime \<Rightarrow> memory_ctx \<Rightarrow> memory_ctx" where
  "scored now r = r\<lparr>mc_score := Score r now\<rparr>"

lemma scored_simps [simp]: "mc_memory (scored now r) = mc_memory r" "mc_score (scored now r) = Score r now"
  by (simp_all add: scored_def)

lemma RankResultsAt_take:
  "RankResultsAt rs k now =
     take (if 0 < k then nat k else length rs) (sort_stable rank_less (map (scored now) rs))"
  by (auto simp: RankResultsAt_def Let_def scored_def [abs_def] intro!: arg_cong2 [where f = take])

lemma scored_ok: "\<forall>y \<in> set (map (scored now) rs). mc_score y \<noteq> NaN"
  by auto

section \<open>Properties of the score\<close>

text \<open>
  The composite score is a number between 0 and 1 for every memory, clock, access count, type
  string and retrieval relevance, including a relevance that is NaN or infinite.
\<close>

lemma Score_in_unit: "in_unit (Score mem now)"
  using base_score_bounds [of mem now] by (simp add: Score_eq)

text \<open>
  Relevance dominates.  Between two memories of the same supersession state whose types are
  the three known ones, a relevance gap above (0.10 + 0.10 + 0.05 * 0.10) / 0.75 decides the
  order, whatever the ages and access counts; between two that differ in their type only, a gap
  above 0.05 * 0.10 / 0.75 is enough, so type priority breaks ties alone.
\<close>

lemma Score_relevance_dominates:
  fixes a b :: memory_ctx
  assumes types: "m_type (mc_memory a) \<in> {MemoryTypeSemantic, MemoryTypeProcedural, MemoryTypeEpisodic}"
      "m_type (mc_memory b) \<in> {MemoryTypeSemantic, MemoryTypeProcedural, MemoryTypeEpisodic}"
    and sup: "mc_superseded a = mc_superseded b"
    and gap: "clamped (mc_relevance a) - clamped (mc_relevance b) > 0.205 / 0.75 \<or>
      m_created (mc_memory a) = m_created (mc_memory b) \<and>
      m_access (mc_memory a) = m_access (mc_memory b) \<and>
      clamped (mc_relevance a) - clamped (mc_relevance b) > 0.005 / 0.75"
  shows "Score a now > Score b now"
proof -
  have p: "prio (m_type (mc_memory b)) - prio (m_type (mc_memory a)) \<le> 0.1"
    using prio_known [OF types(1)] prio_bounds(2) [of "m_type (mc_memory b)"] by simp
  have same: "m_created (mc_memory a) = m_created (mc_memory b) \<Longrightarrow> recency a now = recency b now"
    by (simp add: recency_def)
  have "base_score b now < base_score a now"
    using gap
  proof
    assume "clamped (mc_relevance a) - clamped (mc_relevance b) > 0.205 / 0.75"
    then have "clamped (mc_relevance a) - clamped (mc_relevance b) > 41 / 150" by simp
    then show ?thesis
      using p recency_bounds [of a now] recency_bounds [of b now]
        freq_bounds [of "m_access (mc_memory a)"] freq_bounds [of "m_access (mc_memory b)"]
      unfolding base_score_def by linarith
  qed (use p same in \<open>auto simp: base_score_def\<close>)
  then show ?thesis using sup by (simp add: Score_eq)
qed

definition sample_memory :: "uuid \<Rightarrow> memory_type \<Rightarrow> string \<Rightarrow> memory" where
  "sample_memory i t c = \<lparr>m_id = i, m_content = c, m_type = t, m_project = ''p'', m_tags = [],
     m_created = 0, m_access = 0, m_decay = 1\<rparr>"

definition sample_ctx :: "uuid \<Rightarrow> memory_type \<Rightarrow> f64 \<Rightarrow> bool \<Rightarrow> memory_ctx" where
  "sample_ctx i t r old = \<lparr>mc_memory = sample_memory i t ''x'', mc_context = [], mc_relevance = r,
     mc_score = 0, mc_superseded = old\<rparr>"

lemmas sample_defs = sample_memory_def sample_ctx_def memory_type_defs

section \<open>Properties of the ranked page\<close>

text \<open>
  The ranked page.  It is the scored candidates, none invented and none repeated beyond its
  multiplicity; it has \<open>min topK n\<close> entries (all of them when \<open>topK\<close> is not positive); it is in
  descending score with ties in ascending order of the identifier's bytes; and no candidate left
  off the page beats one on it.
\<close>

lemma RankResultsAt_page:
  defines "beats \<equiv> \<lambda>a b. mc_score b < mc_score a \<or>
      mc_score a = mc_score b \<and> m_id (mc_memory a) < m_id (mc_memory b)"
  shows "\<exists>rest. mset (RankResultsAt rs k now) + mset rest =
           mset (map (\<lambda>r. r\<lparr>mc_score := Score r now\<rparr>) rs) \<and>
         length (RankResultsAt rs k now) = (if 0 < k then min (nat k) (length rs) else length rs) \<and>
         sorted_wrt (\<lambda>a b. \<not> beats b a) (RankResultsAt rs k now) \<and>
         list_all (\<lambda>a. list_all (\<lambda>b. \<not> beats b a) rest) (RankResultsAt rs k now)"
proof -
  let ?ys = "map (scored now) rs"
  let ?s = "sort_stable rank_less ?ys"
  let ?n = "if 0 < k then nat k else length rs"
  have beats: "beats a b = rank_less a b" if "a \<in> set ?ys" "b \<in> set ?ys" for a b
    using that by (cases "mc_score a"; cases "mc_score b") (auto simp: beats_def rank_less_def feq_def)
  have page: "RankResultsAt rs k now = take ?n ?s" by (rule RankResultsAt_take)
  have "mset (take ?n ?s) + mset (drop ?n ?s) = mset ?ys"
    by (metis append_take_drop_id mset_append mset_sort_stable)
  moreover have "length (take ?n ?s) = (if 0 < k then min (nat k) (length rs) else length rs)"
    by (simp add: min.commute)
  moreover have in_ys: "x \<in> set ?ys" if "x \<in> set (take ?n ?s) \<or> x \<in> set (drop ?n ?s)" for x
    using that set_sort_stable [of rank_less ?ys] by (metis in_set_dropD in_set_takeD)
  moreover have "sorted_wrt (\<lambda>a b. \<not> rank_less b a) (take ?n ?s)"
    using rk.sorted [OF scored_ok [of now rs]] by (rule sorted_wrt_take)
  then have "sorted_wrt (\<lambda>a b. \<not> beats b a) (take ?n ?s)"
    by (rule sorted_wrt_mono_rel [rotated]) (use beats in_ys in blast)
  moreover have "list_all (\<lambda>a. list_all (\<lambda>b. \<not> beats b a) (drop ?n ?s)) (take ?n ?s)"
    unfolding list_all_iff using rk.take_best [OF scored_ok [of now rs]] beats in_ys by blast
  ultimately show ?thesis unfolding page scored_def [symmetric] by blast
qed

text \<open>
  The page does not depend on the order the candidates arrive in (they are collected from a
  map): two orderings of the same candidates, with distinct identifiers, give the same page.
\<close>

lemma RankResultsAt_order_independent:
  assumes "mset rs = mset rs'" "distinct (map (m_id \<circ> mc_memory) rs)"
  shows "RankResultsAt rs k now = RankResultsAt rs' k now"
proof -
  have "sort_stable rank_less (map (scored now) rs) = sort_stable rank_less (map (scored now) rs')"
  proof (rule rk.order_independent)
    show "mset (map (scored now) rs) = mset (map (scored now) rs')" using assms(1) by simp
    show "\<forall>a \<in> set (map (scored now) rs). \<forall>b \<in> set (map (scored now) rs).
        a \<noteq> b \<longrightarrow> rank_less a b \<or> rank_less b a"
    proof (intro ballI impI)
      fix a b
      assume ab: "a \<in> set (map (scored now) rs)" "b \<in> set (map (scored now) rs)" "a \<noteq> b"
      then obtain r r' where "r \<in> set rs" "a = scored now r" "r' \<in> set rs" "b = scored now r'" by auto
      then show "rank_less a b \<or> rank_less b a"
        using ab(3) assms(2) by (intro rank_less_total) (auto simp: distinct_map inj_on_def)
    qed
  qed (rule scored_ok)
  then show ?thesis using mset_eq_length [OF assms(1)] by (simp add: RankResultsAt_take)
qed

text \<open>
  C19: a superseded memory never stands above a live one on even evidence.  When a memory marked
  superseded and a live candidate would score the same without the mark, or the live one better,
  then wherever the stale memory appears on the page the live one appears before it.
\<close>

theorem RankResultsAt_stale_below:
  assumes "stale \<in> set rs" "live \<in> set rs" "mc_superseded stale" "\<not> mc_superseded live"
    and even: "Score (stale\<lparr>mc_superseded := False\<rparr>) now \<le> Score live now" and pos: "Score live now > 0"
    and page: "RankResultsAt rs k now = xs @ stale\<lparr>mc_score := Score stale now\<rparr> # ys"
  shows "live\<lparr>mc_score := Score live now\<rparr> \<in> set xs"
proof -
  let ?s = "sort_stable rank_less (map (scored now) rs)"
  have "base_score stale now \<le> base_score live now" "0 < base_score live now"
    using even pos assms(3,4) by (simp_all add: Score_eq base_score_def recency_def f64_consts)
  then have beat: "rank_less (scored now live) (scored now stale)"
    using assms(3,4) by (auto simp: rank_less_def Score_eq)
  have "xs @ scored now stale # ys @ drop (if 0 < k then nat k else length rs) ?s = ?s"
    using page unfolding RankResultsAt_take scored_def [symmetric]
    by (metis append_Cons append_assoc append_take_drop_id)
  then obtain zs where s: "?s = xs @ scored now stale # zs" by metis
  have "scored now live \<in> set ?s" using assms(2) by simp
  moreover have "scored now live \<noteq> scored now stale" using beat rk.asym [of "scored now live" "scored now stale"] by auto
  moreover have "scored now live \<notin> set zs"
    using rk.sorted [OF scored_ok [of now rs]] beat unfolding s by (auto simp: sorted_wrt_append)
  ultimately show ?thesis unfolding s by (auto simp: scored_def)
qed

lemma RankResultsAt_stale_below_witness:
  "\<exists>xs ys. RankResultsAt [sample_ctx 1 ''semantic'' 1 True, sample_ctx 2 ''semantic'' 1 False] 0 0 =
      xs @ (sample_ctx 1 ''semantic'' 1 True)\<lparr>mc_score := Score (sample_ctx 1 ''semantic'' 1 True) 0\<rparr> # ys \<and>
    (sample_ctx 2 ''semantic'' 1 False)\<lparr>mc_score := Score (sample_ctx 2 ''semantic'' 1 False) 0\<rparr> \<in> set xs"
proof -
  let ?l = "sample_ctx 2 ''semantic'' 1 False" and ?s = "sample_ctx 1 ''semantic'' 1 True"
  have page: "RankResultsAt [?s, ?l] 0 0 = [?l\<lparr>mc_score := Score ?l 0\<rparr>] @ ?s\<lparr>mc_score := Score ?s 0\<rparr> # []"
    by (simp add: RankResultsAt_take scored_def rank_less_def Score_eq base_score_def recency_def
        sample_defs freq_def prio_def TypePriority_def clamped_Fin one_f64_def age_hours_def time_sub_def
        max_duration_def)
  have "?l\<lparr>mc_score := Score ?l 0\<rparr> \<in> set [?l\<lparr>mc_score := Score ?l 0\<rparr>]"
    by (rule RankResultsAt_stale_below [OF _ _ _ _ _ _ page])
      (simp_all add: Score_eq base_score_def recency_def sample_defs freq_def prio_def
        TypePriority_def clamped_Fin f64_consts add_pos_nonneg)
  then show ?thesis using page by blast
qed

section \<open>Properties of the relevance signals\<close>

lemma clamped_clamp01 [simp]: "clamped (clamp01 v) = clamped v" "clamped (Fin (clamped v)) = clamped v"
  by (simp_all add: clamp01_eq clamped_unit)

lemma agreement_bounds:
  assumes "0 \<le> s" "s \<le> 1" "0 \<le> w" "w \<le> (1::real)"
  shows "s \<le> s + 1/4 * w * (1 - s)" "s + 1/4 * w * (1 - s) \<le> 1"
proof -
  have "w * (1 - s) \<le> 1 - s" "0 \<le> w * (1 - s)" using assms by (simp_all add: mult_left_le_one_le)
  then show "s \<le> s + 1/4 * w * (1 - s)" "s + 1/4 * w * (1 - s) \<le> 1"
    using assms by (simp_all add: mult.assoc)
qed

lemma CombineRelevance_eq:
  "CombineRelevance a b = Fin (max (clamped a) (clamped b) +
     1/4 * min (clamped a) (clamped b) * (1 - max (clamped a) (clamped b)))"
proof -
  let ?M = "max (clamped a) (clamped b)" and ?m = "min (clamped a) (clamped b)"
  have "CombineRelevance a b = clamp01 (Fin (?M + 1/4 * ?m * (1 - ?M)))"
    by (simp add: CombineRelevance_def Let_def clamp01_eq [of a] clamp01_eq [of b] weight_defs
        f64_consts max_def min_def)
  moreover have "in_unit (Fin (?M + 1/4 * ?m * (1 - ?M)))"
    using agreement_bounds [of ?M ?m] by (auto simp: max_def min_def)
  ultimately show ?thesis by (simp add: clamp01_fixed)
qed

lemma CombineRelevance_bounds:
  "in_unit (CombineRelevance a b)" "clamped a \<le> clamped (CombineRelevance a b)"
  "clamped b \<le> clamped (CombineRelevance a b)" "CombineRelevance a b = CombineRelevance b a"
proof -
  let ?M = "max (clamped a) (clamped b)" and ?m = "min (clamped a) (clamped b)"
  have b: "?M \<le> ?M + 1/4 * ?m * (1 - ?M)" "?M + 1/4 * ?m * (1 - ?M) \<le> 1" "0 \<le> ?M"
    using agreement_bounds [of ?M ?m] by (auto simp: max_def min_def)
  then show "in_unit (CombineRelevance a b)" unfolding CombineRelevance_eq by simp
  have "clamped (CombineRelevance a b) = ?M + 1/4 * ?m * (1 - ?M)"
    unfolding CombineRelevance_eq using b by (intro clamped_unit) auto
  then have "?M \<le> clamped (CombineRelevance a b)" using b(1) by linarith
  then show "clamped a \<le> clamped (CombineRelevance a b)" "clamped b \<le> clamped (CombineRelevance a b)"
    by auto
  show "CombineRelevance a b = CombineRelevance b a" by (simp add: CombineRelevance_eq max.commute min.commute)
qed

text \<open>
  Agreement between the retrievers never lowers a memory, never leaves the scale, and does
  not depend on which retriever is named first; and the tiers order what they claim to order: a
  memory that matches the query lexically is above every memory that does not, whatever the two
  cosine similarities, and with no keywords similarity alone decides.
\<close>

lemma RelevanceTier_ordered:
  shows "(in_unit (RelevanceTier lexical cosine has)) \<and>
      (clamped lexical > 0 \<and> clamped lexical' = 0 \<longrightarrow>
           RelevanceTier lexical cosine True > RelevanceTier lexical' cosine' True) \<and>
      (RelevanceTier lexical cosine False = clamp01 cosine) \<and>
      (max (clamped cosine) (clamped lexical) \<le> clamped (CombineRelevance lexical cosine))"
proof (rule conjI4)
  have hit: "RelevanceTier l c True = Fin (1/2 + 1/2 * clamped (CombineRelevance l c))"
    if "clamped l > 0" for l c
  proof -
    have eq: "CombineRelevance (clamp01 l) (clamp01 c) = Fin (clamped (CombineRelevance l c))"
      using CombineRelevance_bounds(1) [of l c]
      by (simp add: CombineRelevance_eq clamped_unit)
    have "clamped (Fin (1/2 + 1/2 * clamped (CombineRelevance l c))) =
        1/2 + 1/2 * clamped (CombineRelevance l c)"
      using clamped_bounds [of "CombineRelevance l c"] by (intro clamped_unit) linarith+
    then show ?thesis
      using that unfolding RelevanceTier_def Let_def eq by (simp add: clamp01_eq f64_consts)
  qed
  have miss: "RelevanceTier l c True = Fin (0.499 * clamped c)" if "clamped l = 0" for l c
    using that by (simp add: RelevanceTier_def Let_def clamp01_eq f64_consts)
  show none: "RelevanceTier lexical cosine False = clamp01 cosine"
    by (simp add: RelevanceTier_def Let_def)
  have "499/1000 * clamped cosine \<le> 1" "1/2 + clamped (CombineRelevance lexical cosine) / 2 \<le> 1"
    using clamped_bounds(2) [of cosine] clamped_bounds(2) [of "CombineRelevance lexical cosine"] by linarith+
  moreover have "clamped lexical = 0 \<or> clamped lexical > 0" using clamped_bounds(1) [of lexical] by linarith
  ultimately show "in_unit (RelevanceTier lexical cosine has)"
    using hit [of lexical cosine] miss [of lexical cosine] none by (cases has) auto
  have "499 * clamped cosine' < 500 + 500 * clamped (CombineRelevance lexical cosine)"
    using clamped_bounds(1) [of "CombineRelevance lexical cosine"] clamped_bounds(2) [of cosine'] by linarith
  then show "clamped lexical > 0 \<and> clamped lexical' = 0 \<longrightarrow>
      RelevanceTier lexical cosine True > RelevanceTier lexical' cosine' True"
    using hit [of lexical cosine] miss [of lexical' cosine'] by auto
  show "max (clamped cosine) (clamped lexical) \<le> clamped (CombineRelevance lexical cosine)"
    using CombineRelevance_bounds(2,3) [where a = lexical and b = cosine] by simp
qed

lemma distinct_entities_props:
  "distinct (distinct_entities qs)" "set (distinct_entities qs) = {q \<in> set qs. q \<noteq> []}"
  using first_by_distinct [of "\<lambda>q. q" "\<lambda>q. q = []" "{}" qs] first_by_key_set [of "\<lambda>q. q" "\<lambda>q. q = []" "{}" qs]
  by (auto simp: distinct_entities_def)

lemma length_distinct_entities: "length (distinct_entities qs) = card {q \<in> set qs. q \<noteq> []}"
  using distinct_card [OF distinct_entities_props(1) [of qs]] by (simp add: distinct_entities_props(2))

text \<open>
  Counting in the database and counting in the process agree.  When the database reports how
  many distinct query entities a memory names, \<open>EntityOverlapCount\<close> is \<open>EntityOverlap\<close> on the
  memory's entity list: both are |named \<inter> asked| / |asked| over the distinct non-empty names, in
  the unit interval, and a count above the number asked is capped.
\<close>

lemma EntityOverlapCount_agrees:
  shows "(EntityOverlapCount (int (card {q \<in> set qs. q \<noteq> [] \<and> q \<in> set ms})) qs = EntityOverlap ms qs) \<and>
      (in_unit (EntityOverlap ms qs)) \<and>
      (in_unit (EntityOverlapCount n qs)) \<and>
      (EntityOverlap ms qs = (if {q \<in> set qs. q \<noteq> []} = {} then 0 else
           Fin (real (card {q \<in> set qs. q \<noteq> [] \<and> q \<in> set ms}) / real (card {q \<in> set qs. q \<noteq> []}))))"
proof (rule conjI4)
  let ?a = "{q \<in> set qs. q \<noteq> []}" and ?m = "{q \<in> set qs. q \<noteq> [] \<and> q \<in> set ms}"
  have m: "length (filter (\<lambda>q. q \<in> set ms) (distinct_entities qs)) = card ?m"
  proof -
    have "set (filter (\<lambda>q. q \<in> set ms) (distinct_entities qs)) = ?m"
      by (auto simp: distinct_entities_props(2))
    then show ?thesis using distinct_card distinct_filter distinct_entities_props(1) by metis
  qed
  have le: "card ?m \<le> card ?a" by (rule card_mono) auto
  have z: "card ?a = 0 \<longleftrightarrow> ?a = {}" by simp
  have e: "distinct_entities qs = [] \<longleftrightarrow> ?a = {}"
    using length_distinct_entities [of qs] z by (metis length_0_conv)
  have e0: "?a = {} \<Longrightarrow> card ?m = 0" "ms = [] \<Longrightarrow> card ?m = 0" "qs = [] \<Longrightarrow> ?a = {}" using le z by auto
  show eq: "EntityOverlap ms qs = (if ?a = {} then 0 else Fin (real (card ?m) / real (card ?a)))"
    using e e0 z by (cases "?a = {}"; cases "ms = []"; cases "qs = []")
      (simp_all add: EntityOverlap_def Let_def m length_distinct_entities f_of_nat_def f64_consts)
  show "EntityOverlapCount (int (card ?m)) qs = EntityOverlap ms qs"
    unfolding eq EntityOverlapCount_def Let_def length_distinct_entities
    using le z by (auto simp: f_of_int_def f_of_nat_def f64_consts)
  show "in_unit (EntityOverlap ms qs)"
    unfolding eq using le z by (auto simp: f64_consts divide_le_eq)
  show "in_unit (EntityOverlapCount n qs)"
    unfolding EntityOverlapCount_def Let_def length_distinct_entities
    by (auto simp: f_of_int_def f_of_nat_def f64_consts divide_le_eq)
qed

section \<open>Properties of the keyword score and the fusion\<close>

definition midpoint :: "int \<Rightarrow> real" where "midpoint n = real_of_int n / 25"

lemma logistic_unit: "0 \<le> 1 / (1 + exp (x::real))" "1 / (1 + exp x) \<le> 1" "1 + exp x \<noteq> 0"
  using exp_gt_zero [of x] by (simp_all add: divide_le_eq add_nonneg_nonneg del: exp_gt_zero)

lemma NormalizeBM25_pos:
  assumes "0 < r" "0 < n"
  shows "NormalizeBM25 (Fin r) n = Fin (1 / (1 + exp (- (2.3 / midpoint n) * (r - midpoint n))))"
proof -
  let ?e = "exp (- (2.3 / midpoint n) * (r - midpoint n))"
  have m: "bm25RankPerTerm * f_of_int n * bm25MidpointCoverage = Fin (midpoint n)" "midpoint n \<noteq> 0"
    using assms(2) by (simp_all add: weight_defs f_of_int_def midpoint_def)
  have "clamp01 (Fin (1 / (1 + ?e))) = Fin (1 / (1 + ?e))"
    using logistic_unit by (intro clamp01_fixed) simp
  moreover have "1 / (1 + math_exp (- (bm25SteepnessScale / Fin (midpoint n)) * (Fin r - Fin (midpoint n)))) =
      Fin (1 / (1 + ?e))"
    using m(2) logistic_unit(3) by (simp add: f64_consts bm25SteepnessScale_def del: minus_divide_left)
  ultimately show ?thesis
    unfolding NormalizeBM25_def m Let_def using assms by (simp add: f64_consts)
qed

lemma NormalizeBM25_zero:
  "is_nan raw \<or> raw \<le> 0 \<or> n \<le> 0 \<Longrightarrow> NormalizeBM25 raw n = 0"
  by (simp add: NormalizeBM25_def)

lemma NormalizeBM25_PInf: "0 < n \<Longrightarrow> NormalizeBM25 PInf n = 1"
  by (simp add: NormalizeBM25_def Let_def weight_defs f_of_int_def f64_consts clamp01_def minus_f64_def
      divide_f64_def)

lemma logistic_mono: "0 < k \<Longrightarrow> r < r' \<Longrightarrow> 1 / (1 + exp (- k * (r - m))) < 1 / (1 + exp (- k * (r' - m :: real)))"
  by (intro divide_strict_left_mono) (auto simp: add_pos_pos)

text \<open>
  The keyword score is normalised, not re-ranked.  For every raw score and query length the
  result is in the unit interval; a raw score that is NaN or not positive, or a query without
  terms, gives 0; on positive scores of one query the map is strictly increasing, so the order
  within the signal is kept; a match covering 40% of the query scores exactly one half; and
  scores that cover the same share of their queries are graded alike whatever the lengths.
\<close>

lemma NormalizeBM25_normalises:
  shows "(in_unit (NormalizeBM25 raw n)) \<and>
      (is_nan raw \<or> raw \<le> 0 \<or> n \<le> 0 \<longrightarrow> NormalizeBM25 raw n = 0) \<and>
      (0 < r \<and> r < r' \<and> 0 < n \<longrightarrow> NormalizeBM25 (Fin r) n < NormalizeBM25 (Fin r') n) \<and>
      (0 < n \<longrightarrow> NormalizeBM25 (Fin (0.4 * (0.1 * real_of_int n))) n = Fin (1 / 2)) \<and>
      (0 < n \<and> 0 < n' \<and> 0 < s \<longrightarrow>
      NormalizeBM25 (Fin (s * (0.1 * real_of_int n))) n = NormalizeBM25 (Fin (s * (0.1 * real_of_int n'))) n')"
proof (rule conjI5)
  show z: "is_nan raw \<or> raw \<le> 0 \<or> n \<le> 0 \<longrightarrow> NormalizeBM25 raw n = 0" for raw n
    by (simp add: NormalizeBM25_zero)
  have "raw = PInf \<or> (\<exists>r > 0. raw = Fin r) \<or> is_nan raw \<or> raw \<le> 0"
    by (cases raw) (auto simp: f64_consts not_le)
  then show "in_unit (NormalizeBM25 raw n)"
    using z [of raw n] NormalizeBM25_PInf [of n] NormalizeBM25_pos [of _ n]
    by (cases "0 < n") (auto simp: f64_consts logistic_unit simp del: minus_mult_left)
  show "0 < r \<and> r < r' \<and> 0 < n \<longrightarrow> NormalizeBM25 (Fin r) n < NormalizeBM25 (Fin r') n"
    using logistic_mono [of "2.3 / midpoint n" r r' "midpoint n"]
    by (auto simp: NormalizeBM25_pos midpoint_def)
  have share: "NormalizeBM25 (Fin (s * (0.1 * real_of_int n))) n = Fin (1 / (1 + exp (- 5.75 * (s - 0.4))))"
    if "0 < n" "0 < s" for n s
  proof -
    have "- (2.3 / midpoint n) * (s * (0.1 * real_of_int n) - midpoint n) = - 5.75 * (s - 0.4)"
      using that by (simp add: midpoint_def field_simps)
    then show ?thesis using that by (subst NormalizeBM25_pos) auto
  qed
  show "0 < n \<longrightarrow> NormalizeBM25 (Fin (0.4 * (0.1 * real_of_int n))) n = Fin (1 / 2)"
    using share [of n "0.4"] by auto
  show "0 < n \<and> 0 < n' \<and> 0 < s \<longrightarrow>
      NormalizeBM25 (Fin (s * (0.1 * real_of_int n))) n = NormalizeBM25 (Fin (s * (0.1 * real_of_int n'))) n'"
    using share by auto
qed

text \<open>
  A memory that matches every term of its query once normalises above 0.96, for every query
  length; the comment on \<open>bm25SteepnessScale\<close> says about 0.8.
\<close>

lemma NormalizeBM25_full_match:
  assumes "0 < n"
  shows "NormalizeBM25 (FullMatchScore (Fin (real_of_int n))) n > Fin 0.96"
proof -
  have full: "FullMatchScore (Fin (real_of_int n)) = Fin (0.1 * real_of_int n)"
    using assms by (simp add: FullMatchScore_def f64_consts weight_defs)
  have arg: "- (2.3 / midpoint n) * (0.1 * real_of_int n - midpoint n) = - 3.45"
    using assms by (simp add: midpoint_def field_simps)
  have "1 + 0.8625 + 0.8625 ^ 2 / 2 \<le> exp (0.8625 :: real)" by (rule exp_lower_Taylor_quadratic) simp
  then have "2.23 ^ 4 < exp (0.8625 :: real) ^ 4" by (intro power_strict_mono) (auto simp: power2_eq_square)
  also have "\<dots> = exp 3.45" by (simp flip: exp_of_nat_mult)
  finally have "24 < exp (3.45 :: real)" by (simp add: eval_nat_numeral)
  then have "exp (- 3.45 :: real) < 1 / 24" by (simp add: exp_minus field_simps)
  then have "0.96 < 1 / (1 + exp (- 3.45 :: real))" by (simp add: less_divide_eq add_pos_pos)
  moreover have "NormalizeBM25 (Fin (0.1 * real_of_int n)) n = Fin (1 / (1 + exp (- 3.45)))"
    using assms NormalizeBM25_pos [of "0.1 * real_of_int n" n] unfolding arg by simp
  ultimately show ?thesis unfolding full by (simp only: less_f64.simps)
qed

lemma FuseWeighted_eq:
  assumes "0 \<le> wk" "0 \<le> ws" "0 \<le> we" "0 < wk + ws + we"
  shows "FuseWeighted k s e (Fin wk) (Fin ws) (Fin we) =
    Fin ((wk * clamped k + ws * clamped s + we * clamped e) / (wk + ws + we))"
proof -
  have "0 \<le> wk * clamped k + ws * clamped s + we * clamped e"
    "wk * clamped k + ws * clamped s + we * clamped e \<le> wk + ws + we"
    using convex3_unit [of "clamped k" "clamped s" "clamped e" wk ws we] assms by simp_all
  then show ?thesis
    using assms by (simp add: FuseWeighted_def Let_def clamp01_eq f64_consts clamped_unit)
qed

text \<open>
  Fusion is bounded for every signal and every weight, NaN and infinite ones included; with
  non-negative weights, not all zero, it is the weighted mean of the clamped signals, so raising
  any one of the signals never lowers the result.
\<close>

lemma FuseWeighted_weighted_mean:
  shows "(in_unit (FuseWeighted k s e wk ws we)) \<and>
      (0 \<le> a \<and> 0 \<le> b \<and> 0 \<le> c \<and> 0 < a + b + c \<longrightarrow>
      FuseWeighted k s e (Fin a) (Fin b) (Fin c) =
        Fin ((a * clamped k + b * clamped s + c * clamped e) / (a + b + c))) \<and>
      (0 \<le> a \<and> 0 \<le> b \<and> 0 \<le> c \<and> 0 < a + b + c \<and> k \<le> k' \<and> s \<le> s' \<and> e \<le> e' \<longrightarrow>
      FuseWeighted k s e (Fin a) (Fin b) (Fin c) \<le> FuseWeighted k' s' e' (Fin a) (Fin b) (Fin c))"
proof (rule conjI3)
  show "in_unit (FuseWeighted k s e wk ws we)"
    by (simp add: FuseWeighted_def Let_def f64_consts)
  show "0 \<le> a \<and> 0 \<le> b \<and> 0 \<le> c \<and> 0 < a + b + c \<longrightarrow>
      FuseWeighted k s e (Fin a) (Fin b) (Fin c) =
        Fin ((a * clamped k + b * clamped s + c * clamped e) / (a + b + c))"
    by (simp add: FuseWeighted_eq)
  show "0 \<le> a \<and> 0 \<le> b \<and> 0 \<le> c \<and> 0 < a + b + c \<and> k \<le> k' \<and> s \<le> s' \<and> e \<le> e' \<longrightarrow>
      FuseWeighted k s e (Fin a) (Fin b) (Fin c) \<le> FuseWeighted k' s' e' (Fin a) (Fin b) (Fin c)"
    by (auto simp: FuseWeighted_eq intro!: divide_right_mono add_mono mult_left_mono clamped_mono)
qed

lemma FuseRelevance_eq:
  "FuseRelevance k s e = Fin (0.45 * clamped k + 0.40 * clamped s + 0.15 * clamped e)"
  by (simp add: FuseRelevance_def weight_defs FuseWeighted_eq)

text \<open>
  With the production weights the best lexical match (keyword signal 1) always beats a memory
  with neither lexical nor entity evidence, whatever the cosine similarities; but not one that
  names the query's entity: full semantic and entity evidence without any lexical evidence
  outranks a bare best lexical match.
\<close>

lemma FuseRelevance_keyword_best:
  shows "(clamped k = 1 \<and> clamped k' = 0 \<and> clamped e' = 0 \<longrightarrow> FuseRelevance k' s' e' < FuseRelevance k s e) \<and>
      (FuseRelevance 1 0 0 < FuseRelevance 0 1 1)"
proof (rule conjI)
  have "40 * clamped s' < 45 + (40 * clamped s + 15 * clamped e)"
    using clamped_bounds [of s'] clamped_bounds [of s] clamped_bounds [of e] by linarith
  then show "clamped k = 1 \<and> clamped k' = 0 \<and> clamped e' = 0 \<longrightarrow> FuseRelevance k' s' e' < FuseRelevance k s e"
    by (auto simp: FuseRelevance_eq)
  show "FuseRelevance 1 0 0 < FuseRelevance 0 1 1"
    by (simp add: FuseRelevance_eq f64_consts clamped_Fin)
qed

section \<open>Bounds the callers use\<close>

lemma LexicalRelevance_unit: "in_unit (LexicalRelevance content tags keywords)"
  by (simp add: LexicalRelevance_def Let_def)

lemma EntityRelevance_le: "EntityRelevance v \<le> Fin 0.5"
proof -
  have "clamped v / 2 \<le> 1" using clamped_bounds(2) [of v] by linarith
  then have "clamped (Fin (clamped v / 2)) = clamped v / 2" by (intro clamped_unit) simp_all
  then show ?thesis
    by (simp add: EntityRelevance_def weight_defs clamp01_eq [of v]) (simp add: clamp01_eq)
qed

lemma ApplyEntityBoost_bounds: "in_unit (ApplyEntityBoost r v)" "clamp01 r \<le> ApplyEntityBoost r v"
proof -
  have "clamp01 r \<le> clamp01 (clamp01 r + entityBoost * clamp01 v)"
    using clamped_mono [of "clamp01 r" "clamp01 r + entityBoost * clamp01 v"]
    by (simp add: clamp01_eq weight_defs)
  then show "clamp01 r \<le> ApplyEntityBoost r v" by (simp add: ApplyEntityBoost_def)
qed (simp add: ApplyEntityBoost_def)

lemma MinMax_unit: "in_unit (MinMax v lo hi)"
  by (simp add: MinMax_def f64_consts)

lemma RRF_antimono:
  "0 < i \<Longrightarrow> i \<le> j \<Longrightarrow> 0 \<le> k \<Longrightarrow> 0 \<le> w \<Longrightarrow> RRF j (Fin k) (Fin w) \<le> RRF i (Fin k) (Fin w)"
  by (simp add: RRF_def f_of_int_def frac_le)

text \<open>
  The best lexical match alone is outranked by a candidate with no lexical evidence that the other
  two signals both grade 1.
\<close>

lemma FuseRelevance_outranks_best_lexical: "FuseRelevance 1 0 0 < FuseRelevance 0 1 1"
  by (simp add: FuseRelevance_def FuseWeighted_def weight_defs f64_consts clamp01_def)

lemma frequencyFactor_at_saturation: "frequencyFactor 10 > Fin 0.7"
proof -
  have "7 * ln (21 :: real) = ln (21 ^ 7)" "10 * ln (11 :: real) = ln (11 ^ 10)"
    by (simp_all only: ln_realpow)
  moreover have "ln (21 ^ 7 :: real) < ln (11 ^ 10)" by (subst ln_less_cancel_iff) simp_all
  ultimately have "7 * ln (21 :: real) < 10 * ln 11" by linarith
  moreover have "0 < ln (21 :: real)" by simp
  ultimately show ?thesis
    by (simp add: frequencyFactor_def frequencySaturation_def f_of_int_def f64_consts field_simps)
qed

end
