(* ===== verification/Contradiction.thy ===== *)
theory Contradiction
  imports Ranking
begin

text \<open>
  \<^verbatim>\<open>internal/extraction/contradiction.go\<close>: the four strategies that decide whether a new fact
  conflicts with a stored one, in the order the code tries them.  Sets of words are sets here: the
  code builds maps and only tests membership and counts.
\<close>

definition replacementSignals :: "string list" where
  "replacementSignals =
     [''switched to'', ''migrated to'', ''changed to'', ''moved to'', ''replaced'', ''no longer'',
      ''instead of'', ''not anymore'', ''updated to'', ''upgraded to'', ''downgraded to'']"

definition negationWords :: "string list" where
  "negationWords =
     [''not'', ''no'', ''never'', ''longer'', ''don't'', ''doesn't'', ''didn't'', ''isn't'',
      ''aren't'', ''wasn't'', ''weren't'', ''cannot'', ''can't'', ''won't'', ''does'', ''do'',
      ''did'']"

definition negationPatterns :: "string list" where
  "negationPatterns =
     [''not '', ''don't '', ''doesn't '', ''no longer '', ''never '', ''isn't '', ''aren't '',
      ''wasn't '']"

definition stopWords :: "string list" where
  "stopWords =
     [''a'', ''an'', ''the'', ''is'', ''are'', ''was'', ''were'', ''be'', ''been'', ''it'',
      ''its'', ''this'', ''that'', ''of'', ''in'', ''on'', ''at'', ''to'', ''for'', ''with'',
      ''by'', ''from'', ''as'', ''and'', ''but'', ''or'', ''we'', ''our'', ''my'', ''i'', ''you'',
      ''your'', ''they'']"

definition subjectStop :: "string list" where
  "subjectStop =
     [''the'', ''a'', ''an'', ''our'', ''my'', ''this'', ''we'', ''i'']"

definition tripleVerbs :: "string list" where
  "tripleVerbs =
     ['' uses '', '' is '', '' runs '', '' has '', '' prefers '', '' requires '', '' supports '',
      '' includes '', '' contains '', '' speaks '', '' lives in '', '' works at '',
      '' works for '', '' costs '', '' weighs '', '' measures '', '' takes '']"

definition word_cutset :: string where
  "word_cutset = ''.,;:!?'' @ [dquote, squote] @ ''()-''"

record contradiction =
  c_new :: memory
  c_old :: memory
  c_reason :: string
  c_confidence :: f64

record triple =
  t_subject :: string
  t_verb :: string
  t_object :: string

section \<open>Words and overlaps\<close>

definition significantWords :: "string \<Rightarrow> string set" where
  "significantWords text =
     set (filter (\<lambda>w. length w > 1 \<and> w \<notin> set stopWords) (map (\<lambda>w. trim w word_cutset) (str_fields text)))"

definition keywordOverlap :: "string \<Rightarrow> string \<Rightarrow> f64" where
  "keywordOverlap a b =
     (let aWords = significantWords a; bWords = significantWords b in
      if aWords = {} \<or> bWords = {} then 0
      else
        let intersection = card (aWords \<inter> bWords);
            union = card aWords + card bWords - intersection
        in if union = 0 then 0 else f_of_nat intersection / f_of_nat union)"

definition stripNegationWords :: "string \<Rightarrow> string" where
  "stripNegationWords text =
     join '' '' (filter (\<lambda>w. trim w word_cutset \<notin> set negationWords) (str_fields text))"

definition tagOverlapRatio :: "string list \<Rightarrow> string list \<Rightarrow> f64" where
  "tagOverlapRatio a b =
     (let setA = set (map to_lower a);
          overlap = length (filter (\<lambda>t. to_lower t \<in> setA) b);
          smaller = min (length a) (length b)
      in if smaller = 0 then 0 else f_of_nat overlap / f_of_nat smaller)"

definition lastWords :: "string \<Rightarrow> nat \<Rightarrow> string" where
  "lastWords s n =
     (let meaningful = filter (\<lambda>w. w \<notin> set subjectStop \<and> length w > 1)
                         (map (\<lambda>w. trim w word_cutset) (str_fields s))
      in if length meaningful = 0 then []
         else if length meaningful \<le> n then join '' '' meaningful
         else join '' '' (drop (length meaningful - n) meaningful))"

text \<open>The loop stops as soon as \<open>n\<close> words are collected; the code calls it with \<open>n = 3\<close>.\<close>

definition firstWords :: "string \<Rightarrow> nat \<Rightarrow> string" where
  "firstWords s n =
     join '' '' (take (max 1 n) (filter (\<lambda>w. length w > 1) (map (\<lambda>w. trim w word_cutset) (str_fields s))))"

definition refines :: "string \<Rightarrow> string \<Rightarrow> bool" where
  "refines a b =
     (let aw = str_fields a; bw = str_fields b in
      if length aw = 0 \<or> length bw = 0 then False
      else let (aw, bw) = (if length aw > length bw then (bw, aw) else (aw, bw))
           in list_all2 (=) aw (take (length aw) bw))"

section \<open>Triples\<close>

definition extractTriple :: "string \<Rightarrow> string \<Rightarrow> triple option" where
  "extractTriple text verb =
     (case index_of text verb of
        None \<Rightarrow> None
      | Some idx \<Rightarrow>
          let subjectPart = trim_space (take idx text);
              objectPart = trim_space (drop (idx + length verb) text);
              subject = lastWords subjectPart 3;
              object = firstWords objectPart 3
          in if subject \<noteq> [] \<and> object \<noteq> []
             then Some \<lparr>t_subject = subject, t_verb = trim_space verb, t_object = object\<rparr>
             else None)"

definition extractTriples :: "string \<Rightarrow> triple list" where
  "extractTriples text = List.map_filter (extractTriple text) tripleVerbs"

section \<open>Detection\<close>

definition replaced_by_signal :: "memory \<Rightarrow> memory \<Rightarrow> string \<Rightarrow> bool" where
  "replaced_by_signal newMem oldMem signal =
     (let newLower = to_lower (m_content newMem); oldLower = to_lower (m_content oldMem) in
      contains newLower signal \<and>
      (keywordOverlap newLower oldLower \<ge> Fin 0.15 \<or>
       tagOverlapRatio (m_tags newMem) (m_tags oldMem) \<ge> Fin 0.3))"

definition diverges :: "triple \<times> triple \<Rightarrow> bool" where
  "diverges = (\<lambda>(nt, ot). t_subject nt = t_subject ot \<and> t_verb nt = t_verb ot \<and>
     t_object nt \<noteq> t_object ot \<and> \<not> refines (t_object nt) (t_object ot))"

definition detectPair :: "memory \<Rightarrow> memory \<Rightarrow> contradiction option" where
  "detectPair newMem oldMem =
     (let newLower = to_lower (m_content newMem);
          oldLower = to_lower (m_content oldMem);
          found = (\<lambda>reason conf. Some \<lparr>c_new = newMem, c_old = oldMem, c_reason = reason, c_confidence = conf\<rparr>)
      in case find (replaced_by_signal newMem oldMem) replacementSignals of
           Some signal \<Rightarrow> found (''replacement signal: '' @ signal) (Fin 0.9)
         | None \<Rightarrow>
       (case find diverges (List.product (extractTriples newLower) (extractTriples oldLower)) of
           Some (nt, ot) \<Rightarrow>
             found (t_subject nt @ '' '' @ t_verb nt @ '': '' @ t_object nt @ '' vs '' @ t_object ot) (Fin 0.85)
         | None \<Rightarrow>
             let overlap = keywordOverlap (stripNegationWords newLower) (stripNegationWords oldLower);
                 newNeg = has_any newLower negationPatterns;
                 oldNeg = has_any oldLower negationPatterns
             in if overlap \<ge> Fin 0.4 \<and> newNeg \<noteq> oldNeg
                then found ''negation conflict with high similarity'' (Fin 0.8)
                else if length (m_tags newMem) > 0 \<and> length (m_tags oldMem) > 0 \<and>
                   tagOverlapRatio (m_tags newMem) (m_tags oldMem) \<ge> Fin 0.5 \<and>
                   overlap \<ge> Fin 0.3 \<and> overlap < Fin 0.8
                then found ''shared tags with divergent content'' (Fin 0.5)
                else None))"

definition DetectContradictions :: "memory \<Rightarrow> memory list \<Rightarrow> contradiction list" where
  "DetectContradictions newMem existing =
     (if m_type newMem \<noteq> MemoryTypeSemantic then []
      else List.map_filter
        (\<lambda>old. if m_id old = m_id newMem \<or> m_type old \<noteq> MemoryTypeSemantic \<or> m_project old \<noteq> m_project newMem
               then None else detectPair newMem old)
        existing)"

section \<open>Properties\<close>

lemma significantWords_finite [simp]: "finite (significantWords t)"
  by (simp add: significantWords_def)

text \<open>The overlap is the Jaccard coefficient.\<close>

lemma keywordOverlap_jaccard:
  "keywordOverlap a b = Fin (if significantWords a = {} \<or> significantWords b = {} then 0
     else real (card (significantWords a \<inter> significantWords b)) /
          real (card (significantWords a \<union> significantWords b)))"
proof -
  let ?A = "significantWords a" and ?B = "significantWords b"
  have "card ?A + card ?B - card (?A \<inter> ?B) = card (?A \<union> ?B)"
    using card_Un_Int [of ?A ?B] by simp
  then show ?thesis by (simp only: keywordOverlap_def Let_def) (auto simp: f_of_nat_def f64_consts)
qed

lemma keywordOverlap_unit: "in_unit (keywordOverlap a b)"
  using card_mono [of "significantWords a \<union> significantWords b" "significantWords a \<inter> significantWords b"]
  by (auto simp: keywordOverlap_jaccard divide_le_eq)

lemma keywordOverlap_same: "keywordOverlap a a = Fin (if significantWords a = {} then 0 else 1)"
  by (simp add: keywordOverlap_jaccard)

text \<open>
  The keyword overlap is the Jaccard coefficient of the two word sets: in the unit interval,
  symmetric, 0 exactly when no significant word is shared, and 1 exactly when the sets are equal
  and not empty.
\<close>

lemma keywordOverlap_spec:
  shows "(in_unit (keywordOverlap a b)) \<and>
      (keywordOverlap a b = keywordOverlap b a) \<and>
      (keywordOverlap a b = 0 \<longleftrightarrow> significantWords a \<inter> significantWords b = {}) \<and>
      (keywordOverlap a b = 1 \<longleftrightarrow> significantWords a = significantWords b \<and> significantWords a \<noteq> {})"
proof (rule conjI4)
  let ?A = "significantWords a" and ?B = "significantWords b"
  show "in_unit (keywordOverlap a b)" by (rule keywordOverlap_unit)
  show "keywordOverlap a b = keywordOverlap b a" by (auto simp: keywordOverlap_jaccard Int_commute Un_commute)
  show "keywordOverlap a b = 0 \<longleftrightarrow> ?A \<inter> ?B = {}" by (auto simp: keywordOverlap_jaccard f64_consts)
  have "card (?A \<inter> ?B) = card (?A \<union> ?B) \<longleftrightarrow> ?A = ?B"
    using card_subset_eq [of "?A \<union> ?B" "?A \<inter> ?B"] by auto
  then show "keywordOverlap a b = 1 \<longleftrightarrow> ?A = ?B \<and> ?A \<noteq> {}"
    by (auto simp: keywordOverlap_jaccard f64_consts divide_eq_1_iff)
qed

lemma refines_eq: "refines a b = refines b a"
  unfolding refines_def Let_def
  by (cases "length (str_fields a)" "length (str_fields b)" rule: linorder_cases) (auto simp: list.rel_eq)

lemma list_all2_eq_prefix: "length a \<le> length b \<Longrightarrow> list_all2 (=) a (take (length a) b) \<longleftrightarrow> prefix a b"
  by (metis list.rel_eq append_take_drop_id prefixI prefix_def append_eq_conv_conj)

text \<open>
  \<open>refines\<close> holds exactly when, word by word, one object is a prefix of the other and neither
  is empty; it does not depend on which of the two is the newer.
\<close>

lemma refines_prefix:
  "refines a b \<longleftrightarrow> str_fields a \<noteq> [] \<and> str_fields b \<noteq> [] \<and>
     (prefix (str_fields a) (str_fields b) \<or> prefix (str_fields b) (str_fields a))"
proof -
  have "\<not> prefix x y" if "length y < length x" for x y :: "string list"
    using that prefix_length_le by fastforce
  moreover have "prefix y x \<Longrightarrow> length x \<le> length y \<Longrightarrow> prefix x y" for x y :: "string list"
    by (auto simp: prefix_def)
  ultimately show ?thesis
    by (cases "length (str_fields a) > length (str_fields b)")
      (auto simp: refines_def Let_def list_all2_eq_prefix not_less)
qed

section \<open>The guards\<close>

definition confidences :: "f64 set" where "confidences = {Fin 0.9, Fin 0.85, Fin 0.8, Fin 0.5}"

lemma detectPair_sides: "detectPair n old = Some c \<Longrightarrow> c_new c = n \<and> c_old c = old \<and>
    c_confidence c \<in> confidences"
  by (auto simp: detectPair_def confidences_def Let_def split: option.splits prod.splits if_splits)

lemma map_filter_subset: "x \<in> set (List.map_filter f xs) \<longleftrightarrow> (\<exists>y \<in> set xs. f y = Some x)"
  by (induction xs) (auto simp: List.map_filter_def split: option.splits)

lemma map_filter_olds:
  "(\<And>y c. f y = Some c \<Longrightarrow> g c = y) \<Longrightarrow>
     map g (List.map_filter f xs) = filter (\<lambda>y. f y \<noteq> None) xs"
  by (induction xs) (auto simp: List.map_filter_def)

text \<open>
  C33: a contradiction is reported only between facts: the new memory is semantic, and each old
  memory named is one of the candidates, semantic, of the same project and a different memory;
  at most one contradiction is reported per candidate, in the candidates' order, with one of the
  four confidences.
\<close>

theorem DetectContradictions_guards:
  shows "list_all (\<lambda>c. m_type n = MemoryTypeSemantic \<and> c_new c = n \<and>
      c_old c \<in> set ms \<and> m_type (c_old c) = MemoryTypeSemantic \<and> m_project (c_old c) = m_project n \<and>
      m_id (c_old c) \<noteq> m_id n \<and> c_confidence c \<in> confidences) (DetectContradictions n ms) \<and>
      subseq (map c_old (DetectContradictions n ms)) ms"
proof (rule conjI)
  let ?f = "\<lambda>old. if m_id old = m_id n \<or> m_type old \<noteq> MemoryTypeSemantic \<or> m_project old \<noteq> m_project n
    then None else detectPair n old"
  show "list_all (\<lambda>c. m_type n = MemoryTypeSemantic \<and> c_new c = n \<and>
      c_old c \<in> set ms \<and> m_type (c_old c) = MemoryTypeSemantic \<and> m_project (c_old c) = m_project n \<and>
      m_id (c_old c) \<noteq> m_id n \<and> c_confidence c \<in> confidences) (DetectContradictions n ms)"
    unfolding list_all_iff
    by (auto simp: DetectContradictions_def map_filter_subset dest: detectPair_sides split: if_splits)
  have "map c_old (List.map_filter ?f ms) = filter (\<lambda>old. ?f old \<noteq> None) ms"
    by (rule map_filter_olds) (auto dest: detectPair_sides split: if_splits)
  then show "subseq (map c_old (DetectContradictions n ms)) ms"
    by (simp add: DetectContradictions_def subseq_filter_left)
qed

lemma extractTriple_verb: "extractTriple text v = Some t \<Longrightarrow> t_verb t = trim_space v"
  by (auto simp: extractTriple_def Let_def split: option.splits if_splits)

lemma distinct_trimmed_verbs: "distinct (map trim_space tripleVerbs)"
  by (simp add: tripleVerbs_def trim_space_def trim_by_def is_space_def)

lemma same_text_no_divergence:
  assumes "t \<in> set (extractTriples text)" "u \<in> set (extractTriples text)"
  shows "\<not> diverges (t, u)"
proof
  assume d: "diverges (t, u)"
  obtain v w where v: "v \<in> set tripleVerbs" "extractTriple text v = Some t"
    and w: "w \<in> set tripleVerbs" "extractTriple text w = Some u"
    using assms by (auto simp: extractTriples_def map_filter_subset)
  have "trim_space v = trim_space w"
    using d extractTriple_verb [OF v(2)] extractTriple_verb [OF w(2)] by (simp add: diverges_def)
  then have "v = w" using v(1) w(1) distinct_trimmed_verbs by (auto simp: distinct_map inj_on_def)
  then show False using v(2) w(2) d by (simp add: diverges_def)
qed

text \<open>
  Restating a fact is not a contradiction.  Two memories whose contents agree up to case are
  never reported as conflicting, whatever their tags, unless the text itself carries one of the
  replacement phrases.
\<close>

lemma detectPair_restatement:
  assumes "to_lower (m_content n) = to_lower (m_content old)"
    and "\<not> has_any (to_lower (m_content n)) replacementSignals"
  shows "detectPair n old = None"
proof -
  let ?t = "to_lower (m_content old)"
  have "find (replaced_by_signal n old) replacementSignals = None"
    using assms by (auto simp: find_None_iff replaced_by_signal_def Let_def has_any_def list_ex_iff)
  moreover have "find diverges (List.product (extractTriples ?t) (extractTriples ?t)) = None"
    using same_text_no_divergence by (auto simp: find_None_iff)
  ultimately show ?thesis
    using assms(1) by (simp add: detectPair_def Let_def keywordOverlap_same)
qed

end
