(* ===== verification/GraphStore.thy ===== *)
theory GraphStore
  imports Ranking
begin

text \<open>
  \<^verbatim>\<open>internal/graph\<close>: the repository on Apache AGE and pgvector.  The database is a record of its
  vertices, edges and embedding rows in physical order (which \<open>ORDER BY\<close> leaves to decide ties),
  and each Cypher or SQL statement of the code is the function its text denotes.  A repository
  method is a sequence of such statements with the Go around them.

  Statements do not run in isolation.  The world carries a schedule with one entry per statement:
  first an arbitrary function of other writers is applied to the database, then the statement
  works, is lost, is applied but not acknowledged, or loses a race.  A theorem about every world
  is a theorem about every interleaving and every pattern of failures.  \<open>uuid.New\<close> and
  \<open>time.Now\<close> read a source indexed by a tick; the UUID text, the cosine operator and the text
  search functions of PostgreSQL are parameters (\<open>genv\<close>).
\<close>

section \<open>The database\<close>

type_synonym vec = "f64 list"

record mem_row =
  r_mem :: memory
  r_hash :: string

record vec_row =
  v_id :: uuid
  v_project :: string
  v_vec :: vec

record db =
  d_mems :: "mem_row list"
  d_sessions :: "session list"
  d_entities :: "entity list"
  d_edges :: "edge list"
  d_vecs :: "vec_row list"

datatype fault = Works | Lost | Unacked | Raced

record step =
  st_others :: "db \<Rightarrow> db"
  st_fault :: fault

record world =
  w_db :: db
  w_sched :: "step list"
  w_tick :: nat

record genv =
  ge_uuid :: "nat \<Rightarrow> uuid"
  ge_clock :: "nat \<Rightarrow> gtime"
  ge_ustr :: "uuid \<Rightarrow> string"
  ge_cosine :: "vec \<Rightarrow> vec \<Rightarrow> f64"
  ge_tsquery :: "string \<Rightarrow> string option"
  ge_tsmatch :: "memory \<Rightarrow> string \<Rightarrow> bool"
  ge_tsrank :: "memory \<Rightarrow> string \<Rightarrow> f64"

datatype gerror =
    DbError | ConcurrentUpdate | MemoryNotFound | SessionNotFound | SessionAlreadyEnded
  | UnknownRelationship | NotAUuid | NotAHash | ZeroVector | NoEndpoints | ProviderError | NotEncodable

section \<open>Fallible stateful operations\<close>

type_synonym ('s, 'a) op = "'s \<Rightarrow> (gerror + 'a) \<times> 's"

definition return_op :: "'a \<Rightarrow> ('s, 'a) op" where "return_op x = (\<lambda>w. (Inr x, w))"
definition fail_op :: "gerror \<Rightarrow> ('s, 'a) op" where "fail_op e = (\<lambda>w. (Inl e, w))"

text \<open>\<open>x, err := m; if err != nil { return err }; k(x)\<close>\<close>

definition and_then :: "('s, 'a) op \<Rightarrow> ('a \<Rightarrow> ('s, 'b) op) \<Rightarrow> ('s, 'b) op" where
  "and_then m k = (\<lambda>w. case m w of (Inl e, w') \<Rightarrow> (Inl e, w') | (Inr x, w') \<Rightarrow> k x w')"

text \<open>One statement sent to the database.\<close>

definition stmt :: "(db \<Rightarrow> db \<times> 'a) \<Rightarrow> (world, 'a) op" where
  "stmt f w =
     (case w_sched w of
        [] \<Rightarrow> let (d, x) = f (w_db w) in (Inr x, w\<lparr>w_db := d\<rparr>)
      | s # rest \<Rightarrow>
          let d = st_others s (w_db w); w = w\<lparr>w_sched := rest\<rparr>; (d', x) = f d
          in (case st_fault s of
                Works \<Rightarrow> (Inr x, w\<lparr>w_db := d'\<rparr>)
              | Lost \<Rightarrow> (Inl DbError, w\<lparr>w_db := d\<rparr>)
              | Unacked \<Rightarrow> (Inl DbError, w\<lparr>w_db := d'\<rparr>)
              | Raced \<Rightarrow> (Inl ConcurrentUpdate, w\<lparr>w_db := d\<rparr>)))"

definition exec :: "(db \<Rightarrow> db) \<Rightarrow> (world, unit) op" where "exec f = stmt (\<lambda>d. (f d, ()))"
definition rows :: "(db \<Rightarrow> 'a) \<Rightarrow> (world, 'a) op" where "rows f = stmt (\<lambda>d. (d, f d))"

definition new_uuid :: "genv \<Rightarrow> (uuid \<Rightarrow> (world, 'a) op) \<Rightarrow> (world, 'a) op" where
  "new_uuid G k = (\<lambda>w. k (ge_uuid G (w_tick w)) (w\<lparr>w_tick := Suc (w_tick w)\<rparr>))"

definition time_now :: "genv \<Rightarrow> (gtime \<Rightarrow> (world, 'a) op) \<Rightarrow> (world, 'a) op" where
  "time_now G k = (\<lambda>w. k (ge_clock G (w_tick w)) (w\<lparr>w_tick := Suc (w_tick w)\<rparr>))"

text \<open>Stored timestamps: \<open>timestampLayout\<close> keeps milliseconds, \<open>time.RFC3339\<close> seconds.\<close>

definition ms_time :: "gtime \<Rightarrow> gtime" where "ms_time t = t div 1000000 * 1000000"
definition sec_time :: "gtime \<Rightarrow> gtime" where "sec_time t = t div 1000000000 * 1000000000"

section \<open>Literals inlined into a query\<close>

definition isPlainUUID :: "string \<Rightarrow> bool" where
  "isPlainUUID s =
     (length s = 36 \<and>
      list_all (\<lambda>c. is_digit c \<or> (97 \<le> code_of c \<and> code_of c \<le> 102) \<or>
                    (65 \<le> code_of c \<and> code_of c \<le> 70) \<or> c = CHR ''-'') s)"

definition quote :: "string \<Rightarrow> string" where "quote s = [squote] @ s @ [squote]"

fun literal_items :: "(string \<Rightarrow> bool) \<Rightarrow> string list \<Rightarrow> bool \<Rightarrow> string option" where
  "literal_items guard [] first = Some []"
| "literal_items guard (s # ss) first =
     (if \<not> guard s then None
      else map_option (\<lambda>r. (if first then [] else '','') @ quote s @ r) (literal_items guard ss False))"

definition uuidLiteralList :: "genv \<Rightarrow> uuid list \<Rightarrow> string option" where
  "uuidLiteralList G ids =
     map_option (\<lambda>b. ''['' @ b @ '']'') (literal_items isPlainUUID (map (ge_ustr G) ids) True)"

text \<open>The inner option is the empty string the code returns when no hash survives.\<close>

definition contentHashLiteralList :: "string list \<Rightarrow> string option option" where
  "contentHashLiteralList hashes =
     (let hs = filter (\<lambda>h. h \<noteq> []) hashes in
      map_option (\<lambda>b. if hs = [] then None else Some (''['' @ b @ '']'')) (literal_items IsContentHash hs True))"

text \<open>A statement whose text inlines ids is sent only if all of them pass the guard.\<close>

definition with_ids :: "genv \<Rightarrow> uuid list \<Rightarrow> (world, 'a) op \<Rightarrow> (world, 'a) op" where
  "with_ids G ids m = (case uuidLiteralList G ids of None \<Rightarrow> fail_op NotAUuid | Some lit \<Rightarrow> m)"

text \<open>
  \<open>encodeParams\<close>: a statement whose parameters hold the given numbers is sent only if JSON can hold
  them, which it cannot for NaN and the infinities.
\<close>

definition json_number :: "f64 \<Rightarrow> bool" where "json_number x = (\<not> is_nan x \<and> x \<noteq> PInf \<and> x \<noteq> NInf)"

definition encoded :: "f64 list \<Rightarrow> (world, 'a) op \<Rightarrow> (world, 'a) op" where
  "encoded xs m = (if list_all json_number xs then m else fail_op NotEncodable)"

section \<open>Memories\<close>

definition mem_rows :: "db \<Rightarrow> uuid \<Rightarrow> mem_row list" where
  "mem_rows d i = filter (\<lambda>r. m_id (r_mem r) = i) (d_mems d)"

definition toModel :: "mem_row \<Rightarrow> memory" where
  "toModel r = (r_mem r)\<lparr>m_decay := (if feq (m_decay (r_mem r)) 0 then 1 else m_decay (r_mem r))\<rparr>"

definition map_rows :: "(mem_row \<Rightarrow> bool) \<Rightarrow> (mem_row \<Rightarrow> mem_row) \<Rightarrow> db \<Rightarrow> db" where
  "map_rows P f d = d\<lparr>d_mems := map (\<lambda>r. if P r then f r else r) (d_mems d)\<rparr>"

definition CreateMemory :: "memory \<Rightarrow> (world, unit) op" where
  "CreateMemory mem =
     exec (\<lambda>d. d\<lparr>d_mems := d_mems d @
       [\<lparr>r_mem = mem\<lparr>m_created := ms_time (m_created mem), m_access := 0, m_decay := 1\<rparr>,
         r_hash = ContentHash (m_content mem)\<rparr>]\<rparr>)"

type_synonym content_key = "string \<times> memory_type"

text \<open>The loop that keys the rows found: empty hashes skipped, the first row of a key kept.\<close>

fun key_rows :: "memory list \<Rightarrow> (content_key \<rightharpoonup> memory) \<Rightarrow> (content_key \<rightharpoonup> memory)" where
  "key_rows [] found = found"
| "key_rows (mem # ms) found =
     (let h = ContentHash (m_content mem); key = (h, m_type mem) in
      if h = [] then key_rows ms found
      else key_rows ms (if found key = None then found(key \<mapsto> mem) else found))"

definition FindByContentHash :: "string \<Rightarrow> string list \<Rightarrow> (world, content_key \<rightharpoonup> memory) op" where
  "FindByContentHash projectID hashes =
     (if projectID = [] \<or> hashes = [] then return_op Map.empty
      else case contentHashLiteralList hashes of
        None \<Rightarrow> fail_op NotAHash
      | Some None \<Rightarrow> return_op Map.empty
      | Some (Some lit) \<Rightarrow>
          and_then
            (rows (\<lambda>d. map toModel (filter (\<lambda>r. m_project (r_mem r) = projectID \<and>
               r_hash r \<in> set hashes \<and> r_hash r \<noteq> []) (d_mems d))))
            (\<lambda>ms. return_op (key_rows ms Map.empty)))"

definition GetMemory :: "uuid \<Rightarrow> (world, memory) op" where
  "GetMemory i =
     and_then (rows (\<lambda>d. mem_rows d i))
       (\<lambda>rs. case rs of [] \<Rightarrow> fail_op MemoryNotFound | r # _ \<Rightarrow> return_op (toModel r))"

definition IncrementAccessCounts :: "genv \<Rightarrow> uuid list \<Rightarrow> (world, unit) op" where
  "IncrementAccessCounts G ids =
     (if ids = [] then return_op ()
      else with_ids G ids
        (exec (map_rows (\<lambda>r. m_id (r_mem r) \<in> set ids)
           (\<lambda>r. r\<lparr>r_mem := (r_mem r)\<lparr>m_access := m_access (r_mem r) + 1\<rparr>\<rparr>))))"

definition IncrementAccessCount :: "uuid \<Rightarrow> (world, unit) op" where
  "IncrementAccessCount i =
     exec (map_rows (\<lambda>r. m_id (r_mem r) = i)
       (\<lambda>r. r\<lparr>r_mem := (r_mem r)\<lparr>m_access := m_access (r_mem r) + 1\<rparr>\<rparr>))"

definition UpdateDecayScore :: "uuid \<Rightarrow> f64 \<Rightarrow> (world, unit) op" where
  "UpdateDecayScore i score = encoded [score]
     (exec (map_rows (\<lambda>r. m_id (r_mem r) = i) (\<lambda>r. r\<lparr>r_mem := (r_mem r)\<lparr>m_decay := score\<rparr>\<rparr>)))"

text \<open>The compare-and-set: guard and write are one statement, and a row comes back if it matched.\<close>

definition UpdateMemoryContent :: "uuid \<Rightarrow> string \<Rightarrow> string \<Rightarrow> (world, bool) op" where
  "UpdateMemoryContent i expectedHash content =
     (if \<not> IsContentHash expectedHash then fail_op NotAHash
      else stmt (\<lambda>d.
        let P = (\<lambda>r. m_id (r_mem r) = i \<and> r_hash r = expectedHash)
        in (map_rows P (\<lambda>r. r\<lparr>r_mem := (r_mem r)\<lparr>m_content := content\<rparr>, r_hash := ContentHash content\<rparr>) d,
            list_ex P (d_mems d))))"

section \<open>Edges\<close>

definition is_mem :: "db \<Rightarrow> uuid \<Rightarrow> bool" where
  "is_mem d i = list_ex (\<lambda>r. m_id (r_mem r) = i) (d_mems d)"

definition is_session :: "db \<Rightarrow> uuid \<Rightarrow> bool" where
  "is_session d i = list_ex (\<lambda>s. s_id s = i) (d_sessions d)"

definition same_triple :: "edge \<Rightarrow> edge \<Rightarrow> bool" where
  "same_triple e f = (e_from e = e_from f \<and> e_rel e = e_rel f \<and> e_to e = e_to f)"

text \<open>
  \<open>MERGE (a)-[e:rel]->(b) SET e.x = coalesce(e.x, ...)\<close>: an existing edge of the triple keeps its
  properties, a missing one is created with the given ones.
\<close>

definition merge_edge :: "edge \<Rightarrow> edge list \<Rightarrow> edge list" where
  "merge_edge e es =
     (if list_ex (same_triple e) es then es else es @ [e\<lparr>e_created := sec_time (e_created e)\<rparr>])"

definition assert_edge :: "edge \<Rightarrow> db \<Rightarrow> db" where
  "assert_edge e d =
     (if is_mem d (e_from e) \<and> is_mem d (e_to e) then d\<lparr>d_edges := merge_edge e (d_edges d)\<rparr> else d)"

definition CreateEdge :: "edge \<Rightarrow> (world, edge) op" where
  "CreateEdge e =
     (if \<not> rel_valid (e_rel e) then fail_op UnknownRelationship
      else and_then
        (encoded [e_weight e] (stmt (\<lambda>d. let d' = assert_edge e d in
           (d', if is_mem d (e_from e) \<and> is_mem d (e_to e) then find (same_triple e) (d_edges d') else None))))
        (\<lambda>r. case r of None \<Rightarrow> fail_op NoEndpoints | Some er \<Rightarrow>
           return_op (e\<lparr>e_id := e_id er, e_weight := e_weight er, e_created := e_created er\<rparr>)))"

text \<open>The edges of one label, one statement each; the first failure stops the loop.\<close>

fun create_group :: "genv \<Rightarrow> edge list \<Rightarrow> (world, unit) op" where
  "create_group G [] = return_op ()"
| "create_group G (e # es) =
     with_ids G [e_from e] (with_ids G [e_to e] (and_then
       (encoded [e_weight e] (exec (assert_edge e))) (\<lambda>_. create_group G es)))"

text \<open>\<open>rels\<close> is the order in which this iteration over the map visits the labels.\<close>

fun create_groups :: "genv \<Rightarrow> relationship_type list \<Rightarrow> edge list \<Rightarrow> (world, unit) op" where
  "create_groups G [] edges = return_op ()"
| "create_groups G (rel # rels) edges =
     and_then (create_group G (filter (\<lambda>e. e_rel e = rel) edges)) (\<lambda>_. create_groups G rels edges)"

definition CreateEdges :: "genv \<Rightarrow> edge list \<Rightarrow> (world, unit) op" where
  "CreateEdges G edges =
     (if edges = [] then return_op ()
      else if \<not> list_all (\<lambda>e. rel_valid (e_rel e)) edges then fail_op UnknownRelationship
      else create_groups G (remdups (map e_rel edges)) edges)"

section \<open>Entities\<close>

definition same_entity :: "string \<Rightarrow> string \<Rightarrow> entity \<Rightarrow> bool" where
  "same_entity normalized project e = (en_normalized e = normalized \<and> en_project e = project)"

text \<open>
  The one Cypher statement of \<open>linkOneEntityOnce\<close>: match the memory in its project, merge the
  entity on its identity, merge the mentions edge.
\<close>

definition link_entity :: "memory \<Rightarrow> string \<Rightarrow> string \<Rightarrow> uuid \<Rightarrow> uuid \<Rightarrow> gtime \<Rightarrow> db \<Rightarrow> db" where
  "link_entity mem normalized display entity_id edge_id now d =
     (if \<not> list_ex (\<lambda>r. m_id (r_mem r) = m_id mem \<and> m_project (r_mem r) = m_project mem) (d_mems d) then d
      else
        let ents = (if list_ex (same_entity normalized (m_project mem)) (d_entities d) then d_entities d
                    else d_entities d @ [\<lparr>en_id = entity_id, en_name = display, en_normalized = normalized,
                                          en_project = m_project mem\<rparr>])
        in case find (same_entity normalized (m_project mem)) ents of
             None \<Rightarrow> d\<lparr>d_entities := ents\<rparr>
           | Some en \<Rightarrow> d\<lparr>d_entities := ents,
               d_edges := merge_edge \<lparr>e_id = edge_id, e_from = m_id mem, e_to = en_id en, e_rel = RelMentions,
                 e_weight = 1, e_created = now\<rparr> (d_edges d)\<rparr>)"

text \<open>\<open>Begin\<close>, the advisory lock, the statement and \<open>Commit\<close>; nothing is kept unless all four work.\<close>

definition linkOneEntityOnce :: "genv \<Rightarrow> memory \<Rightarrow> string \<Rightarrow> string \<Rightarrow> gtime \<Rightarrow> (world, unit) op" where
  "linkOneEntityOnce G mem normalized display now =
     and_then (rows (\<lambda>d. ())) (\<lambda>_.
     and_then (rows (\<lambda>d. ())) (\<lambda>_.
     new_uuid G (\<lambda>entity_id. new_uuid G (\<lambda>edge_id.
       exec (link_entity mem normalized display entity_id edge_id now)))))"

definition entityLinkAttempts :: nat where "entityLinkAttempts = 3"

text \<open>The retry loop: only a lost race is tried again.\<close>

fun link_attempts :: "nat \<Rightarrow> (world, unit) op \<Rightarrow> gerror \<Rightarrow> (world, unit) op" where
  "link_attempts 0 once lastErr = fail_op lastErr"
| "link_attempts (Suc n) once lastErr =
     (\<lambda>w. case once w of
        (Inr u, w') \<Rightarrow> (Inr (), w')
      | (Inl e, w') \<Rightarrow> if e = ConcurrentUpdate then link_attempts n once e w' else (Inl e, w'))"

definition linkOneEntity :: "genv \<Rightarrow> memory \<Rightarrow> string \<Rightarrow> string \<Rightarrow> gtime \<Rightarrow> (world, unit) op" where
  "linkOneEntity G mem normalized display now =
     link_attempts entityLinkAttempts (linkOneEntityOnce G mem normalized display now) DbError"

text \<open>The loop of \<open>LinkEntities\<close> over the distinct normalized names, with its count.\<close>

fun link_names :: "genv \<Rightarrow> memory \<Rightarrow> gtime \<Rightarrow> (string \<times> string) list \<Rightarrow> nat \<Rightarrow> (world, nat) op" where
  "link_names G mem now [] linked = return_op linked"
| "link_names G mem now ((normalized, display) # names) linked =
     and_then (linkOneEntity G mem normalized display now) (\<lambda>_. link_names G mem now names (Suc linked))"

definition entity_names :: "string list \<Rightarrow> (string \<times> string) list" where
  "entity_names names =
     first_by fst (\<lambda>n. n = []) {} (map (\<lambda>name. (NormalizeEntity name, trim_space name)) names)"

definition LinkEntities :: "genv \<Rightarrow> memory \<Rightarrow> string list \<Rightarrow> (world, nat) op" where
  "LinkEntities G mem names =
     (if names = [] \<or> m_project mem = [] then return_op 0
      else with_ids G [m_id mem]
        (time_now G (\<lambda>now. link_names G mem (sec_time now) (entity_names names) 0)))"

text \<open>The mentions of a memory: the normalized names of the entities its edges reach.\<close>

definition mentioned :: "db \<Rightarrow> uuid \<Rightarrow> entity list" where
  "mentioned d i =
     concat (map (\<lambda>e. filter (\<lambda>n. en_id n = e_to e) (d_entities d))
       (filter (\<lambda>e. e_rel e = RelMentions \<and> e_from e = i) (d_edges d)))"

definition normalized_names :: "string list \<Rightarrow> string list" where
  "normalized_names names = first_by (\<lambda>n. n) (\<lambda>n. n = []) {} (map NormalizeEntity names)"

text \<open>\<open>ORDER BY created_at DESC LIMIT n\<close>; equal timestamps stay in physical order.\<close>

definition newest_first :: "mem_row list \<Rightarrow> mem_row list" where
  "newest_first rs = sort_stable (\<lambda>a b. m_created (r_mem a) > m_created (r_mem b)) rs"

definition FindMemoriesByEntities :: "string \<Rightarrow> string list \<Rightarrow> int \<Rightarrow> (world, memory list) op" where
  "FindMemoriesByEntities projectID names limit =
     (if names = [] \<or> limit \<le> 0 \<or> normalized_names names = [] then return_op []
      else and_then
        (rows (\<lambda>d. take (nat limit) (newest_first (filter (\<lambda>r. m_project (r_mem r) = projectID \<and>
           list_ex (\<lambda>n. en_project n = projectID \<and> en_normalized n \<in> set (normalized_names names))
             (mentioned d (m_id (r_mem r)))) (d_mems d)))))
        (\<lambda>rs. return_op (first_by m_id (\<lambda>i. False) {} (map toModel rs))))"

definition CountEntityMatches :: "genv \<Rightarrow> uuid list \<Rightarrow> string list \<Rightarrow> (world, uuid \<rightharpoonup> nat) op" where
  "CountEntityMatches G ids names =
     (if ids = [] \<or> names = [] then return_op Map.empty
      else with_ids G ids
        (if normalized_names names = [] then return_op Map.empty
         else rows (\<lambda>d i.
           let n = card (set (filter (\<lambda>x. x \<in> set (normalized_names names)) (map en_normalized (mentioned d i))))
           in if i \<in> set ids \<and> is_mem d i \<and> n > 0 then Some n else None)))"

definition GetMemoryEntities :: "genv \<Rightarrow> uuid list \<Rightarrow> (world, uuid \<Rightarrow> string list) op" where
  "GetMemoryEntities G ids =
     (if ids = [] then return_op (\<lambda>_. [])
      else with_ids G ids
        (rows (\<lambda>d i. if i \<in> set ids \<and> is_mem d i
           then filter (\<lambda>n. n \<noteq> []) (map en_normalized (mentioned d i)) else [])))"

definition orphaned :: "db \<Rightarrow> entity \<Rightarrow> bool" where
  "orphaned d n = (\<not> list_ex (\<lambda>e. e_rel e = RelMentions \<and> e_to e = en_id n) (d_edges d))"

definition deleteOrphanedEntities :: "string list \<Rightarrow> (world, unit) op" where
  "deleteOrphanedEntities normalized =
     (if filter (\<lambda>n. n \<noteq> []) normalized = [] then return_op ()
      else (\<lambda>w. (Inr (), snd (exec (\<lambda>d. d\<lparr>d_entities :=
        filter (\<lambda>n. \<not> (en_normalized n \<in> set normalized \<and> en_normalized n \<noteq> [] \<and> orphaned d n)) (d_entities d)\<rparr>) w))))"

text \<open>\<open>DETACH DELETE\<close>: the vertex and every edge at it.\<close>

definition detach_delete :: "uuid \<Rightarrow> db \<Rightarrow> db" where
  "detach_delete i d =
     d\<lparr>d_mems := filter (\<lambda>r. m_id (r_mem r) \<noteq> i) (d_mems d),
       d_edges := (if is_mem d i then filter (\<lambda>e. e_from e \<noteq> i \<and> e_to e \<noteq> i) (d_edges d) else d_edges d)\<rparr>"

definition DeleteMemory :: "genv \<Rightarrow> uuid \<Rightarrow> (world, unit) op" where
  "DeleteMemory G i =
     and_then (exec (\<lambda>d. d\<lparr>d_vecs := filter (\<lambda>v. v_id v \<noteq> i) (d_vecs d)\<rparr>)) (\<lambda>_ w.
       let (r, w) = GetMemoryEntities G [i] w;
           entities = (case r of Inl e \<Rightarrow> [] | Inr m \<Rightarrow> m i)
       in and_then (exec (detach_delete i)) (\<lambda>_.
            if length entities > 0 then deleteOrphanedEntities entities else return_op ()) w)"

section \<open>Sessions\<close>

text \<open>
  The second statement of \<open>CreateSession\<close> matches a \<open>:Project\<close> vertex.  No statement of the
  repository creates one, so the match is empty and nothing is written.
\<close>

definition CreateSession :: "genv \<Rightarrow> session \<Rightarrow> (world, unit) op" where
  "CreateSession G sess =
     and_then (exec (\<lambda>d. d\<lparr>d_sessions := d_sessions d @
        [sess\<lparr>s_started := sec_time (s_started sess), s_ended := None\<rparr>]\<rparr>))
       (\<lambda>_. new_uuid G (\<lambda>edge_id. exec (\<lambda>d. d)))"

definition sessionExists :: "uuid \<Rightarrow> (world, bool) op" where
  "sessionExists i = rows (\<lambda>d. is_session d i)"

definition open_session :: "uuid \<Rightarrow> session \<Rightarrow> bool" where
  "open_session i s = (s_id s = i \<and> s_ended s = None)"

definition end_rows :: "uuid \<Rightarrow> gtime \<Rightarrow> db \<Rightarrow> db" where
  "end_rows i ended d =
     d\<lparr>d_sessions := map (\<lambda>s. if open_session i s then s\<lparr>s_ended := Some ended\<rparr> else s) (d_sessions d)\<rparr>"

definition EndSession :: "genv \<Rightarrow> uuid \<Rightarrow> (world, session) op" where
  "EndSession G i =
     time_now G (\<lambda>now. and_then
       (stmt (\<lambda>d. (end_rows i (sec_time now) d,
          map_option (\<lambda>s. s\<lparr>s_ended := Some (sec_time now)\<rparr>) (find (open_session i) (d_sessions d)))))
       (\<lambda>r. case r of
          Some s \<Rightarrow> return_op s
        | None \<Rightarrow> (\<lambda>w. case sessionExists i w of
            (Inr True, w') \<Rightarrow> (Inl SessionAlreadyEnded, w')
          | (_, w') \<Rightarrow> (Inl SessionNotFound, w'))))"

definition LinkMemoryToSession :: "genv \<Rightarrow> uuid \<Rightarrow> uuid \<Rightarrow> (world, unit) op" where
  "LinkMemoryToSession G sessionID memoryID =
     new_uuid G (\<lambda>edge_id. time_now G (\<lambda>now.
       exec (\<lambda>d. if is_session d sessionID \<and> is_mem d memoryID
         then d\<lparr>d_edges := d_edges d @ [\<lparr>e_id = edge_id, e_from = sessionID, e_to = memoryID,
                 e_rel = RelContains, e_weight = 1, e_created = sec_time now\<rparr>]\<rparr> else d)))"

section \<open>Enumerating memories\<close>

record query_filter =
  qf_project :: string
  qf_keywords :: "string list"
  qf_types :: "memory_type list"
  qf_topk :: int
  qf_overfetch :: bool

definition candidatePoolFactor :: int where "candidatePoolFactor = 10"
definition maxCandidatePool :: int where "maxCandidatePool = 500"

text \<open>\<open>json.Marshal\<close> of the tags, the text the property holds; no tag at all is the nil slice.\<close>

definition json_char :: "char \<Rightarrow> string" where
  "json_char c =
     (if c = dquote \<or> c = CHR 0x5C then [CHR 0x5C, c]
      else if c = CHR 0x0A then [CHR 0x5C, CHR ''n'']
      else if c = CHR 0x0D then [CHR 0x5C, CHR ''r'']
      else if c = CHR 0x09 then [CHR 0x5C, CHR ''t'']
      else if c = CHR 0x08 then [CHR 0x5C, CHR ''b'']
      else if c = CHR 0x0C then [CHR 0x5C, CHR ''f'']
      else if code_of c < 32 \<or> c \<in> {CHR ''<'', CHR ''>'', CHR ''&''}
      then [CHR 0x5C] @ ''u00'' @ [hex_digit (code_of c div 16), hex_digit (code_of c mod 16)]
      else [c])"

definition tags_json :: "string list \<Rightarrow> string" where
  "tags_json tags =
     (if tags = [] then ''null''
      else ''['' @ join '','' (map (\<lambda>t. [dquote] @ concat (map json_char t) @ [dquote]) tags) @ '']'')"

definition kw_match :: "mem_row \<Rightarrow> string \<Rightarrow> bool" where
  "kw_match r kw =
     (contains (to_lower (m_content (r_mem r))) (to_lower kw) \<or>
      contains (to_lower (tags_json (m_tags (r_mem r)))) (to_lower kw))"

definition match_count :: "string list \<Rightarrow> mem_row \<Rightarrow> nat" where
  "match_count kws r = length (filter (kw_match r) kws)"

definition filter_cond :: "query_filter \<Rightarrow> mem_row \<Rightarrow> bool" where
  "filter_cond f r =
     ((qf_project f = [] \<or> m_project (r_mem r) = qf_project f) \<and>
      (qf_types f = [] \<or> m_type (r_mem r) \<in> set (qf_types f)) \<and>
      (qf_keywords f = [] \<or> list_ex (kw_match r) (qf_keywords f)))"

definition candidate_less :: "string list \<Rightarrow> mem_row \<Rightarrow> mem_row \<Rightarrow> bool" where
  "candidate_less kws a b =
     (match_count kws a > match_count kws b \<or>
      match_count kws a = match_count kws b \<and> m_created (r_mem a) > m_created (r_mem b))"

definition candidate_limit :: "query_filter \<Rightarrow> int" where
  "candidate_limit f =
     (let topK = (if qf_topk f \<le> 0 then 5 else qf_topk f) in
      if qf_overfetch f then min (topK * candidatePoolFactor) maxCandidatePool else topK)"

definition plain_ctx :: "f64 \<Rightarrow> memory \<Rightarrow> memory_ctx" where
  "plain_ctx score m =
     \<lparr>mc_memory = m, mc_context = [], mc_relevance = 0, mc_score = score, mc_superseded = False\<rparr>"

definition QueryMemories :: "query_filter \<Rightarrow> (world, memory_ctx list) op" where
  "QueryMemories f =
     rows (\<lambda>d. map (\<lambda>r. plain_ctx 1 (toModel r))
       (take (nat (candidate_limit f)) (sort_stable (candidate_less (qf_keywords f)) (filter (filter_cond f) (d_mems d)))))"

section \<open>Neighbourhoods\<close>

text \<open>The memories an edge pattern from \<open>center\<close> reaches, one match per edge.\<close>

definition out_edges :: "db \<Rightarrow> uuid \<Rightarrow> edge list" where
  "out_edges d c = filter (\<lambda>e. e_from e = c \<and> is_mem d (e_to e)) (d_edges d)"

definition in_edges :: "db \<Rightarrow> uuid \<Rightarrow> edge list" where
  "in_edges d c = filter (\<lambda>e. e_to e = c \<and> is_mem d (e_from e)) (d_edges d)"

definition getEdgesAround :: "uuid \<Rightarrow> (world, edge list) op" where
  "getEdgesAround c =
     and_then (rows (\<lambda>d. out_edges d c)) (\<lambda>outs.
     and_then (rows (\<lambda>d. in_edges d c)) (\<lambda>ins.
     return_op (first_by e_id (\<lambda>i. False) {} (outs @ ins))))"

definition GetSubgraph :: "uuid \<Rightarrow> (world, memory list \<times> edge list) op" where
  "GetSubgraph c =
     and_then (rows (\<lambda>d. concat (map (\<lambda>e. map toModel (mem_rows d (e_to e))) (out_edges d c)))) (\<lambda>outs.
     and_then (rows (\<lambda>d. concat (map (\<lambda>e. map toModel (mem_rows d (e_from e))) (in_edges d c)))) (\<lambda>ins.
     and_then (getEdgesAround c) (\<lambda>es.
     return_op (first_by m_id (\<lambda>i. False) {} (outs @ ins), es))))"

definition edge_contexts :: "db \<Rightarrow> uuid \<Rightarrow> edge \<Rightarrow> context_edge list" where
  "edge_contexts d target e =
     map (\<lambda>r. \<lparr>ce_rel = e_rel e, ce_target = target, ce_content = m_content (r_mem r), ce_weight = e_weight e\<rparr>)
       (mem_rows d target)"

definition GetContextEdges :: "genv \<Rightarrow> uuid list \<Rightarrow> (world, uuid \<Rightarrow> context_edge list) op" where
  "GetContextEdges G ids =
     (if ids = [] then return_op (\<lambda>_. [])
      else with_ids G ids (
        and_then (rows (\<lambda>d i. if i \<in> set ids \<and> is_mem d i
            then concat (map (\<lambda>e. edge_contexts d (e_to e) e) (out_edges d i)) else [])) (\<lambda>outs.
        and_then (rows (\<lambda>d i. if i \<in> set ids \<and> is_mem d i
            then concat (map (\<lambda>e. edge_contexts d (e_from e) e) (in_edges d i)) else [])) (\<lambda>ins.
        return_op (\<lambda>i. outs i @ ins i)))))"

definition SupersededCandidates :: "genv \<Rightarrow> uuid list \<Rightarrow> (world, uuid \<Rightarrow> bool) op" where
  "SupersededCandidates G ids =
     (if ids = [] then return_op (\<lambda>_. False)
      else with_ids G ids (rows (\<lambda>d i. i \<in> set ids \<and> is_mem d i \<and>
        list_ex (\<lambda>e. e_rel e = RelSupersedes) (in_edges d i))))"

definition NodeCount :: "(world, nat) op" where
  "NodeCount = rows (\<lambda>d. length (d_mems d) + length (d_sessions d) + length (d_entities d))"

definition EdgeCount :: "(world, nat) op" where
  "EdgeCount = rows (\<lambda>d. length (d_edges d))"

section \<open>Vectors\<close>

definition isZeroVector :: "vec \<Rightarrow> bool" where
  "isZeroVector v = list_all (\<lambda>f. feq f 0) v"

definition StoreEmbedding :: "uuid \<Rightarrow> string \<Rightarrow> vec \<Rightarrow> (world, unit) op" where
  "StoreEmbedding memoryID projectID embedding =
     (if isZeroVector embedding then fail_op ZeroVector
      else exec (\<lambda>d. d\<lparr>d_vecs :=
        (if list_ex (\<lambda>v. v_id v = memoryID) (d_vecs d)
         then map (\<lambda>v. if v_id v = memoryID then v\<lparr>v_vec := embedding, v_project := projectID\<rparr> else v) (d_vecs d)
         else d_vecs d @ [\<lparr>v_id = memoryID, v_project = projectID, v_vec = embedding\<rparr>])\<rparr>))"

definition scopedVectorCandidates :: nat where "scopedVectorCandidates = 20000"

text \<open>
  \<open>ORDER BY distance LIMIT k\<close>.  PostgreSQL puts NaN above every number, so a row whose distance is
  undefined comes last.
\<close>

definition dist_less :: "f64 \<Rightarrow> f64 \<Rightarrow> bool" where
  "dist_less a b = (if is_nan a then False else if is_nan b then True else a < b)"

definition nearest_rows :: "genv \<Rightarrow> vec \<Rightarrow> nat \<Rightarrow> vec_row list \<Rightarrow> (uuid \<times> f64) list" where
  "nearest_rows G q k rs =
     map (\<lambda>(i, dist). (i, 1 - dist))
       (take k (sort_stable (\<lambda>a b. dist_less (snd a) (snd b)) (map (\<lambda>v. (v_id v, ge_cosine G (v_vec v) q)) rs)))"

text \<open>The index scan over every project; its two settings only widen the scan, and the order is exact.\<close>

definition nearestNeighboursUnscoped :: "genv \<Rightarrow> vec \<Rightarrow> nat \<Rightarrow> db \<Rightarrow> (uuid \<times> f64) list" where
  "nearestNeighboursUnscoped G q k d = nearest_rows G q k (d_vecs d)"

definition nearest :: "genv \<Rightarrow> vec \<Rightarrow> string \<Rightarrow> nat \<Rightarrow> db \<Rightarrow> (uuid \<times> f64) list" where
  "nearest G q projectID k d =
     (if projectID = [] then nearestNeighboursUnscoped G q k d
      else nearest_rows G q k (take scopedVectorCandidates (filter (\<lambda>v. v_project v = projectID) (d_vecs d))))"

definition scanVectorHits :: "(uuid \<times> f64) list \<Rightarrow> (uuid \<times> f64) list" where
  "scanVectorHits hits = filter (\<lambda>(i, s). \<not> is_nan s) hits"

text \<open>A batch fetch indexed by id: a later row of the same id replaces an earlier one in the map.\<close>

definition by_id :: "memory list \<Rightarrow> uuid \<rightharpoonup> memory" where
  "by_id ms = fold (\<lambda>m f. f(m_id m \<mapsto> m)) ms Map.empty"

definition hydrate :: "genv \<Rightarrow> (uuid \<times> f64) list \<Rightarrow> (world, memory_ctx list) op" where
  "hydrate G hits =
     (if hits = [] then return_op []
      else with_ids G (map fst hits)
        (and_then (rows (\<lambda>d. map toModel (filter (\<lambda>r. m_id (r_mem r) \<in> set (map fst hits)) (d_mems d))))
          (\<lambda>ms. return_op (List.map_filter (\<lambda>(i, s). map_option (plain_ctx s) (by_id ms i)) hits))))"

definition SearchByVector :: "genv \<Rightarrow> vec \<Rightarrow> string \<Rightarrow> int \<Rightarrow> (world, memory_ctx list) op" where
  "SearchByVector G embedding projectID topK =
     (let topK = (if topK \<le> 0 then 10 else topK) in
      if isZeroVector embedding then fail_op ZeroVector
      else and_then (rows (nearest G embedding projectID (nat topK))) (\<lambda>hits. hydrate G (scanVectorHits hits)))"

section \<open>Full text\<close>

definition lexed :: "genv \<Rightarrow> string list \<Rightarrow> string list" where
  "lexed G keywords = List.map_filter (ge_tsquery G) keywords"

definition in_scope :: "string \<Rightarrow> db \<Rightarrow> memory list" where
  "in_scope projectID d = map r_mem (filter (\<lambda>r. projectID = [] \<or> m_project (r_mem r) = projectID) (d_mems d))"

definition corpus_n :: "string \<Rightarrow> db \<Rightarrow> real" where
  "corpus_n projectID d = real (max (length (in_scope projectID d)) 1)"

definition doc_freq :: "genv \<Rightarrow> string \<Rightarrow> db \<Rightarrow> string \<Rightarrow> real" where
  "doc_freq G projectID d q = real (max (length (filter (\<lambda>m. ge_tsmatch G m q) (in_scope projectID d))) 1)"

definition idf :: "genv \<Rightarrow> string \<Rightarrow> db \<Rightarrow> string \<Rightarrow> f64" where
  "idf G projectID d q =
     Fin (ln (1 + (corpus_n projectID d - doc_freq G projectID d q + 0.5) / (doc_freq G projectID d q + 0.5)))"

definition sum_f64 :: "f64 list \<Rightarrow> f64" where "sum_f64 xs = fold (\<lambda>x s. s + x) xs 0"

definition text_rank :: "genv \<Rightarrow> string \<Rightarrow> db \<Rightarrow> string list \<Rightarrow> memory \<Rightarrow> f64" where
  "text_rank G projectID d qs m =
     sum_f64 (map (\<lambda>q. idf G projectID d q * ge_tsrank G m q) (filter (ge_tsmatch G m) qs))"

definition keyword_hits :: "genv \<Rightarrow> string \<Rightarrow> string list \<Rightarrow> nat \<Rightarrow> db \<Rightarrow> (uuid \<times> f64) list \<times> f64" where
  "keyword_hits G projectID qs limit d =
     (let ms = filter (\<lambda>m. list_ex (ge_tsmatch G m) qs) (in_scope projectID d);
          hits = take limit (sort_stable (\<lambda>a b. snd a > snd b)
                   (map (\<lambda>i. (i, sum_f64 (map (text_rank G projectID d qs) (filter (\<lambda>m. m_id m = i) ms))))
                     (remdups (map m_id ms))))
      in (hits, if hits = [] then 0 else sum_f64 (map (idf G projectID d) qs)))"

definition SearchByKeywords :: "genv \<Rightarrow> string \<Rightarrow> string list \<Rightarrow> int \<Rightarrow> (world, (uuid \<times> f64) list \<times> f64) op" where
  "SearchByKeywords G projectID keywords limit =
     (if keywords = [] \<or> limit \<le> 0 then return_op ([], 0)
      else rows (keyword_hits G projectID (lexed G keywords) (nat limit)))"

text \<open>The same batch fetch for keyword hits, in their order.\<close>

definition hydrateKeywordHits :: "genv \<Rightarrow> (uuid \<times> f64) list \<Rightarrow> (world, memory_ctx list) op" where
  "hydrateKeywordHits G hits =
     (if hits = [] then return_op []
      else with_ids G (map fst hits)
        (and_then (rows (\<lambda>d. map toModel (filter (\<lambda>r. m_id (r_mem r) \<in> set (map fst hits)) (d_mems d))))
          (\<lambda>ms. return_op (List.map_filter (\<lambda>(i, s). map_option (plain_ctx s) (by_id ms i)) hits))))"

definition SearchByText :: "genv \<Rightarrow> string \<Rightarrow> string list \<Rightarrow> int \<Rightarrow> (world, memory_ctx list \<times> f64) op" where
  "SearchByText G projectID keywords limit =
     and_then (SearchByKeywords G projectID keywords limit) (\<lambda>(hits, idfSum).
     and_then (hydrateKeywordHits G hits) (\<lambda>results. return_op (results, idfSum)))"

definition KeywordsAreSearchable :: "genv \<Rightarrow> string list \<Rightarrow> (world, bool) op" where
  "KeywordsAreSearchable G keywords =
     (if keywords = [] then return_op False else rows (\<lambda>d. lexed G keywords \<noteq> []))"

text \<open>Both fetches are one operation.\<close>

lemma hydrateKeywordHits_hydrate [simp]: "hydrateKeywordHits = hydrate"
  by (intro ext) (simp add: hydrateKeywordHits_def hydrate_def)

section \<open>Reasoning about operations\<close>

named_theorems pres_intros \<open>invariants through the combinators\<close>

lemma and_then_cases:
  "and_then m k w = (r, w') \<Longrightarrow>
     (\<exists>e w1. m w = (Inl e, w1) \<and> r = Inl e \<and> w' = w1) \<or> (\<exists>x w1. m w = (Inr x, w1) \<and> k x w1 = (r, w'))"
  by (auto simp: and_then_def split: prod.splits sum.splits)

lemma and_then_simps [simp]:
  "m w = (Inl e, w1) \<Longrightarrow> and_then m k w = (Inl e, w1)"
  "m w = (Inr x, w1) \<Longrightarrow> and_then m k w = k x w1"
  by (simp_all add: and_then_def)

lemma return_fail_simps [simp]: "return_op x w = (Inr x, w)" "fail_op e w = (Inl e, w)"
  by (simp_all add: return_op_def fail_op_def)

text \<open>
  An invariant of the database that the other writers keep, in every world, and the operations
  that keep it whatever the schedule.
\<close>

definition world_inv :: "(db \<Rightarrow> bool) \<Rightarrow> world \<Rightarrow> bool" where
  "world_inv I w = (I (w_db w) \<and> (\<forall>s \<in> set (w_sched w). \<forall>d. I d \<longrightarrow> I (st_others s d)))"

definition preserves :: "(db \<Rightarrow> bool) \<Rightarrow> (world, 'a) op \<Rightarrow> bool" where
  "preserves I m = (\<forall>w. world_inv I w \<longrightarrow> world_inv I (snd (m w)))"

lemma preservesD: "preserves I m \<Longrightarrow> world_inv I w \<Longrightarrow> world_inv I (snd (m w))"
  by (simp add: preserves_def)

lemma preserves_return [pres_intros]: "preserves I (return_op x)"
  and preserves_fail [pres_intros]: "preserves I (fail_op e)"
  by (simp_all add: preserves_def)

lemma preserves_and_then [pres_intros]:
  "preserves I m \<Longrightarrow> (\<And>x. preserves I (k x)) \<Longrightarrow> preserves I (and_then m k)"
  unfolding preserves_def and_then_def by (fastforce split: prod.splits sum.splits)

lemma preserves_stmt:
  assumes "\<And>d. I d \<Longrightarrow> I (fst (f d))"
  shows "preserves I (stmt f)"
  unfolding preserves_def
proof (intro allI impI)
  fix w assume w: "world_inv I w"
  show "world_inv I (snd (stmt f w))"
  proof (cases "w_sched w")
    case Nil
    then show ?thesis
      using w assms [of "w_db w"] by (auto simp: stmt_def world_inv_def Let_def split: prod.splits)
  next
    case (Cons s rest)
    have "I (st_others s (w_db w))" using w Cons by (simp add: world_inv_def)
    then show ?thesis
      using w Cons assms [of "st_others s (w_db w)"]
      by (auto simp: stmt_def world_inv_def Let_def split: prod.splits fault.splits)
  qed
qed

lemma preserves_encoded [pres_intros]: "preserves I m \<Longrightarrow> preserves I (encoded xs m)"
  by (simp add: encoded_def preserves_fail)

lemma preserves_exec [pres_intros]: "(\<And>d. I d \<Longrightarrow> I (f d)) \<Longrightarrow> preserves I (exec f)"
  unfolding exec_def by (rule preserves_stmt) simp

lemma preserves_rows [pres_intros]: "preserves I (rows f)"
  unfolding rows_def by (rule preserves_stmt) simp

lemma world_inv_tick [simp]: "world_inv I (w\<lparr>w_tick := n\<rparr>) = world_inv I w"
  by (simp add: world_inv_def)

lemma preserves_new_uuid [pres_intros]: "(\<And>u. preserves I (k u)) \<Longrightarrow> preserves I (new_uuid G k)"
  and preserves_time_now [pres_intros]: "(\<And>t. preserves I (l t)) \<Longrightarrow> preserves I (time_now G l)"
  by (simp_all add: preserves_def new_uuid_def time_now_def)

lemma preserves_with_ids [pres_intros]: "preserves I m \<Longrightarrow> preserves I (with_ids G ids m)"
  by (simp add: with_ids_def preserves_fail split: option.split)

lemma preserves_if [pres_intros]: "preserves I m \<Longrightarrow> preserves I n \<Longrightarrow> preserves I (if b then m else n)"
  by simp

lemma preserves_case_option [pres_intros]:
  "preserves I m \<Longrightarrow> (\<And>x. preserves I (k x)) \<Longrightarrow> preserves I (case r of None \<Rightarrow> m | Some x \<Rightarrow> k x)"
  by (simp split: option.split)

section \<open>The invariant of the database\<close>

text \<open>The fingerprint of a row is that of its text; this is what the duplicate lookup keys on.\<close>

definition hash_ok :: "db \<Rightarrow> bool" where
  "hash_ok d = (\<forall>r \<in> set (d_mems d). r_hash r = ContentHash (m_content (r_mem r)))"

definition triple_of :: "edge \<Rightarrow> uuid \<times> relationship_type \<times> uuid" where
  "triple_of e = (e_from e, e_rel e, e_to e)"

text \<open>
  Labels come from the closed set; no two edges of the merged labels join the same pair; no entity
  identity has two nodes and none is empty; no embedding is all zero and no memory has two.
\<close>

definition edges_ok :: "db \<Rightarrow> bool" where
  "edges_ok d = ((\<forall>e \<in> set (d_edges d). rel_valid (e_rel e)) \<and>
     distinct (map triple_of (filter (\<lambda>e. e_rel e \<noteq> RelContains) (d_edges d))))"

definition entities_ok :: "db \<Rightarrow> bool" where
  "entities_ok d = (distinct (map (\<lambda>n. (en_normalized n, en_project n)) (d_entities d)) \<and>
     (\<forall>n \<in> set (d_entities d). en_normalized n \<noteq> []))"

definition vecs_ok :: "db \<Rightarrow> bool" where
  "vecs_ok d = (distinct (map v_id (d_vecs d)) \<and> (\<forall>v \<in> set (d_vecs d). \<not> isZeroVector (v_vec v)))"

definition db_inv :: "db \<Rightarrow> bool" where
  "db_inv d = (hash_ok d \<and> edges_ok d \<and> entities_ok d \<and> vecs_ok d)"

lemma db_inv_mems: "db_inv d \<Longrightarrow> hash_ok (d\<lparr>d_mems := ms\<rparr>) \<Longrightarrow> db_inv (d\<lparr>d_mems := ms\<rparr>)"
  by (simp add: db_inv_def edges_ok_def entities_ok_def vecs_ok_def)

lemma db_inv_sessions: "db_inv d \<Longrightarrow> db_inv (d\<lparr>d_sessions := ss\<rparr>)"
  by (simp add: db_inv_def edges_ok_def entities_ok_def vecs_ok_def hash_ok_def)

lemma db_inv_edges: "db_inv d \<Longrightarrow> edges_ok (d\<lparr>d_edges := es\<rparr>) \<Longrightarrow> db_inv (d\<lparr>d_edges := es\<rparr>)"
  by (simp add: db_inv_def edges_ok_def entities_ok_def vecs_ok_def hash_ok_def)

lemma db_inv_vecs: "db_inv d \<Longrightarrow> vecs_ok (d\<lparr>d_vecs := vs\<rparr>) \<Longrightarrow> db_inv (d\<lparr>d_vecs := vs\<rparr>)"
  by (simp add: db_inv_def edges_ok_def entities_ok_def vecs_ok_def hash_ok_def)

lemma db_inv_entities: "db_inv d \<Longrightarrow> entities_ok (d\<lparr>d_entities := ns\<rparr>) \<Longrightarrow> db_inv (d\<lparr>d_entities := ns\<rparr>)"
  by (simp add: db_inv_def edges_ok_def entities_ok_def vecs_ok_def hash_ok_def)

lemma db_inv_map_rows:
  "db_inv d \<Longrightarrow> (\<And>r. r_hash r = ContentHash (m_content (r_mem r)) \<Longrightarrow> r_hash (f r) = ContentHash (m_content (r_mem (f r)))) \<Longrightarrow>
     db_inv (map_rows P f d)"
  unfolding map_rows_def by (rule db_inv_mems) (auto simp: db_inv_def hash_ok_def)

lemma merge_edge_ok:
  assumes "edges_ok d" "rel_valid (e_rel e)"
  shows "edges_ok (d\<lparr>d_edges := merge_edge e (d_edges d)\<rparr>)"
proof (cases "list_ex (same_triple e) (d_edges d)")
  case False
  then have "triple_of e \<notin> triple_of ` set (d_edges d)"
    by (auto simp: list_ex_iff same_triple_def triple_of_def)
  moreover have "triple_of (e\<lparr>e_created := t\<rparr>) = triple_of e" for t by (simp add: triple_of_def)
  ultimately show ?thesis using assms False by (auto simp: edges_ok_def merge_edge_def)
qed (use assms in \<open>simp add: edges_ok_def merge_edge_def\<close>)

lemma assert_edge_inv: "db_inv d \<Longrightarrow> rel_valid (e_rel e) \<Longrightarrow> db_inv (assert_edge e d)"
  unfolding assert_edge_def using merge_edge_ok db_inv_edges by (auto simp: db_inv_def)

lemma create_group_inv: "list_all (\<lambda>e. rel_valid (e_rel e)) es \<Longrightarrow> preserves db_inv (create_group G es)"
  by (induction es) (auto intro!: pres_intros intro: assert_edge_inv)

lemma create_groups_inv: "list_all (\<lambda>e. rel_valid (e_rel e)) es \<Longrightarrow> preserves db_inv (create_groups G rels es)"
  by (induction rels) (auto intro!: pres_intros create_group_inv simp: list_all_iff)

lemma link_entity_inv:
  assumes "db_inv d" "normalized \<noteq> []"
  shows "db_inv (link_entity mem normalized display i j now d)"
proof -
  let ?new = "\<lparr>en_id = i, en_name = display, en_normalized = normalized, en_project = m_project mem\<rparr>"
  let ?ents = "if list_ex (same_entity normalized (m_project mem)) (d_entities d) then d_entities d
    else d_entities d @ [?new]"
  have e: "db_inv (d\<lparr>d_entities := ?ents\<rparr>)"
  proof (rule db_inv_entities)
    show "entities_ok (d\<lparr>d_entities := ?ents\<rparr>)"
      using assms by (auto simp: db_inv_def entities_ok_def list_ex_iff same_entity_def)
  qed (rule assms)
  have v: "rel_valid RelMentions" by (simp add: rel_valid_iff RelMentions_def)
  have "db_inv ((d\<lparr>d_entities := ?ents\<rparr>)\<lparr>d_edges := merge_edge x (d_edges (d\<lparr>d_entities := ?ents\<rparr>))\<rparr>)"
    if "e_rel x = RelMentions" for x
    using e that v by (intro db_inv_edges merge_edge_ok) (auto simp: db_inv_def)
  then show ?thesis using assms e by (auto simp: link_entity_def Let_def split: option.split)
qed

lemma link_attempts_inv: "preserves I m \<Longrightarrow> preserves I (link_attempts n m e)"
proof (induction n arbitrary: e)
  case (Suc n)
  show ?case
    unfolding preserves_def
  proof (intro allI impI)
    fix w assume w: "world_inv I w"
    obtain r w' where r: "m w = (r, w')" by fastforce
    then have "world_inv I w'" using preservesD [OF Suc.prems w] by simp
    then show "world_inv I (snd (link_attempts (Suc n) m e w))"
      using r preservesD [OF Suc.IH [OF Suc.prems]] by (cases r) auto
  qed
qed (simp add: preserves_fail)

lemma link_names_inv:
  "\<forall>(n, s) \<in> set names. n \<noteq> [] \<Longrightarrow> preserves db_inv (link_names G mem now names k)"
proof (induction names arbitrary: k)
  case (Cons x names)
  obtain n s where x: "x = (n, s)" by (cases x)
  have "preserves db_inv (linkOneEntity G mem n s now)"
    unfolding linkOneEntity_def linkOneEntityOnce_def
    using Cons.prems x by (intro link_attempts_inv pres_intros link_entity_inv) auto
  then show ?case using Cons x by (auto intro!: pres_intros)
qed (simp add: preserves_return)

lemma entity_names_props:
  "distinct (map fst (entity_names names))" "(n, s) \<in> set (entity_names names) \<Longrightarrow> n \<noteq> []"
  unfolding entity_names_def by (rule first_by_distinct) (drule first_by_avoids, simp)

lemma DeleteMemory_preserves:
  assumes "\<And>d f. I d \<Longrightarrow> I (d\<lparr>d_vecs := filter f (d_vecs d)\<rparr>)" "\<And>d f. I d \<Longrightarrow> I (d\<lparr>d_entities := filter f (d_entities d)\<rparr>)"
    and "\<And>d. I d \<Longrightarrow> I (detach_delete i d)"
  shows "preserves I (DeleteMemory G i)"
proof -
  have g: "preserves I (GetMemoryEntities G [i])"
    unfolding GetMemoryEntities_def by (intro pres_intros)
  have o: "preserves I (deleteOrphanedEntities ns)" for ns
    unfolding deleteOrphanedEntities_def
    using preserves_exec [of I "\<lambda>d. d\<lparr>d_entities := filter (\<lambda>n. \<not> (en_normalized n \<in> set ns \<and> en_normalized n \<noteq> [] \<and> orphaned d n)) (d_entities d)\<rparr>"] assms(2)
    by (auto simp: preserves_def)
  have "preserves I (\<lambda>w. let (r, w) = GetMemoryEntities G [i] w; entities = (case r of Inl e \<Rightarrow> [] | Inr m \<Rightarrow> m i)
      in and_then (exec (detach_delete i)) (\<lambda>_.
        if length entities > 0 then deleteOrphanedEntities entities else return_op ()) w)"
    unfolding preserves_def
  proof (intro allI impI)
    fix w assume w: "world_inv I w"
    obtain r w' where r: "GetMemoryEntities G [i] w = (r, w')" by fastforce
    then have "world_inv I w'" using preservesD [OF g w] by simp
    moreover have "preserves I (and_then (exec (detach_delete i)) (\<lambda>_. if length es > 0 then deleteOrphanedEntities es else return_op ()))" for es
      by (intro pres_intros assms(3) o)
    ultimately show "world_inv I (snd (let (r, w) = GetMemoryEntities G [i] w; entities = (case r of Inl e \<Rightarrow> [] | Inr m \<Rightarrow> m i)
      in and_then (exec (detach_delete i)) (\<lambda>_.
        if length entities > 0 then deleteOrphanedEntities entities else return_op ()) w))"
      unfolding r Let_def prod.case by (rule preservesD [rotated])
  qed
  then show ?thesis unfolding DeleteMemory_def by (intro pres_intros assms(1))
qed

section \<open>Properties of the repository\<close>

lemma distinct_filter_weaken:
  "distinct (map f (filter P xs)) \<Longrightarrow> (\<And>x. Q x \<Longrightarrow> P x) \<Longrightarrow> distinct (map f (filter Q xs))"
proof -
  assume "distinct (map f (filter P xs))" "\<And>x. Q x \<Longrightarrow> P x"
  moreover from this(2) have "filter Q xs = filter Q (filter P xs)" by (induction xs) auto
  ultimately show ?thesis by (metis distinct_map_filter)
qed

lemma writes_preserve:
  "preserves db_inv (CreateMemory mem) \<and> preserves db_inv (IncrementAccessCounts G ids) \<and>
   preserves db_inv (IncrementAccessCount i) \<and> preserves db_inv (UpdateDecayScore i v) \<and>
   preserves db_inv (UpdateMemoryContent i h content) \<and> preserves db_inv (CreateEdge e) \<and>
   preserves db_inv (CreateEdges G es) \<and> preserves db_inv (CreateSession G sess) \<and>
   preserves db_inv (EndSession G i) \<and> preserves db_inv (LinkMemoryToSession G i j) \<and>
   preserves db_inv (LinkEntities G mem names) \<and> preserves db_inv (StoreEmbedding i p vec) \<and>
   preserves db_inv (DeleteMemory G i)"
proof (intro conjI)
  have [simp]: "\<not> isZeroVector x \<Longrightarrow> vecs_ok d \<Longrightarrow> vecs_ok (d\<lparr>d_vecs := map (\<lambda>v. if v_id v = j then v\<lparr>v_vec := x, v_project := q\<rparr> else v) (d_vecs d)\<rparr>)"
    for d j x q by (auto simp: vecs_ok_def o_def if_distrib cong: if_cong)
  have [simp]: "rel_valid RelContains" by (simp add: rel_valid_iff RelContains_def)
  show "preserves db_inv (CreateMemory mem)"
    unfolding CreateMemory_def by (intro pres_intros db_inv_mems) (auto simp: hash_ok_def db_inv_def)
  show "preserves db_inv (IncrementAccessCounts G ids)"
    unfolding IncrementAccessCounts_def by (intro pres_intros db_inv_map_rows) auto
  show "preserves db_inv (IncrementAccessCount i)"
    unfolding IncrementAccessCount_def by (intro pres_intros db_inv_map_rows) auto
  show "preserves db_inv (UpdateDecayScore i v)"
    unfolding UpdateDecayScore_def by (intro pres_intros db_inv_map_rows) auto
  show "preserves db_inv (UpdateMemoryContent i h content)"
    unfolding UpdateMemoryContent_def Let_def
    by (intro preserves_if preserves_fail preserves_stmt) (auto intro: db_inv_map_rows)
  show "preserves db_inv (CreateEdge e)"
    unfolding CreateEdge_def Let_def
    by (cases "rel_valid (e_rel e)") (auto intro!: pres_intros preserves_stmt assert_edge_inv)
  show "preserves db_inv (CreateEdges G es)"
    unfolding CreateEdges_def
    by (cases "list_all (\<lambda>e. rel_valid (e_rel e)) es") (auto intro!: pres_intros create_groups_inv)
  show "preserves db_inv (CreateSession G sess)"
    unfolding CreateSession_def by (intro pres_intros db_inv_sessions)
  show "preserves db_inv (LinkMemoryToSession G i j)"
    unfolding LinkMemoryToSession_def
    by (intro pres_intros) (auto simp: db_inv_def edges_ok_def hash_ok_def entities_ok_def vecs_ok_def)
  show "preserves db_inv (LinkEntities G mem names)"
    unfolding LinkEntities_def using entity_names_props(2) [of _ _ names]
    by (intro pres_intros link_names_inv) auto
  show "preserves db_inv (StoreEmbedding i p vec)"
  proof (cases "isZeroVector vec")
    case False
    have "vecs_ok d \<Longrightarrow> \<not> list_ex (\<lambda>v. v_id v = i) (d_vecs d) \<Longrightarrow>
        vecs_ok (d\<lparr>d_vecs := d_vecs d @ [\<lparr>v_id = i, v_project = p, v_vec = vec\<rparr>]\<rparr>)" for d
      using False by (auto simp: vecs_ok_def list_ex_iff)
    then show ?thesis
      using False unfolding StoreEmbedding_def
      by (auto intro!: pres_intros db_inv_vecs simp: db_inv_def)
  qed (simp add: StoreEmbedding_def preserves_fail)
  have f: "distinct (map g (filter P xs))" if "distinct (map g xs)" for g :: "'x \<Rightarrow> 'y" and P xs
    using that by (rule distinct_map_filter)
  show "preserves db_inv (DeleteMemory G i)"
  proof (rule DeleteMemory_preserves)
    show "db_inv d \<Longrightarrow> db_inv (d\<lparr>d_vecs := filter f (d_vecs d)\<rparr>)" for d f
      by (rule db_inv_vecs) (auto simp: db_inv_def vecs_ok_def distinct_map_filter)
    show "db_inv d \<Longrightarrow> db_inv (d\<lparr>d_entities := filter f (d_entities d)\<rparr>)" for d f
      by (rule db_inv_entities) (auto simp: db_inv_def entities_ok_def distinct_map_filter)
    show "db_inv d \<Longrightarrow> db_inv (detach_delete i d)" for d
      by (auto simp: db_inv_def hash_ok_def edges_ok_def entities_ok_def vecs_ok_def detach_delete_def
          intro: distinct_filter_weaken)
  qed
  show "preserves db_inv (EndSession G i)"
  proof -
    have e: "preserves db_inv (\<lambda>w. case sessionExists i w of
            (Inr True, w') \<Rightarrow> (Inl SessionAlreadyEnded, w') | (_, w') \<Rightarrow> (Inl SessionNotFound, w'))"
      using preserves_rows [of db_inv "\<lambda>d. is_session d i"]
      unfolding preserves_def sessionExists_def by (fastforce split: prod.splits sum.splits bool.splits)
    have "db_inv d \<Longrightarrow> db_inv (end_rows i t d)" for d t
      unfolding end_rows_def by (rule db_inv_sessions)
    then show ?thesis
      unfolding EndSession_def by (auto intro!: pres_intros e preserves_stmt)
  qed
qed


text \<open>Worlds where the other writers do nothing: statements may still fail in every way.\<close>

definition quiet :: "world \<Rightarrow> bool" where "quiet w = (\<forall>s \<in> set (w_sched w). \<forall>d. st_others s d = d)"

lemma quiet_tick [simp]: "quiet (w\<lparr>w_tick := n\<rparr>) = quiet w"
  by (simp add: quiet_def)

lemma stmt_quiet:
  assumes "quiet w" "stmt f w = (r, w')"
  shows "quiet w' \<and> ((r = Inr (snd (f (w_db w))) \<and> w_db w' = fst (f (w_db w))) \<or>
    (\<exists>e. r = Inl e \<and> w_db w' \<in> {w_db w, fst (f (w_db w))}))"
  using assms by (auto simp: stmt_def quiet_def Let_def split: list.splits prod.splits fault.splits)

lemma stmt_idle: "w_sched w = [] \<Longrightarrow> stmt f w = (Inr (snd (f (w_db w))), w\<lparr>w_db := fst (f (w_db w))\<rparr>)"
  by (simp add: stmt_def Let_def split: prod.splits)

lemma rows_idle: "w_sched w = [] \<Longrightarrow> rows f w = (Inr (f (w_db w)), w)"
  by (simp add: rows_def stmt_idle)

lemma exec_idle: "w_sched w = [] \<Longrightarrow> exec f w = (Inr (), w\<lparr>w_db := f (w_db w)\<rparr>)"
  by (simp add: exec_def stmt_idle)

lemma exec_quiet:
  "quiet w \<Longrightarrow> exec f w = (r, w') \<Longrightarrow>
     quiet w' \<and> (r = Inr () \<and> w_db w' = f (w_db w) \<or> (\<exists>e. r = Inl e) \<and> w_db w' \<in> {w_db w, f (w_db w)})"
  using stmt_quiet [of w "\<lambda>d. (f d, ())" r w'] by (auto simp: exec_def)

lemma rows_quiet: "quiet w \<Longrightarrow> rows f w = (r, w') \<Longrightarrow> quiet w' \<and> w_db w' = w_db w"
  using stmt_quiet [of w "\<lambda>d. (d, f d)" r w'] by (auto simp: rows_def)

section \<open>Compare and set\<close>

definition holds_hash :: "uuid \<Rightarrow> string \<Rightarrow> db \<Rightarrow> bool" where
  "holds_hash i h d = (\<exists>r \<in> set (d_mems d). m_id (r_mem r) = i \<and> r_hash r = h)"

lemma stmt_cases:
  assumes "stmt f w = (r, w')"
  shows "\<exists>d. (d = w_db w \<or> (\<exists>s \<in> set (w_sched w). d = st_others s (w_db w))) \<and>
    set (w_sched w') \<subseteq> set (w_sched w) \<and>
    (r = Inr (snd (f d)) \<and> w_db w' = fst (f d) \<or> (\<exists>e. r = Inl e) \<and> w_db w' \<in> {d, fst (f d)})"
  using assms by (auto simp: stmt_def Let_def split: list.splits prod.splits fault.splits)

text \<open>
  C4: content updates are a compare-and-set, so consolidation loses no update.  Once a caller has
  replaced the text it read (with one of another fingerprint), a second caller that read the same
  text cannot succeed, whatever happens in between and however its statement fares, as long as
  nobody puts the old text back; and what it leaves in the database is what the others left there.
\<close>

theorem UpdateMemoryContent_cas:
  assumes first: "UpdateMemoryContent i h content w = (Inr True, w')" and new: "ContentHash content \<noteq> h"
    and others: "\<forall>s \<in> set (w_sched w'). \<forall>d. \<not> holds_hash i h d \<longrightarrow> \<not> holds_hash i h (st_others s d)"
    and second: "UpdateMemoryContent i h content' w' = (r, w'')"
  shows "(r \<noteq> Inr True) \<and>
      (w_db w'' = w_db w' \<or> (\<exists>s \<in> set (w_sched w'). w_db w'' = st_others s (w_db w')))"
proof (rule conjI)
  define P where "P = (\<lambda>r :: mem_row. m_id (r_mem r) = i \<and> r_hash r = h)"
  define upd where "upd = (\<lambda>c d. map_rows P (\<lambda>r. r\<lparr>r_mem := (r_mem r)\<lparr>m_content := c\<rparr>, r_hash := ContentHash c\<rparr>) d)"
  have u: "UpdateMemoryContent i h c = stmt (\<lambda>d. (upd c d, list_ex P (d_mems d)))" for c
    using first by (auto simp: UpdateMemoryContent_def Let_def upd_def P_def)
  obtain d where "w_db w' = upd content d"
    using stmt_cases [OF first [unfolded u]] by auto
  moreover have "\<not> (m_id (r_mem x) = i \<and> r_hash x = h)" if "x \<in> set (d_mems (upd content d))" for x
  proof -
    have "x \<in> (\<lambda>r. if P r then r\<lparr>r_mem := (r_mem r)\<lparr>m_content := content\<rparr>, r_hash := ContentHash content\<rparr> else r) ` set (d_mems d)"
      using that unfolding upd_def map_rows_def by simp
    then obtain r where "x = (if P r then r\<lparr>r_mem := (r_mem r)\<lparr>m_content := content\<rparr>, r_hash := ContentHash content\<rparr> else r)"
      by (rule imageE)
    then show ?thesis using new by (cases "P r") (simp_all add: P_def)
  qed
  ultimately have gone: "\<not> holds_hash i h (w_db w')" unfolding holds_hash_def by metis
  obtain d2 where d2: "d2 = w_db w' \<or> (\<exists>s \<in> set (w_sched w'). d2 = st_others s (w_db w'))"
    and r: "r = Inr (list_ex P (d_mems d2)) \<and> w_db w'' = upd content' d2 \<or>
      (\<exists>e. r = Inl e) \<and> w_db w'' \<in> {d2, upd content' d2}"
    using stmt_cases [OF second [unfolded u]] by (simp only: fst_conv snd_conv) blast
  have "\<not> holds_hash i h d2" using d2 gone others by auto
  then have no: "\<forall>x \<in> set (d_mems d2). \<not> P x" by (auto simp: holds_hash_def P_def)
  then have "map_rows P f d2 = d2" for f by (simp add: map_rows_def map_idI)
  then have "upd content' d2 = d2" by (simp add: upd_def)
  then show "r \<noteq> Inr True" "w_db w'' = w_db w' \<or> (\<exists>s \<in> set (w_sched w'). w_db w'' = st_others s (w_db w'))"
    using r d2 no by (auto simp: list_ex_iff)
qed

definition sample_hash :: string where "sample_hash = ''00000000000000000000000000000000''"

definition sample_world :: "mem_row list \<Rightarrow> world" where
  "sample_world rs = \<lparr>w_db = \<lparr>d_mems = rs, d_sessions = [], d_entities = [], d_edges = [], d_vecs = []\<rparr>,
     w_sched = [], w_tick = 0\<rparr>"

definition sample_genv :: genv where
  "sample_genv = \<lparr>ge_uuid = (\<lambda>n. of_nat (n + 1000)), ge_clock = int, ge_ustr = (\<lambda>i. replicate 36 (CHR ''a'')),
     ge_cosine = (\<lambda>v u. 0), ge_tsquery = Some, ge_tsmatch = (\<lambda>m q. True), ge_tsrank = (\<lambda>m q. 1)\<rparr>"

lemma sample_plain: "isPlainUUID (ge_ustr sample_genv i)"
  by (simp add: sample_genv_def isPlainUUID_def list_all_iff code_of_def)

lemma sample_hash_ok: "IsContentHash sample_hash"
  by (simp add: IsContentHash_def sample_hash_def contentHashLen_def is_hex_lower_def is_digit_def code_of_def)

lemma ContentHash_blank: "ContentHash [] = []"
  by (simp add: ContentHash_def ContentTokens_def to_lower_def str_fields_def)

lemma UpdateMemoryContent_cas_witness:
  "\<exists>w'. UpdateMemoryContent 1 sample_hash [] (sample_world [\<lparr>r_mem = sample_memory 1 ''semantic'' ''x'', r_hash = sample_hash\<rparr>]) =
      (Inr True, w') \<and> fst (UpdateMemoryContent 1 sample_hash ''y'' w') \<noteq> Inr True"
proof -
  let ?w = "sample_world [\<lparr>r_mem = sample_memory 1 ''semantic'' ''x'', r_hash = sample_hash\<rparr>]"
  obtain r w' where f: "UpdateMemoryContent 1 sample_hash [] ?w = (r, w')" by fastforce
  then have "r = Inr True" "w_sched w' = []"
    by (auto simp: UpdateMemoryContent_def sample_hash_ok stmt_idle sample_world_def sample_memory_def Let_def)
  moreover have "fst (UpdateMemoryContent 1 sample_hash ''y'' w') \<noteq> Inr True"
    by (rule UpdateMemoryContent_cas [THEN conjunct1, of 1 sample_hash "[]" ?w w' "''y''"])
      (use f calculation in \<open>simp_all add: ContentHash_blank sample_hash_def prod_eq_iff\<close>)
  ultimately show ?thesis using f by blast
qed

section \<open>Literals\<close>

text \<open>How Cypher reads a list of quoted strings: a quote opens an item, the next one closes it.\<close>

datatype lit_state = Expect | Inside string | After

fun read_items :: "lit_state \<Rightarrow> string \<Rightarrow> string list option" where
  "read_items st [] = None"
| "read_items Expect (c # s) = (if c = squote then read_items (Inside []) s else None)"
| "read_items (Inside acc) (c # s) =
     (if c = CHR 0x5C then None
      else if c = squote then map_option ((#) (rev acc)) (read_items After s)
      else read_items (Inside (c # acc)) s)"
| "read_items After (c # s) =
     (if c = CHR '','' then read_items Expect s
      else if c = CHR '']'' then (if s = [] then Some [] else None) else None)"

definition read_list :: "string \<Rightarrow> string list option" where
  "read_list s = (if s = ''[]'' then Some []
     else if s \<noteq> [] \<and> hd s = CHR ''['' then read_items Expect (tl s) else None)"

definition inert :: "string \<Rightarrow> bool" where "inert s = (squote \<notin> set s \<and> CHR 0x5C \<notin> set s)"

lemma read_inside: "inert s \<Longrightarrow> read_items (Inside acc) (s @ squote # rest) =
    map_option ((#) (rev acc @ s)) (read_items After rest)"
  by (induction s arbitrary: acc) (auto simp: inert_def squote_def)

lemma read_literal_items:
  assumes guard: "\<And>s. guard s \<Longrightarrow> inert s"
  shows "literal_items guard (s # ss) True = Some b \<Longrightarrow> read_items Expect (b @ '']'') = Some (s # ss)"
proof -
  have rest: "literal_items guard xs False = Some b \<Longrightarrow> read_items After (b @ '']'') = Some xs" for xs b
  proof (induction xs arbitrary: b)
    case (Cons x xs)
    then obtain r where "guard x" "literal_items guard xs False = Some r" "b = '','' @ quote x @ r"
      by (auto split: if_splits)
    then show ?case using Cons.IH [of r] read_inside [OF guard, of x "[]" "r @ '']''"]
      by (simp add: quote_def squote_def)
  qed simp
  assume "literal_items guard (s # ss) True = Some b"
  then obtain r where "guard s" "literal_items guard ss False = Some r" "b = quote s @ r"
    by (auto split: if_splits)
  then show ?thesis using rest [of ss r] read_inside [OF guard, of s "[]" "r @ '']''"]
    by (simp add: quote_def)
qed

lemma read_list_items:
  assumes "\<And>s. guard s \<Longrightarrow> inert s" "literal_items guard xs True = Some b"
  shows "read_list (''['' @ b @ '']'') = Some xs"
proof (cases xs)
  case (Cons s ss)
  then have "hd b = squote" "b \<noteq> []" using assms(2) by (auto simp: quote_def split: if_splits)
  then have "''['' @ b @ '']'' \<noteq> ''[]''" by (cases b) auto
  then show ?thesis
    using read_literal_items [of guard s ss b] assms Cons by (simp add: read_list_def)
qed (use assms in \<open>simp add: read_list_def\<close>)

lemma isPlainUUID_inert: "isPlainUUID s \<Longrightarrow> inert s"
  by (auto simp: isPlainUUID_def inert_def list_all_iff is_digit_def squote_def code_of_def)

lemma IsContentHash_inert: "IsContentHash s \<Longrightarrow> inert s"
  by (auto simp: IsContentHash_def inert_def list_all_iff is_hex_lower_def is_digit_def squote_def code_of_def)

text \<open>
  C26: inlining ids and hashes into query text cannot inject.  Whatever the id renderer returns and
  whatever strings are passed as hashes, a literal that is produced reads back, as Cypher reads a
  list of quoted strings, to exactly the ids, or the non-empty hashes, that were given; anything
  the guards do not recognise produces no literal at all.
\<close>

theorem literals_read_back:
  shows "(uuidLiteralList G ids = Some lit \<longrightarrow> read_list lit = Some (map (ge_ustr G) ids)) \<and>
      (contentHashLiteralList hashes = Some (Some lit) \<longrightarrow> read_list lit = Some (filter (\<lambda>h. h \<noteq> []) hashes)) \<and>
      ((\<exists>i \<in> set ids. \<not> isPlainUUID (ge_ustr G i)) \<longrightarrow> uuidLiteralList G ids = None) \<and>
      ((\<exists>h \<in> set hashes. h \<noteq> [] \<and> \<not> IsContentHash h) \<longrightarrow> contentHashLiteralList hashes = None)"
proof (rule conjI4)
  have none: "literal_items g xs first = None" if "x \<in> set xs" "\<not> g x" for g xs first and x :: string
    using that by (induction g xs first rule: literal_items.induct) auto
  show "uuidLiteralList G ids = Some lit \<longrightarrow> read_list lit = Some (map (ge_ustr G) ids)"
    using read_list_items [of isPlainUUID] isPlainUUID_inert by (fastforce simp: uuidLiteralList_def)
  show "contentHashLiteralList hashes = Some (Some lit) \<longrightarrow> read_list lit = Some (filter (\<lambda>h. h \<noteq> []) hashes)"
    using read_list_items [of IsContentHash] IsContentHash_inert
    by (fastforce simp: contentHashLiteralList_def Let_def split: if_splits)
  show "(\<exists>i \<in> set ids. \<not> isPlainUUID (ge_ustr G i)) \<longrightarrow> uuidLiteralList G ids = None"
    using none [of _ "map (ge_ustr G) ids" isPlainUUID] by (auto simp: uuidLiteralList_def)
  show "(\<exists>h \<in> set hashes. h \<noteq> [] \<and> \<not> IsContentHash h) \<longrightarrow> contentHashLiteralList hashes = None"
    using none [of _ "filter (\<lambda>h. h \<noteq> []) hashes" IsContentHash] by (auto simp: contentHashLiteralList_def Let_def)
qed

lemma literals_read_back_witness:
  "contentHashLiteralList [''x''] = None" 
  by (rule literals_read_back [THEN conjunct2, THEN conjunct2, THEN conjunct2, rule_format]) (simp add: IsContentHash_def contentHashLen_def)

section \<open>Duplicate lookup\<close>

lemma key_rows_spec:
  "key_rows ms found (h, t) = Some m \<longleftrightarrow>
     found (h, t) = Some m \<or>
     found (h, t) = None \<and> h \<noteq> [] \<and> (\<exists>xs ys. ms = xs @ m # ys \<and> ContentHash (m_content m) = h \<and> m_type m = t \<and>
       (\<forall>x \<in> set xs. \<not> (ContentHash (m_content x) = h \<and> m_type x = t)))"
proof (induction ms arbitrary: found)
  case (Cons a ms)
  let ?k = "(ContentHash (m_content a), m_type a)"
  have split: "(\<exists>xs ys. a # ms = xs @ m # ys \<and> Q m \<and> (\<forall>x \<in> set xs. \<not> Q x)) \<longleftrightarrow>
      (a = m \<and> Q m) \<or> (\<not> Q a \<and> (\<exists>xs ys. ms = xs @ m # ys \<and> Q m \<and> (\<forall>x \<in> set xs. \<not> Q x)))" for Q
    by (auto simp: Cons_eq_append_conv) (metis append_Cons set_ConsD append_Nil list.set_intros empty_iff empty_set)+
  show ?case
    using split [of "\<lambda>m. ContentHash (m_content m) = h \<and> m_type m = t"]
    by (auto simp: Let_def Cons.IH)
qed simp

text \<open>
  The duplicate lookup is exact.  On a database whose hashes are those of its contents, looking
  up produced hashes in a project finds, under a hash and a type, a memory exactly when the project
  holds one with that content fingerprint and that type, and what it returns is such a memory of
  that project; one type never answers for another.
\<close>

lemma FindByContentHash_exact:
  assumes "hash_ok (w_db w)" "w_sched w = []" "p \<noteq> []" "\<forall>h \<in> set hs. h = [] \<or> IsContentHash h"
  shows "\<exists>found. FindByContentHash p hs w = (Inr found, w) \<and>
    (\<forall>h t. found (h, t) \<noteq> None \<longleftrightarrow> h \<in> set hs \<and> h \<noteq> [] \<and>
       (\<exists>r \<in> set (d_mems (w_db w)). m_project (r_mem r) = p \<and> ContentHash (m_content (r_mem r)) = h \<and> m_type (r_mem r) = t)) \<and>
    (\<forall>h t m. found (h, t) = Some m \<longrightarrow> ContentHash (m_content m) = h \<and> m_type m = t \<and>
       (\<exists>r \<in> set (d_mems (w_db w)). m = toModel r \<and> m_project m = p))"
proof -
  let ?rs = "filter (\<lambda>r. m_project (r_mem r) = p \<and> r_hash r \<in> set hs \<and> r_hash r \<noteq> []) (d_mems (w_db w))"
  let ?found = "key_rows (map toModel ?rs) Map.empty"
  have tm: "m_content (toModel r) = m_content (r_mem r)" "m_type (toModel r) = m_type (r_mem r)"
    "m_project (toModel r) = m_project (r_mem r)" for r by (simp_all add: toModel_def)
  have hash: "r_hash r = ContentHash (m_content (r_mem r))" if "r \<in> set (d_mems (w_db w))" for r
    using assms(1) that by (simp add: hash_ok_def)
  show ?thesis
  proof (cases "filter (\<lambda>h. h \<noteq> []) hs = []")
    case True
    then have "FindByContentHash p hs w = (Inr Map.empty, w)"
      using assms(3) by (simp add: FindByContentHash_def contentHashLiteralList_def)
    then show ?thesis using True by (auto simp: filter_empty_conv)
  next
    case False
    have "literal_items IsContentHash xs first \<noteq> None" if "\<forall>x \<in> set xs. IsContentHash x" for xs first
      using that by (induction IsContentHash xs first rule: literal_items.induct) auto
    from this [of "filter (\<lambda>h. h \<noteq> []) hs" True] obtain b where
      "literal_items IsContentHash (filter (\<lambda>h. h \<noteq> []) hs) True = Some b" using assms(4) by auto
    then have f: "FindByContentHash p hs w = (Inr ?found, w)"
      using False assms(2,3) by (auto simp: FindByContentHash_def contentHashLiteralList_def Let_def rows_idle)
    have sound: "ContentHash (m_content m) = h \<and> m_type m = t \<and> h \<noteq> [] \<and>
        (\<exists>r \<in> set ?rs. m = toModel r)" if "?found (h, t) = Some m" for h t m
    proof -
      obtain xs ys where "map toModel ?rs = xs @ m # ys" and k: "ContentHash (m_content m) = h" "m_type m = t" "h \<noteq> []"
        using \<open>?found (h, t) = Some m\<close> unfolding key_rows_spec by auto
      then have "m \<in> set (map toModel ?rs)" by (metis in_set_conv_decomp)
      then show ?thesis using k by auto
    qed
    have complete: "?found (h, t) \<noteq> None" if "r \<in> set ?rs" "ContentHash (m_content (r_mem r)) = h" "m_type (r_mem r) = t" for r h t
    proof -
      have "toModel r \<in> set (map toModel ?rs)" unfolding set_map using that(1) by (rule imageI)
      then have "\<exists>x \<in> set (map toModel ?rs). ContentHash (m_content x) = h \<and> m_type x = t"
        using that(2,3) by (intro bexI [of _ "toModel r"]) (simp_all only: tm simp_thms)
      from split_list_first_prop [OF this] obtain xs m ys where
        "map toModel ?rs = xs @ m # ys" "ContentHash (m_content m) = h \<and> m_type m = t"
        "\<forall>x \<in> set xs. \<not> (ContentHash (m_content x) = h \<and> m_type x = t)" by blast
      moreover have "h \<noteq> []" using that(1,2) hash [of r] by simp
      ultimately have "?found (h, t) = Some m" unfolding key_rows_spec by blast
      then show ?thesis by simp
    qed
    have "?found (h, t) \<noteq> None \<longleftrightarrow> h \<in> set hs \<and> h \<noteq> [] \<and> (\<exists>r \<in> set (d_mems (w_db w)).
        m_project (r_mem r) = p \<and> ContentHash (m_content (r_mem r)) = h \<and> m_type (r_mem r) = t)" for h t
    proof
      assume "?found (h, t) \<noteq> None"
      then obtain m where "?found (h, t) = Some m" by auto
      then obtain r where r: "r \<in> set ?rs" "m = toModel r" and "ContentHash (m_content m) = h" "m_type m = t" "h \<noteq> []"
        using sound by blast
      then show "h \<in> set hs \<and> h \<noteq> [] \<and> (\<exists>r \<in> set (d_mems (w_db w)).
          m_project (r_mem r) = p \<and> ContentHash (m_content (r_mem r)) = h \<and> m_type (r_mem r) = t)"
        using hash [of r] by (auto simp: tm)
    next
      assume "h \<in> set hs \<and> h \<noteq> [] \<and> (\<exists>r \<in> set (d_mems (w_db w)).
          m_project (r_mem r) = p \<and> ContentHash (m_content (r_mem r)) = h \<and> m_type (r_mem r) = t)"
      then obtain r where r: "r \<in> set (d_mems (w_db w))" "m_project (r_mem r) = p"
          "ContentHash (m_content (r_mem r)) = h" "m_type (r_mem r) = t" and "h \<in> set hs" "h \<noteq> []" by blast
      then have "r \<in> set ?rs" "ContentHash (m_content (r_mem r)) = h" "m_type (r_mem r) = t"
        using hash [OF r(1)] by simp_all
      then show "?found (h, t) \<noteq> None" by (rule complete)
    qed
    moreover have "ContentHash (m_content m) = h \<and> m_type m = t \<and>
        (\<exists>r \<in> set (d_mems (w_db w)). m = toModel r \<and> m_project m = p)" if "?found (h, t) = Some m" for h t m
      using sound [OF that] by (auto simp: tm)
    ultimately show ?thesis using f by blast
  qed
qed

section \<open>Deletion\<close>

lemma with_ids_cases: "with_ids G ids m w = (r, w') \<Longrightarrow> r = Inl NotAUuid \<and> w' = w \<or> m w = (r, w')"
  by (auto simp: with_ids_def split: option.splits)

lemma GetMemoryEntities_quiet:
  "quiet w \<Longrightarrow> GetMemoryEntities G ids w = (r, w') \<Longrightarrow> quiet w' \<and> w_db w' = w_db w"
proof -
  let ?f = "\<lambda>d i. if i \<in> set ids \<and> is_mem d i then filter (\<lambda>n. n \<noteq> []) (map en_normalized (mentioned d i)) else []"
  assume q: "quiet w" and r: "GetMemoryEntities G ids w = (r, w')"
  show ?thesis
  proof (cases "ids = []")
    case True
    then show ?thesis using q r by (simp add: GetMemoryEntities_def)
  next
    case False
    then have "with_ids G ids (rows ?f) w = (r, w')" using r by (simp add: GetMemoryEntities_def)
    from with_ids_cases [OF this] show ?thesis using q rows_quiet [OF q] by auto
  qed
qed

lemma GetMemoryEntities_idle: "w_sched w = [] \<Longrightarrow> \<exists>r. GetMemoryEntities G ids w = (r, w)"
  by (auto simp: GetMemoryEntities_def with_ids_def rows_idle split: option.split)

lemma deleteOrphaned_quiet:
  assumes "quiet w" "deleteOrphanedEntities ns w = (r, w')"
  shows "r = Inr ()" "\<exists>es. w_db w' = (w_db w)\<lparr>d_entities := es\<rparr>"
proof -
  let ?f = "\<lambda>d. d\<lparr>d_entities := filter (\<lambda>n. \<not> (en_normalized n \<in> set ns \<and> en_normalized n \<noteq> [] \<and> orphaned d n)) (d_entities d)\<rparr>"
  obtain r' w1 where x: "exec ?f w = (r', w1)" by fastforce
  then have "w_db w1 \<in> {w_db w, ?f (w_db w)}" using exec_quiet [OF assms(1) x] by auto
  then have "w_db w1 = (w_db w)\<lparr>d_entities := d_entities (w_db w1)\<rparr>" by (elim insertE emptyE) simp_all
  then have "\<exists>es. w_db w1 = (w_db w)\<lparr>d_entities := es\<rparr>" by (rule exI)
  then show "r = Inr ()" "\<exists>es. w_db w' = (w_db w)\<lparr>d_entities := es\<rparr>"
    using assms(2) x by (auto simp: deleteOrphanedEntities_def split: if_splits intro: exI [of _ "d_entities (w_db w)"])
qed

lemma is_mem_iff: "is_mem d i \<longleftrightarrow> (\<exists>r \<in> set (d_mems d). m_id (r_mem r) = i)"
  by (auto simp: is_mem_def list_ex_iff)

lemma detach_delete_gone: "\<not> is_mem (detach_delete i d) i"
  by (auto simp: is_mem_iff detach_delete_def)

lemma DeleteMemory_quiet:
  assumes q: "quiet w" and r: "DeleteMemory G i w = (r, w')"
  shows "(\<exists>e. r = Inl e) \<and> w_db w' = w_db w \<or>
    (\<exists>vs es d. vs = filter (\<lambda>v. v_id v \<noteq> i) (d_vecs (w_db w)) \<and>
       d = (w_db w)\<lparr>d_vecs := vs\<rparr> \<and>
       ((\<exists>e. r = Inl e) \<and> w_db w' = d \<or> w_db w' = (detach_delete i d)\<lparr>d_entities := es\<rparr>))"
proof -
  let ?d = "(w_db w)\<lparr>d_vecs := filter (\<lambda>v. v_id v \<noteq> i) (d_vecs (w_db w))\<rparr>"
  have self: "x = x\<lparr>d_entities := d_entities x\<rparr>" for x :: db by simp
  obtain r1 w1 where s1: "exec (\<lambda>d. d\<lparr>d_vecs := filter (\<lambda>v. v_id v \<noteq> i) (d_vecs d)\<rparr>) w = (r1, w1)" by fastforce
  obtain r2 w2 where s2: "GetMemoryEntities G [i] w1 = (r2, w2)" by fastforce
  obtain r3 w3 where s3: "exec (detach_delete i) w2 = (r3, w3)" by fastforce
  have q1: "quiet w1" and d1: "r1 = Inr () \<and> w_db w1 = ?d \<or> (\<exists>e. r1 = Inl e) \<and> w_db w1 \<in> {w_db w, ?d}"
    using exec_quiet [OF q s1] by auto
  have q2: "quiet w2" "w_db w2 = w_db w1" using GetMemoryEntities_quiet [OF q1 s2] by auto
  have q3: "quiet w3" and d3: "r3 = Inr () \<and> w_db w3 = detach_delete i (w_db w2) \<or>
      (\<exists>e. r3 = Inl e) \<and> w_db w3 \<in> {w_db w2, detach_delete i (w_db w2)}"
    using exec_quiet [OF q2(1) s3] by auto
  show ?thesis
  proof (cases r1)
    case (Inl e)
    then have "r = Inl e" "w' = w1" using r s1 by (simp_all add: DeleteMemory_def)
    then show ?thesis using d1 Inl by auto
  next
    case (Inr u)
    let ?es = "case r2 of Inl e \<Rightarrow> [] | Inr m \<Rightarrow> m i"
    have r': "and_then (exec (detach_delete i)) (\<lambda>_. if length ?es > 0 then deleteOrphanedEntities ?es else return_op ()) w2 = (r, w')"
      using r s1 Inr s2 by (simp only: DeleteMemory_def and_then_simps Let_def prod.case)
    have d2: "w_db w2 = ?d" using d1 Inr q2(2) by auto
    show ?thesis
    proof (cases r3)
      case (Inl e)
      then have re: "r = Inl e" "w' = w3" using r' s3 by simp_all
      then have "w_db w' = ?d \<or> w_db w' = (detach_delete i ?d)\<lparr>d_entities := d_entities (detach_delete i ?d)\<rparr>"
        using d3 d2 Inl by (auto simp flip: self)
      then show ?thesis using re(1) by blast
    next
      case (Inr u)
      then have d3': "w_db w3 = detach_delete i ?d" using d3 d2 by auto
      have "(if length ?es > 0 then deleteOrphanedEntities ?es else return_op ()) w3 = (r, w')"
        using r' s3 Inr by (simp only: and_then_simps)
      moreover have "\<exists>es. w_db w3 = (w_db w3)\<lparr>d_entities := es\<rparr>" using self by (rule exI)
      ultimately have "\<exists>es. w_db w' = (w_db w3)\<lparr>d_entities := es\<rparr>"
        using deleteOrphaned_quiet(2) [OF q3] by (cases "?es = []") (simp_all del: simp_thms(6))
      then show ?thesis unfolding d3' by blast
    qed
  qed
qed

lemma DeleteMemory_idle: "w_sched w = [] \<Longrightarrow> fst (DeleteMemory G i w) = Inr ()"
proof -
  assume i: "w_sched w = []"
  let ?w1 = "w\<lparr>w_db := (w_db w)\<lparr>d_vecs := filter (\<lambda>v. v_id v \<noteq> i) (d_vecs (w_db w))\<rparr>\<rparr>"
  have w1: "exec (\<lambda>d. d\<lparr>d_vecs := filter (\<lambda>v. v_id v \<noteq> i) (d_vecs d)\<rparr>) w = (Inr (), ?w1)"
    using i by (simp add: exec_idle)
  obtain r where g: "GetMemoryEntities G [i] ?w1 = (r, ?w1)" using GetMemoryEntities_idle [of ?w1 G "[i]"] i by auto
  have e: "exec (detach_delete i) ?w1 = (Inr (), ?w1\<lparr>w_db := detach_delete i (w_db ?w1)\<rparr>)"
    using i by (simp add: exec_idle)
  show ?thesis
    unfolding DeleteMemory_def and_then_simps(2) [where m = "exec f" for f, OF w1] g Let_def prod.case
      and_then_simps(2) [where m = "exec f" for f, OF e]
    by (simp add: deleteOrphanedEntities_def)
qed



section \<open>Entity linking and lookup\<close>

definition linked :: "db \<Rightarrow> memory \<Rightarrow> string \<Rightarrow> bool" where
  "linked d mem n = (\<exists>en \<in> set (d_entities d). same_entity n (m_project mem) en \<and>
     (\<exists>e \<in> set (d_edges d). e_rel e = RelMentions \<and> e_from e = m_id mem \<and> e_to e = en_id en))"

lemma merge_edge_mono: "set es \<subseteq> set (merge_edge e es)"
  by (auto simp: merge_edge_def)

lemma merge_edge_has: "\<exists>f \<in> set (merge_edge e es). same_triple e f"
  by (auto simp: merge_edge_def list_ex_iff same_triple_def)

definition has_row :: "db \<Rightarrow> memory \<Rightarrow> bool" where
  "has_row d mem = list_ex (\<lambda>r. m_id (r_mem r) = m_id mem \<and> m_project (r_mem r) = m_project mem) (d_mems d)"

lemma link_entity_linked:
  assumes "has_row d mem"
  shows "linked (link_entity mem n s i j now d) mem n"
    and "linked d mem' n' \<Longrightarrow> linked (link_entity mem n s i j now d) mem' n'"
    and "d_mems (link_entity mem n s i j now d) = d_mems d"
proof -
  let ?new = "\<lparr>en_id = i, en_name = s, en_normalized = n, en_project = m_project mem\<rparr>"
  let ?ents = "if list_ex (same_entity n (m_project mem)) (d_entities d) then d_entities d else d_entities d @ [?new]"
  have "\<exists>en \<in> set ?ents. same_entity n (m_project mem) en" by (auto simp: list_ex_iff same_entity_def)
  then have "find (same_entity n (m_project mem)) ?ents \<noteq> None" unfolding find_None_iff by blast
  then obtain en where f: "find (same_entity n (m_project mem)) ?ents = Some en" by auto
  then have en: "en \<in> set ?ents" "same_entity n (m_project mem) en" unfolding find_Some_iff by (metis nth_mem)+
  let ?e = "\<lparr>e_id = j, e_from = m_id mem, e_to = en_id en, e_rel = RelMentions, e_weight = 1, e_created = now\<rparr>"
  have le: "link_entity mem n s i j now d = d\<lparr>d_entities := ?ents, d_edges := merge_edge ?e (d_edges d)\<rparr>"
    using assms f by (simp only: link_entity_def has_row_def Let_def simp_thms if_False option.case)
  show "linked (link_entity mem n s i j now d) mem n"
  proof -
    obtain f where "f \<in> set (merge_edge ?e (d_edges d))" "same_triple ?e f" using merge_edge_has by blast
    then show ?thesis
      using en unfolding le linked_def by (intro bexI [of _ en] conjI bexI [of _ f]) (simp_all add: same_triple_def)
  qed
  show "linked (link_entity mem n s i j now d) mem' n'" if "linked d mem' n'"
    using that merge_edge_mono [of "d_edges d" ?e] unfolding le linked_def by (auto 4 4)
  show "d_mems (link_entity mem n s i j now d) = d_mems d" unfolding le by simp
qed

lemma linkOneEntity_idle:
  "w_sched w = [] \<Longrightarrow> linkOneEntity G mem n s now w =
     (Inr (), w\<lparr>w_tick := w_tick w + 2, w_db := link_entity mem n s (ge_uuid G (w_tick w)) (ge_uuid G (Suc (w_tick w))) now (w_db w)\<rparr>)"
  by (simp add: linkOneEntity_def linkOneEntityOnce_def entityLinkAttempts_def eval_nat_numeral rows_idle
      new_uuid_def exec_idle)

lemma link_names_idle:
  "w_sched w = [] \<Longrightarrow> has_row (w_db w) mem \<Longrightarrow>
     \<exists>w'. link_names G mem now names k w = (Inr (k + length names), w') \<and> w_sched w' = [] \<and>
       d_mems (w_db w') = d_mems (w_db w) \<and> (\<forall>n \<in> fst ` set names. linked (w_db w') mem n) \<and>
       (\<forall>n. linked (w_db w) mem n \<longrightarrow> linked (w_db w') mem n)"
proof (induction names arbitrary: k w)
  case (Cons x names)
  obtain n s where x: "x = (n, s)" by (cases x)
  let ?d = "link_entity mem n s (ge_uuid G (w_tick w)) (ge_uuid G (Suc (w_tick w))) now (w_db w)"
  let ?w = "w\<lparr>w_tick := w_tick w + 2, w_db := ?d\<rparr>"
  have m: "d_mems ?d = d_mems (w_db w)" using link_entity_linked(3) Cons.prems(2) by blast
  then have "has_row (w_db ?w) mem" using Cons.prems(2) by (simp add: has_row_def)
  then obtain w' where w': "link_names G mem now names (Suc k) ?w = (Inr (Suc k + length names), w')" "w_sched w' = []"
      "d_mems (w_db w') = d_mems ?d" "\<forall>n \<in> fst ` set names. linked (w_db w') mem n"
      "\<forall>n. linked ?d mem n \<longrightarrow> linked (w_db w') mem n"
    using Cons.IH [of ?w "Suc k"] Cons.prems(1) by auto
  have "link_names G mem now (x # names) k w = (Inr (k + length (x # names)), w')"
    using w'(1) linkOneEntity_idle [OF Cons.prems(1)] x by simp
  moreover have "linked ?d mem n" "\<forall>n'. linked (w_db w) mem n' \<longrightarrow> linked ?d mem n'"
    using link_entity_linked(1,2) [OF Cons.prems(2)] by blast+
  ultimately show ?case using w' m x by auto
qed simp

lemma linked_mentioned:
  "list_ex (\<lambda>n. en_project n = m_project mem \<and> en_normalized n \<in> S) (mentioned d (m_id mem)) \<longleftrightarrow>
     (\<exists>n \<in> S. linked d mem n)"
proof -
  have "n \<in> set (mentioned d i) \<longleftrightarrow> n \<in> set (d_entities d) \<and>
      (\<exists>e \<in> set (d_edges d). e_rel e = RelMentions \<and> e_from e = i \<and> e_to e = en_id n)" for n i
    by (auto simp: mentioned_def)
  then show ?thesis unfolding list_ex_iff linked_def same_entity_def by blast
qed

lemma with_ids_plain: "\<forall>i \<in> set ids. isPlainUUID (ge_ustr G i) \<Longrightarrow> with_ids G ids m = m"
proof -
  assume a: "\<forall>i \<in> set ids. isPlainUUID (ge_ustr G i)"
  have "literal_items isPlainUUID xs first \<noteq> None" if "\<forall>x \<in> set xs. isPlainUUID x" for xs first
    using that by (induction isPlainUUID xs first rule: literal_items.induct) auto
  from this [of "map (ge_ustr G) ids" True] a
  obtain b where "literal_items isPlainUUID (map (ge_ustr G) ids) True = Some b" by auto
  then show ?thesis by (simp add: with_ids_def uuidLiteralList_def)
qed

lemma first_by_keys_all: "fst ` set (first_by fst (\<lambda>n. n = []) {} xs) = {n \<in> fst ` set xs. n \<noteq> []}"
  using first_by_key_set [of fst "\<lambda>n. n = []" "{}" xs] by auto

lemma set_normalized_names: "set (normalized_names names) = {n \<in> NormalizeEntity ` set names. n \<noteq> []}"
  using first_by_key_set [of "\<lambda>n. n" "\<lambda>n. n = []" "{}" "map NormalizeEntity names"]
  by (simp add: normalized_names_def)



text \<open>One try of \<open>linkOneEntityOnce\<close>: three statements, of which the last may lose the race.\<close>

definition try_round :: "fault \<Rightarrow> step list \<Rightarrow> bool" where
  "try_round f ss = (length ss = 3 \<and> map st_fault ss = [Works, Works, f])"

lemma try_roundE: "try_round f ss \<Longrightarrow> (\<And>a b c. ss = [a, b, c] \<Longrightarrow> st_fault a = Works \<Longrightarrow> st_fault b = Works \<Longrightarrow>
    st_fault c = f \<Longrightarrow> thesis) \<Longrightarrow> thesis"
  by (auto simp: try_round_def length_Suc_conv numeral_3_eq_3)

definition keeps_row :: "memory \<Rightarrow> step list \<Rightarrow> bool" where
  "keeps_row mem ss = (\<forall>s \<in> set ss. \<forall>d. has_row d mem \<longrightarrow> has_row (st_others s d) mem)"

lemma linkOneEntityOnce_round:
  assumes "w_sched w = ss @ rest" "try_round f ss" "keeps_row mem ss" "has_row (w_db w) mem"
  shows "f = Works \<Longrightarrow> \<exists>w'. linkOneEntityOnce G mem n s now w = (Inr (), w') \<and> w_sched w' = rest \<and> linked (w_db w') mem n"
    and "f = Raced \<Longrightarrow> \<exists>w'. linkOneEntityOnce G mem n s now w = (Inl ConcurrentUpdate, w') \<and> w_sched w' = rest \<and>
      has_row (w_db w') mem"
proof -
  obtain a b c where ss: "ss = [a, b, c]" "st_fault a = Works" "st_fault b = Works" "st_fault c = f"
    using assms(2) by (rule try_roundE)
  let ?d = "st_others c (st_others b (st_others a (w_db w)))"
  have row: "has_row ?d mem" using assms(3,4) by (simp add: keeps_row_def ss)
  note run = linkOneEntityOnce_def and_then_def rows_def exec_def new_uuid_def stmt_def Let_def assms(1) ss
  show "\<exists>w'. linkOneEntityOnce G mem n s now w = (Inr (), w') \<and> w_sched w' = rest \<and> linked (w_db w') mem n" if "f = Works"
    using link_entity_linked(1) [OF row] that by (simp add: run)
  show "\<exists>w'. linkOneEntityOnce G mem n s now w = (Inl ConcurrentUpdate, w') \<and> w_sched w' = rest \<and> has_row (w_db w') mem"
    if "f = Raced" using row that by (simp add: run)
qed

lemma link_attempts_retry:
  assumes "w_sched w = concat lost @ ss @ rest" "list_all (try_round Raced) lost" "length lost < n"
    and "try_round Works ss" "keeps_row mem (w_sched w)" "has_row (w_db w) mem"
  shows "\<exists>w'. link_attempts n (linkOneEntityOnce G mem nm s now) e w = (Inr (), w') \<and> w_sched w' = rest \<and>
    linked (w_db w') mem nm"
  using assms
proof (induction n arbitrary: w e lost)
  case (Suc n)
  show ?case
  proof (cases lost)
    case Nil
    then obtain w' where "linkOneEntityOnce G mem nm s now w = (Inr (), w')" "w_sched w' = rest" "linked (w_db w') mem nm"
      using linkOneEntityOnce_round(1) [of w ss rest Works mem G nm s now] Suc.prems by (auto simp: keeps_row_def)
    then show ?thesis by simp
  next
    case (Cons l lost')
    then obtain w' where w': "linkOneEntityOnce G mem nm s now w = (Inl ConcurrentUpdate, w')"
        "w_sched w' = concat lost' @ ss @ rest" "has_row (w_db w') mem"
      using linkOneEntityOnce_round(2) [of w l "concat lost' @ ss @ rest" Raced mem G nm s now] Suc.prems by (auto simp: keeps_row_def)
    have "keeps_row mem (w_sched w')" using Suc.prems(1,5) Cons w'(2) by (auto simp: keeps_row_def)
    then show ?thesis
      using Suc.IH [OF w'(2) _ _ Suc.prems(4) _ w'(3), of ConcurrentUpdate] Suc.prems(2,3) Cons w'(1) by auto
  qed
qed simp

text \<open>
  C21: losing a race does not lose the link.  If at most two tries of \<open>linkOneEntity\<close> fail on a
  concurrent update and the next one goes through, it succeeds, has used no statement beyond that
  try, and the memory mentions the entity, whatever the other writers did in between, as long as
  they left the memory's row in its project.
\<close>

theorem linkOneEntity_survives_races:
  assumes "w_sched w = concat lost @ ss @ rest" "list_all (try_round Raced) lost" "length lost \<le> 2"
    and "try_round Works ss" "keeps_row mem (w_sched w)" "has_row (w_db w) mem"
  shows "\<exists>w'. linkOneEntity G mem n s now w = (Inr (), w') \<and> w_sched w' = rest \<and> linked (w_db w') mem n"
  unfolding linkOneEntity_def using link_attempts_retry [OF assms(1,2) _ assms(4-6)] assms(3)
  by (simp add: entityLinkAttempts_def)

lemma linkOneEntity_survives_races_witness:
  "\<exists>w'. linkOneEntity sample_genv (sample_memory 1 ''semantic'' ''x'') ''biscuit'' ''Biscuit'' 0
     ((sample_world [\<lparr>r_mem = sample_memory 1 ''semantic'' ''x'', r_hash = []\<rparr>])
        \<lparr>w_sched := map (\<lambda>f. \<lparr>st_others = (\<lambda>d. d), st_fault = f\<rparr>) [Works, Works, Raced, Works, Works, Works, Lost]\<rparr>)
     = (Inr (), w')"
proof -
  let ?s = "\<lambda>f. \<lparr>st_others = (\<lambda>d :: db. d), st_fault = f\<rparr>"
  let ?w = "(sample_world [\<lparr>r_mem = sample_memory 1 ''semantic'' ''x'', r_hash = []\<rparr>])
      \<lparr>w_sched := map ?s [Works, Works, Raced, Works, Works, Works, Lost]\<rparr>"
  have "w_sched ?w = concat [map ?s [Works, Works, Raced]] @ map ?s [Works, Works, Works] @ [?s Lost]" by simp
  then show ?thesis
    by (rule linkOneEntity_survives_races [THEN exE])
      (auto simp: try_round_def keeps_row_def has_row_def sample_world_def sample_memory_def)
qed

end
