(* ===== verification/Embedding.thy ===== *)
theory Embedding
  imports GraphStore
begin

text \<open>
  \<^verbatim>\<open>internal/embedding\<close>: the embedders.  The bag-of-words embedder is computed; the others post JSON
  to a provider.  The network is a parameter (\<open>net\<close>): it maps a URL, an authorization and a request
  body to a reply, and may answer differently at every call, since it threads the state.  Replies
  are JSON values; their decoding into the structs of the code, with the indices OpenAI sends, is
  modelled.  The theorems say that a batch is never misaligned with its texts and that a
  bag-of-words vector has unit length or is zero.
\<close>

section \<open>JSON\<close>

datatype json = JNull | JBool bool | JStr string | JNum f64 | JArr "json list" | JObj "(string \<times> json) list"

text \<open>A member of an object decoded into a struct: the last key that matches, folding case, or null.\<close>

definition jmember :: "string \<Rightarrow> json \<Rightarrow> json option" where
  "jmember name j =
     (case j of
        JNull \<Rightarrow> Some JNull
      | JObj kvs \<Rightarrow> Some (case find (\<lambda>kv. to_lower (fst kv) = name) (rev kvs) of None \<Rightarrow> JNull | Some kv \<Rightarrow> snd kv)
      | _ \<Rightarrow> None)"

fun all_some :: "'a option list \<Rightarrow> 'a list option" where
  "all_some [] = Some []"
| "all_some (None # xs) = None"
| "all_some (Some x # xs) = map_option ((#) x) (all_some xs)"

definition jfloat :: "json \<Rightarrow> f64 option" where
  "jfloat j = (case j of JNum x \<Rightarrow> Some x | JNull \<Rightarrow> Some 0 | _ \<Rightarrow> None)"

definition jint :: "json \<Rightarrow> int option" where
  "jint j =
     (case j of
        JNull \<Rightarrow> Some 0
      | JNum (Fin x) \<Rightarrow> if x = real_of_int \<lfloor>x\<rfloor> then Some \<lfloor>x\<rfloor> else None
      | _ \<Rightarrow> None)"

text \<open>A slice: \<open>null\<close> decodes to the nil slice.\<close>

definition jslice :: "(json \<Rightarrow> 'a option) \<Rightarrow> json \<Rightarrow> 'a list option option" where
  "jslice f j =
     (case j of JNull \<Rightarrow> Some None | JArr js \<Rightarrow> map_option Some (all_some (map f js)) | _ \<Rightarrow> None)"

definition slice_or_empty :: "'a list option \<Rightarrow> 'a list" where
  "slice_or_empty s = (case s of None \<Rightarrow> [] | Some xs \<Rightarrow> xs)"

section \<open>Embedders that post to a provider\<close>

datatype http_reply = Unreachable | Status int | Ok "json option"

type_synonym 's net = "string \<Rightarrow> string \<Rightarrow> json \<Rightarrow> 's \<Rightarrow> http_reply \<times> 's"

record httpEmbedder =
  he_url :: string
  he_auth :: string
  he_body :: "string \<Rightarrow> json"
  he_decode :: "json \<Rightarrow> vec option"
  he_dim :: int

record batchHTTPEmbedder =
  be_http :: httpEmbedder
  be_url :: string
  be_body :: "string list \<Rightarrow> json"
  be_decode :: "json \<Rightarrow> vec list option"

text \<open>The request of \<open>Embed\<close> and of \<open>embedChunk\<close>: any failure to get a decoded 200 is an error.\<close>

definition post :: "'s net \<Rightarrow> string \<Rightarrow> string \<Rightarrow> json \<Rightarrow> (json \<Rightarrow> 'a option) \<Rightarrow> ('s, 'a) op" where
  "post net url auth body decode s =
     (case net url auth body s of
        (Unreachable, s') \<Rightarrow> (Inl ProviderError, s')
      | (Status code, s') \<Rightarrow> (Inl ProviderError, s')
      | (Ok None, s') \<Rightarrow> (Inl ProviderError, s')
      | (Ok (Some j), s') \<Rightarrow> (case decode j of None \<Rightarrow> (Inl ProviderError, s') | Some x \<Rightarrow> (Inr x, s')))"

definition http_Embed :: "'s net \<Rightarrow> httpEmbedder \<Rightarrow> string \<Rightarrow> ('s, vec) op" where
  "http_Embed net h text = post net (he_url h) (he_auth h) (he_body h text) (he_decode h)"

definition maxBatchSize :: nat where "maxBatchSize = 100"

definition embedChunk :: "'s net \<Rightarrow> batchHTTPEmbedder \<Rightarrow> string list \<Rightarrow> ('s, vec list) op" where
  "embedChunk net b texts =
     and_then
       (post net (if be_url b = [] then he_url (be_http b) else be_url b) (he_auth (be_http b))
          (be_body b texts) (be_decode b))
       (\<lambda>raw. if length raw \<noteq> length texts then fail_op ProviderError else return_op raw)"

text \<open>The loop over chunks of at most \<open>maxBatchSize\<close> texts.\<close>

function embed_chunks :: "'s net \<Rightarrow> batchHTTPEmbedder \<Rightarrow> string list \<Rightarrow> ('s, vec list) op" where
  "embed_chunks net b texts =
     (if texts = [] then return_op []
      else and_then (embedChunk net b (take maxBatchSize texts)) (\<lambda>vs.
        and_then (embed_chunks net b (drop maxBatchSize texts)) (\<lambda>rest. return_op (vs @ rest))))"
  by pat_completeness auto
termination by (relation "measure (\<lambda>(net, b, texts). length texts)") (auto simp: maxBatchSize_def)

declare embed_chunks.simps [simp del]

definition batch_EmbedBatch :: "'s net \<Rightarrow> batchHTTPEmbedder \<Rightarrow> string list \<Rightarrow> ('s, vec list) op" where
  "batch_EmbedBatch net b texts = (if length texts = 0 then return_op [] else embed_chunks net b texts)"

section \<open>Providers\<close>

definition jnum :: "int \<Rightarrow> json" where "jnum n = JNum (f_of_int n)"

definition openai_vector :: "json \<Rightarrow> (int \<times> vec option) option" where
  "openai_vector d =
     (case (Option.bind (jmember ''index'' d) jint, Option.bind (jmember ''embedding'' d) (jslice jfloat)) of
        (Some i, Some v) \<Rightarrow> Some (i, v) | _ \<Rightarrow> None)"

text \<open>The results put at the index each carries; an index out of range or left empty is an error.\<close>

fun place :: "(int \<times> vec option) list \<Rightarrow> vec option list \<Rightarrow> vec option list option" where
  "place [] out = Some out"
| "place ((i, v) # ds) out =
     (if i < 0 \<or> i \<ge> int (length out) then None else place ds (out[nat i := v]))"

definition decodeOpenAIBatch :: "json \<Rightarrow> vec list option" where
  "decodeOpenAIBatch j =
     Option.bind (Option.bind (jmember ''data'' j) (jslice openai_vector)) (\<lambda>ds.
     Option.bind (place (slice_or_empty ds) (replicate (length (slice_or_empty ds)) None)) all_some)"

definition decodeOpenAIEmbedding :: "json \<Rightarrow> vec option" where
  "decodeOpenAIEmbedding j =
     Option.bind (Option.bind (jmember ''data'' j)
        (jslice (\<lambda>d. Option.bind (jmember ''embedding'' d) (jslice jfloat)))) (\<lambda>ds.
     case slice_or_empty ds of [] \<Rightarrow> None | v # _ \<Rightarrow> Some (slice_or_empty v))"

definition NewOpenAIEmbedder :: "string \<Rightarrow> string \<Rightarrow> string \<Rightarrow> int \<Rightarrow> batchHTTPEmbedder" where
  "NewOpenAIEmbedder baseURL apiKey model width =
     (let baseURL = (if baseURL = [] then ''https://api.openai.com/v1'' else baseURL);
          model = (if model = [] then ''text-embedding-3-small'' else model);
          width = (if width \<le> 0 then 1536 else width)
      in \<lparr>be_http = \<lparr>he_url = baseURL @ ''/embeddings'',
                        he_auth = (if apiKey \<noteq> [] then ''Bearer '' @ apiKey else []),
                        he_body = (\<lambda>text. JObj [(''model'', JStr model), (''input'', JStr text)]),
                        he_decode = decodeOpenAIEmbedding, he_dim = width\<rparr>,
          be_url = [],
          be_body = (\<lambda>texts. JObj [(''model'', JStr model), (''input'', JArr (map JStr texts))]),
          be_decode = decodeOpenAIBatch\<rparr>)"

definition decodeGoogleBatch :: "json \<Rightarrow> vec list option" where
  "decodeGoogleBatch j =
     map_option (\<lambda>es. map slice_or_empty (slice_or_empty es))
       (Option.bind (jmember ''embeddings'' j) (jslice (\<lambda>e. Option.bind (jmember ''values'' e) (jslice jfloat))))"

definition decodeGoogleEmbedding :: "json \<Rightarrow> vec option" where
  "decodeGoogleEmbedding j =
     map_option slice_or_empty
       (Option.bind (Option.bind (jmember ''embedding'' j) (jmember ''values'')) (jslice jfloat))"

definition google_content :: "string \<Rightarrow> json" where
  "google_content text = JObj [(''parts'', JArr [JObj [(''text'', JStr text)]])]"

definition newGoogleEmbedderWithBase :: "string \<Rightarrow> string \<Rightarrow> string \<Rightarrow> int \<Rightarrow> batchHTTPEmbedder" where
  "newGoogleEmbedderWithBase base apiKey model width =
     (let model = (if model = [] then ''gemini-embedding-2'' else model);
          width = (if width \<le> 0 then 1536 else width)
      in \<lparr>be_http = \<lparr>he_url = base @ ''/v1beta/models/'' @ model @ '':embedContent?key='' @ apiKey,
                        he_auth = [],
                        he_body = (\<lambda>text. JObj [(''content'', google_content text), (''outputDimensionality'', jnum width)]),
                        he_decode = decodeGoogleEmbedding, he_dim = width\<rparr>,
          be_url = base @ ''/v1beta/models/'' @ model @ '':batchEmbedContents?key='' @ apiKey,
          be_body = (\<lambda>texts. JObj [(''requests'', JArr (map (\<lambda>text.
             JObj [(''model'', JStr (''models/'' @ model)), (''content'', google_content text),
                   (''outputDimensionality'', jnum width)]) texts))]),
          be_decode = decodeGoogleBatch\<rparr>)"

definition NewGoogleEmbedder :: "string \<Rightarrow> string \<Rightarrow> int \<Rightarrow> batchHTTPEmbedder" where
  "NewGoogleEmbedder apiKey model width =
     newGoogleEmbedderWithBase ''https://generativelanguage.googleapis.com'' apiKey model width"

definition decodeOllamaEmbedding :: "json \<Rightarrow> vec option" where
  "decodeOllamaEmbedding j =
     map_option slice_or_empty (Option.bind (jmember ''embedding'' j) (jslice jfloat))"

definition NewOllamaEmbedder :: "string \<Rightarrow> string \<Rightarrow> int \<Rightarrow> httpEmbedder" where
  "NewOllamaEmbedder baseURL model width =
     (let baseURL = (if baseURL = [] then ''http://localhost:11434'' else baseURL);
          model = (if model = [] then ''nomic-embed-text'' else model);
          width = (if width \<le> 0 then 768 else width)
      in \<lparr>he_url = baseURL @ ''/api/embeddings'', he_auth = [],
          he_body = (\<lambda>text. JObj [(''model'', JStr model), (''prompt'', JStr text)]),
          he_decode = decodeOllamaEmbedding, he_dim = width\<rparr>)"

section \<open>Bag of words\<close>

definition bow_stopWords :: "string list" where
  "bow_stopWords =
     [''a'', ''an'', ''the'', ''is'', ''are'', ''was'', ''were'', ''be'', ''been'', ''being'',
      ''do'', ''does'', ''did'', ''have'', ''has'', ''had'', ''will'', ''would'', ''could'',
      ''should'', ''may'', ''might'', ''can'', ''shall'', ''it'', ''its'', ''this'', ''that'',
      ''these'', ''those'', ''he'', ''she'', ''they'', ''we'', ''you'', ''me'', ''him'', ''her'',
      ''us'', ''my'', ''your'', ''his'', ''our'', ''their'', ''of'', ''in'', ''on'', ''at'',
      ''to'', ''for'', ''with'', ''by'', ''from'', ''as'', ''into'', ''about'', ''between'',
      ''through'', ''and'', ''but'', ''or'', ''not'', ''no'', ''if'', ''then'', ''so'', ''what'',
      ''which'', ''who'', ''how'', ''when'', ''where'', ''why'']"

definition edge_cutset :: string where
  "edge_cutset = ''.,;:!?'' @ [dquote, squote] @ ''()[]{}/-''"

definition tokenize :: "string \<Rightarrow> string list" where
  "tokenize text =
     filter (\<lambda>w. \<not> length w < 2 \<and> w \<notin> set bow_stopWords)
       (map (\<lambda>w. trim w edge_cutset) (str_fields (to_lower text)))"

definition maxDim :: int where "maxDim = 65536"

definition NewBagOfWordsEmbedder :: "int \<Rightarrow> nat" where
  "NewBagOfWordsEmbedder width = nat (if width \<le> 0 \<or> width > maxDim then 384 else width)"

definition slot :: "nat \<Rightarrow> string \<Rightarrow> nat" where
  "slot width s = unat (fnvHash s) mod width"

definition add_at :: "nat \<Rightarrow> f64 \<Rightarrow> vec \<Rightarrow> vec" where
  "add_at i x v = v[i := v ! i + x]"

text \<open>One entry of the term-frequency map, whose order is left to the runtime.\<close>

definition add_token :: "nat \<Rightarrow> string list \<Rightarrow> string \<Rightarrow> vec \<Rightarrow> vec" where
  "add_token width tokens token v =
     (let weight = 1 + math_log (f_of_nat (count_list tokens token));
          sgn = (if unat (fnvHash (token @ ''_sign'')) mod 2 = 0 then - 1 else 1)
      in add_at (slot width (token @ ''_salt'')) (weight * sgn) (add_at (slot width token) (weight * sgn) v))"

definition bigrams :: "string list \<Rightarrow> string list" where
  "bigrams tokens = map (\<lambda>(a, b). a @ ''_'' @ b) (zip tokens (tl tokens))"

definition normalize :: "vec \<Rightarrow> vec" where
  "normalize v =
     (let s = sum_f64 (map (\<lambda>x. x * x) v) in
      if feq s 0 then v else map (\<lambda>x. x / math_sqrt s) v)"

definition bow_Embed :: "nat \<Rightarrow> string \<Rightarrow> vec" where
  "bow_Embed width text =
     (let tokens = tokenize text; v = replicate width 0 in
      if length tokens = 0 then v
      else normalize (fold (\<lambda>b. add_at (slot width b) (Fin (1/2))) (bigrams tokens)
             (fold (add_token width tokens) (remdups tokens) v)))"

section \<open>The configured embedder\<close>

datatype embedder = BagOfWords nat | Http httpEmbedder | Batch batchHTTPEmbedder

definition Embed :: "'s net \<Rightarrow> embedder \<Rightarrow> string \<Rightarrow> ('s, vec) op" where
  "Embed net e text =
     (case e of BagOfWords width \<Rightarrow> return_op (bow_Embed width text)
      | Http h \<Rightarrow> http_Embed net h text
      | Batch b \<Rightarrow> http_Embed net (be_http b) text)"

definition is_batch :: "embedder \<Rightarrow> bool" where
  "is_batch e = (case e of Batch b \<Rightarrow> True | _ \<Rightarrow> False)"

text \<open>One text per call, in order, for an embedder without a batch endpoint.\<close>

fun embed_each :: "'s net \<Rightarrow> embedder \<Rightarrow> string list \<Rightarrow> ('s, vec list) op" where
  "embed_each net e [] = return_op []"
| "embed_each net e (t # ts) =
     and_then (Embed net e t) (\<lambda>v. and_then (embed_each net e ts) (\<lambda>vs. return_op (v # vs)))"

definition EmbedBatch :: "'s net \<Rightarrow> embedder \<Rightarrow> string list \<Rightarrow> ('s, vec list) op" where
  "EmbedBatch net e texts =
     (if length texts = 0 then return_op []
      else case e of Batch b \<Rightarrow> batch_EmbedBatch net b texts | _ \<Rightarrow> embed_each net e texts)"

record embed_config =
  ec_provider :: string
  ec_model :: string
  ec_key :: string
  ec_url :: string
  ec_dim :: int

datatype embed_config_error = KeyRequired | UnknownEmbedder string

definition embedder_from_config :: "embed_config \<Rightarrow> embed_config_error + embedder" where
  "embedder_from_config cfg =
     (if ec_provider cfg \<in> {''bag-of-words'', ''bow'', ''''} then
        Inr (BagOfWords (NewBagOfWordsEmbedder (if ec_dim cfg \<le> 0 then 384 else ec_dim cfg)))
      else if ec_provider cfg = ''ollama'' then
        Inr (Http (NewOllamaEmbedder (ec_url cfg) (ec_model cfg) (ec_dim cfg)))
      else if ec_provider cfg = ''openai'' then
        if ec_key cfg = [] then Inl KeyRequired
        else Inr (Batch (NewOpenAIEmbedder (ec_url cfg) (ec_key cfg) (ec_model cfg) (ec_dim cfg)))
      else if ec_provider cfg = ''google'' then
        if ec_key cfg = [] then Inl KeyRequired
        else Inr (Batch (NewGoogleEmbedder (ec_key cfg) (ec_model cfg) (ec_dim cfg)))
      else Inl (UnknownEmbedder (ec_provider cfg)))"

section \<open>A batch is aligned with its texts\<close>

text \<open>An operation all of whose answers satisfy \<open>Q\<close>.\<close>

definition yields :: "('a \<Rightarrow> bool) \<Rightarrow> ('s, 'a) op \<Rightarrow> bool" where
  "yields Q m = (\<forall>s x s'. m s = (Inr x, s') \<longrightarrow> Q x)"

lemma yieldsD: "yields Q m \<Longrightarrow> m s = (Inr x, s') \<Longrightarrow> Q x"
  by (auto simp: yields_def)

lemma yields_return [intro]: "Q x \<Longrightarrow> yields Q (return_op x)"
  by (simp add: yields_def)

lemma yields_and_then:
  assumes "yields P m" "\<And>x. P x \<Longrightarrow> yields Q (k x)"
  shows "yields Q (and_then m k)"
  unfolding yields_def
proof (intro allI impI)
  fix s x s' assume r: "and_then m k s = (Inr x, s')"
  from and_then_cases [OF r] obtain y w1 where y: "m s = (Inr y, w1)" "k y w1 = (Inr x, s')" by auto
  then have "P y" using assms(1) by (blast dest: yieldsD)
  then show "Q x" using y(2) assms(2) by (blast dest: yieldsD)
qed

lemma yields_any: "yields (\<lambda>x. True) m"
  by (simp add: yields_def)

lemma yields_embedChunk: "yields (\<lambda>vs. length vs = length texts) (embedChunk net b texts)"
  unfolding embedChunk_def
  by (rule yields_and_then [OF yields_any]) (auto simp: yields_def)

lemma yields_embed_chunks: "yields (\<lambda>vs. length vs = length texts) (embed_chunks net b texts)"
proof (induction net b texts rule: embed_chunks.induct)
  case (1 net b texts)
  show ?case
  proof (cases "texts = []")
    case True
    then show ?thesis by (subst embed_chunks.simps) (simp add: yields_def)
  next
    case False
    show ?thesis
      unfolding embed_chunks.simps [of net b texts] if_not_P [OF False]
      by (rule yields_and_then [OF yields_embedChunk], rule yields_and_then [OF "1.IH" [OF False]])
        (auto intro!: yields_return)
  qed
qed

lemma yields_embed_each: "yields (\<lambda>vs. length vs = length texts) (embed_each net e texts)"
proof (induction texts)
  case Nil
  show ?case by (simp add: yields_def)
next
  case (Cons t ts)
  show ?case
    unfolding embed_each.simps
    by (rule yields_and_then [OF yields_any], rule yields_and_then [OF Cons.IH]) (auto intro!: yields_return)
qed

lemma yields_EmbedBatch: "yields (\<lambda>vs. length vs = length texts) (EmbedBatch net e texts)"
  by (auto simp: EmbedBatch_def batch_EmbedBatch_def yields_embed_chunks yields_embed_each
      intro!: yields_return split: embedder.split)

lemma all_some_Some: "all_some xs = Some ys \<longleftrightarrow> xs = map Some ys"
  by (induction xs arbitrary: ys rule: all_some.induct) (auto simp: Cons_eq_map_conv)

lemma place_length: "place ds out = Some out' \<Longrightarrow> length out' = length out"
  by (induction ds out rule: place.induct) (auto split: if_splits)

lemma place_sound:
  assumes "place ds out = Some out'" "k < length out" "out' ! k = Some v"
  shows "out ! k = Some v \<or> (int k, Some v) \<in> set ds"
  using assms
proof (induction ds out rule: place.induct)
  case (2 i u ds out)
  then have "0 \<le> i" "nat i < length out" and r: "place ds (out[nat i := u]) = Some out'"
    by (auto split: if_splits)
  then have "out[nat i := u] ! k = Some v \<or> (int k, Some v) \<in> set ds"
    using "2.IH" "2.prems"(2,3) by (auto split: if_splits)
  then show ?case using \<open>0 \<le> i\<close> \<open>nat i < length out\<close> by (cases "nat i = k") auto
qed simp

text \<open>
  What the decoder of OpenAI's batch answer returns at position \<open>k\<close> is the vector the answer itself
  gives the index \<open>k\<close>, in whatever order the results came.
\<close>

lemma decodeOpenAIBatch_indexed:
  assumes "decodeOpenAIBatch j = Some vs" "k < length vs"
  shows "\<exists>ds. Option.bind (jmember ''data'' j) (jslice openai_vector) = Some ds \<and>
    length (slice_or_empty ds) = length vs \<and> (int k, Some (vs ! k)) \<in> set (slice_or_empty ds)"
proof -
  obtain ds out where ds: "Option.bind (jmember ''data'' j) (jslice openai_vector) = Some ds"
    and p: "place (slice_or_empty ds) (replicate (length (slice_or_empty ds)) None) = Some out"
    and vs: "all_some out = Some vs"
    using assms(1) by (auto simp: decodeOpenAIBatch_def bind_eq_Some_conv)
  have out: "out = map Some vs" using vs by (simp add: all_some_Some)
  then have l: "length vs = length (slice_or_empty ds)" using place_length [OF p] by simp
  have "(int k, Some (vs ! k)) \<in> set (slice_or_empty ds)"
    using place_sound [OF p, of k "vs ! k"] assms(2) l out by simp
  then show ?thesis using ds l by auto
qed

section \<open>Bag-of-words vectors\<close>

definition finite_vec :: "vec \<Rightarrow> bool" where "finite_vec v = (\<forall>x \<in> set v. \<exists>r. x = Fin r)"

lemma finite_vec_map: "finite_vec v \<longleftrightarrow> (\<exists>rs. v = map Fin rs)"
proof
  assume "finite_vec v"
  then have "v = map Fin (map the_fin v)" by (induction v) (auto simp: finite_vec_def)
  then show "\<exists>rs. v = map Fin rs" by blast
qed (auto simp: finite_vec_def)

lemma length_add_at [simp]: "length (add_at i x v) = length v"
  by (simp add: add_at_def)

lemma finite_add_at: "finite_vec v \<Longrightarrow> finite_vec (add_at i (Fin x) v)"
  by (auto simp: finite_vec_map add_at_def map_update [symmetric] list_update_beyond)
    (metis linorder_not_le list_update_beyond map_update nth_map plus_f64.simps(1) length_map)

lemma sum_f64_Fin: "fold (\<lambda>x s. s + x) (map Fin rs) (Fin a) = Fin (a + sum_list rs)"
  by (induction rs arbitrary: a) (simp_all add: add.assoc)

lemma sum_f64_map_Fin [simp]: "sum_f64 (map Fin rs) = Fin (sum_list rs)"
  using sum_f64_Fin [of rs 0] by (simp add: sum_f64_def zero_f64_def)

lemma sum_squares_Fin: "sum_f64 (map (\<lambda>x. x * x) (map Fin rs)) = Fin (\<Sum>r\<leftarrow>rs. r * r)"
  using sum_f64_map_Fin [of "map (\<lambda>r. r * r) rs"] by (simp add: o_def)

definition sq_norm :: "vec \<Rightarrow> f64" where "sq_norm v = sum_f64 (map (\<lambda>x. x * x) v)"

lemma sum_scaled: "(\<Sum>r\<leftarrow>rs. r / c * (r / c)) = (\<Sum>r\<leftarrow>rs. r * r) / (c * (c :: real))"
  by (induction rs) (simp_all add: add_divide_distrib)

lemma normalize_unit:
  assumes "finite_vec v"
  shows "length (normalize v) = length v" "sq_norm (normalize v) = 1 \<or> list_all (\<lambda>x. x = 0) (normalize v)"
proof -
  show "length (normalize v) = length v" by (simp add: normalize_def Let_def)
  obtain rs where rs: "v = map Fin rs" using assms by (auto simp: finite_vec_map)
  let ?s = "\<Sum>r\<leftarrow>rs. r * r"
  have s: "sum_f64 (map (\<lambda>x. x * x) v) = Fin ?s" unfolding rs by (rule sum_squares_Fin)
  have nn: "0 \<le> ?s" by (rule sum_list_nonneg) auto
  show "sq_norm (normalize v) = 1 \<or> list_all (\<lambda>x. x = 0) (normalize v)"
  proof (cases "?s = 0")
    case True
    then have "\<forall>x \<in> set (map (\<lambda>r. r * r) rs). x = 0"
      by (subst sum_list_nonneg_eq_0_iff [symmetric]) auto
    then have "list_all (\<lambda>x. x = 0) v" by (auto simp: rs list_all_iff zero_f64_def)
    then show ?thesis using s True by (simp add: normalize_def zero_f64_def)
  next
    case False
    then have pos: "0 < ?s" using nn by simp
    have n: "normalize v = map Fin (map (\<lambda>r. r / sqrt ?s) rs)"
      using s False pos by (simp add: normalize_def zero_f64_def rs)
    have "(\<Sum>r\<leftarrow>map (\<lambda>r. r / sqrt ?s) rs. r * r) = ?s / (sqrt ?s * sqrt ?s)"
      unfolding map_map o_def by (rule sum_scaled)
    also have "\<dots> = 1" using pos by simp
    finally show ?thesis unfolding n sq_norm_def sum_squares_Fin by (simp add: one_f64_def)
  qed
qed

lemma finite_add_token:
  assumes "finite_vec v" "t \<in> set ts"
  shows "finite_vec (add_token d ts t v)"
proof -
  have "0 < count_list ts t" using assms(2) by (metis count_list_0_iff gr0I)
  then have "math_log (f_of_nat (count_list ts t)) = Fin (ln (real (count_list ts t)))"
    by (simp add: f_of_nat_def)
  then show ?thesis using assms(1)
    by (simp add: add_token_def Let_def finite_add_at f64_consts)
qed

lemma fold_add_tokens:
  "finite_vec v \<Longrightarrow> set us \<subseteq> set ts \<Longrightarrow>
     finite_vec (fold (add_token d ts) us v) \<and> length (fold (add_token d ts) us v) = length v"
proof (induction us arbitrary: v)
  case (Cons u us)
  then have "finite_vec (add_token d ts u v)" "length (add_token d ts u v) = length v"
    using finite_add_token [of v u ts d] by (simp_all add: add_token_def Let_def)
  then show ?case using Cons.IH [of "add_token d ts u v"] Cons.prems by simp
qed simp

lemma fold_add_bigrams:
  "finite_vec v \<Longrightarrow> finite_vec (fold (\<lambda>b. add_at (slot d b) (Fin x)) bs v) \<and>
     length (fold (\<lambda>b. add_at (slot d b) (Fin x)) bs v) = length v"
  by (induction bs arbitrary: v) (auto simp: finite_add_at)

lemma finite_zero_vec: "finite_vec (replicate n 0)"
  by (auto simp: finite_vec_def zero_f64_def)

section \<open>Properties\<close>



text \<open>
  A bag-of-words vector has the configured dimension, which is between 1 and 65536 whatever the
  configuration asked for, so that no hash is reduced modulo zero; and it has length one, unless it
  is all zero, as it is for a text without tokens.
\<close>

lemma bow_Embed_unit:
  "1 \<le> NewBagOfWordsEmbedder n \<and> NewBagOfWordsEmbedder n \<le> 65536 \<and>
   length (bow_Embed (NewBagOfWordsEmbedder n) text) = NewBagOfWordsEmbedder n \<and>
   slot (NewBagOfWordsEmbedder n) text < NewBagOfWordsEmbedder n \<and>
   (sq_norm (bow_Embed (NewBagOfWordsEmbedder n) text) = 1 \<or>
    list_all (\<lambda>x. x = 0) (bow_Embed (NewBagOfWordsEmbedder n) text))"
proof (rule conjI5)
  let ?d = "NewBagOfWordsEmbedder n"
  show d: "1 \<le> ?d" and "?d \<le> 65536" by (auto simp: NewBagOfWordsEmbedder_def maxDim_def)
  show "slot ?d text < ?d" using d by (simp add: slot_def)
  let ?ts = "tokenize text"
  define v where "v = fold (add_token ?d ?ts) (remdups ?ts) (replicate ?d 0)"
  define u where "u = fold (\<lambda>b. add_at (slot ?d b) (Fin (1/2))) (bigrams ?ts) v"
  have "finite_vec v" "length v = ?d"
    unfolding v_def using fold_add_tokens [OF finite_zero_vec, of "remdups ?ts" ?ts ?d ?d] by auto
  then have u: "finite_vec u" "length u = ?d"
    unfolding u_def using fold_add_bigrams [of v ?d "1/2" "bigrams ?ts"] by auto
  have e: "bow_Embed ?d text = (if ?ts = [] then replicate ?d 0 else normalize u)"
    by (simp add: bow_Embed_def Let_def u_def v_def)
  show "length (bow_Embed ?d text) = ?d" using e u normalize_unit(1) [OF u(1)] by simp
  show "sq_norm (bow_Embed ?d text) = 1 \<or> list_all (\<lambda>x. x = 0) (bow_Embed ?d text)"
    using e normalize_unit(2) [OF u(1)] by (simp add: list_all_iff)
qed

end
