(* ===== verification/Effects.thy ===== *)
theory Effects
  imports GraphStore Embedding
begin

text \<open>
  What the callers of the repository share.  Combinators: \<open>attempt\<close> runs an operation whose failure is
  logged and otherwise ignored, \<open>draw\<close> takes an identifier or the time from a source.  Two judgements
  on operations, with a rule per combinator: \<open>keeps\<close>, that running it keeps an invariant of the state
  and a relation between rows and texts, and \<open>answers\<close>, that it never returns an error.
\<close>

section \<open>Steps that may fail without failing the caller\<close>

text \<open>\<open>if x, err := m; err != nil { log }\<close>: the error is dropped and the code goes on.\<close>

definition attempt :: "('s, 'a) op \<Rightarrow> ('a option \<Rightarrow> ('s, 'b) op) \<Rightarrow> ('s, 'b) op" where
  "attempt m k = (\<lambda>s. case m s of (Inl e, s') \<Rightarrow> k None s' | (Inr x, s') \<Rightarrow> k (Some x) s')"

definition draw :: "('s \<Rightarrow> 'a \<times> 's) \<Rightarrow> ('a \<Rightarrow> 's \<Rightarrow> 'r \<times> 's) \<Rightarrow> 's \<Rightarrow> 'r \<times> 's" where
  "draw src k = (\<lambda>s. case src s of (x, s') \<Rightarrow> k x s')"

section \<open>Operations that keep what holds\<close>

text \<open>Running \<open>m\<close> keeps the invariant and every fact a row holds.\<close>

definition keeps :: "('s \<Rightarrow> bool) \<Rightarrow> ('s \<Rightarrow> uuid \<Rightarrow> string \<Rightarrow> bool) \<Rightarrow> ('s \<Rightarrow> 'a \<times> 's) \<Rightarrow> bool" where
  "keeps I holds m = (\<forall>s. I s \<longrightarrow> I (snd (m s)) \<and> (\<forall>i x. holds s i x \<longrightarrow> holds (snd (m s)) i x))"

named_theorems keeps_intros \<open>facts kept through the combinators\<close>

lemma keepsD: "keeps I holds m \<Longrightarrow> I s \<Longrightarrow> m s = (r, s') \<Longrightarrow> I s' \<and> (\<forall>i x. holds s i x \<longrightarrow> holds s' i x)"
  by (force simp: keeps_def)

lemma keeps_return [keeps_intros]: "keeps I holds (return_op x)"
  and keeps_fail [keeps_intros]: "keeps I holds (fail_op e)"
  and keeps_Pair [keeps_intros]: "keeps I holds (Pair r)"
  by (simp_all add: keeps_def)

lemma keeps_and_then [keeps_intros]:
  "keeps I holds m \<Longrightarrow> (\<And>x. keeps I holds (k x)) \<Longrightarrow> keeps I holds (and_then m k)"
  unfolding keeps_def and_then_def by (fastforce split: prod.splits sum.splits)

lemma keeps_attempt [keeps_intros]:
  "keeps I holds m \<Longrightarrow> (\<And>x. keeps I holds (k x)) \<Longrightarrow> keeps I holds (attempt m k)"
  unfolding keeps_def attempt_def by (fastforce split: prod.splits sum.splits)

lemma keeps_draw [keeps_intros]:
  "keeps I holds src \<Longrightarrow> (\<And>x. keeps I holds (k x)) \<Longrightarrow> keeps I holds (draw src k)"
  unfolding keeps_def draw_def by (fastforce split: prod.splits)

lemma keeps_if [keeps_intros]: "keeps I holds m \<Longrightarrow> keeps I holds n \<Longrightarrow> keeps I holds (if b then m else n)"
  by simp

lemma keeps_option [keeps_intros]:
  "keeps I holds m \<Longrightarrow> (\<And>x. keeps I holds (k x)) \<Longrightarrow> keeps I holds (case r of None \<Rightarrow> m | Some x \<Rightarrow> k x)"
  by (simp split: option.split)

lemma keeps_prod [keeps_intros]: "(\<And>x y. keeps I holds (k x y)) \<Longrightarrow> keeps I holds (case p of (x, y) \<Rightarrow> k x y)"
  by (simp split: prod.split)

lemma attempt_cases:
  assumes "attempt m k s = (r, s')"
  obtains e s1 where "m s = (Inl e, s1)" "k None s1 = (r, s')" | x s1 where "m s = (Inr x, s1)" "k (Some x) s1 = (r, s')"
  using assms by (auto simp: attempt_def split: prod.splits sum.splits)

lemma and_then_Inr:
  assumes "and_then m k s = (Inr y, s')"
  obtains x s1 where "m s = (Inr x, s1)" "k x s1 = (Inr y, s')"
  using and_then_cases [OF assms] by auto

section \<open>Embedding through a network\<close>

text \<open>A network that answers as it likes at every call: its replies are indexed by the tick.\<close>

definition tick_net :: "(nat \<Rightarrow> string \<Rightarrow> string \<Rightarrow> json \<Rightarrow> http_reply) \<Rightarrow> world net" where
  "tick_net N url key body w = (N (w_tick w) url key body, w\<lparr>w_tick := Suc (w_tick w)\<rparr>)"

lemma keeps_post: "keeps I holds (net url auth body) \<Longrightarrow> keeps I holds (post net url auth body decode)"
  unfolding keeps_def post_def by (fastforce split: prod.splits http_reply.splits option.splits)

lemma keeps_Embed:
  assumes "\<And>url auth body. keeps I holds (net url auth body)"
  shows "keeps I holds (Embed net e text)"
  by (auto simp: Embed_def http_Embed_def intro: keeps_intros keeps_post assms split: embedder.split)

lemma keeps_EmbedBatch:
  assumes "\<And>url auth body. keeps I holds (net url auth body)"
  shows "keeps I holds (EmbedBatch net e texts)"
proof -
  have c: "keeps I holds (embed_chunks net b texts)" for b texts
  proof (induction texts rule: length_induct)
    case (1 texts)
    have "keeps I holds (embed_chunks net b (drop maxBatchSize texts))" if "texts \<noteq> []"
      using 1 that by (simp add: maxBatchSize_def)
    then show ?case
      by (subst embed_chunks.simps) (auto simp: embedChunk_def intro!: keeps_intros keeps_post assms)
  qed
  have "keeps I holds (embed_each net e texts)" for texts
    by (induction texts) (auto intro!: keeps_intros keeps_Embed assms)
  then show ?thesis using c
    by (auto simp: EmbedBatch_def batch_EmbedBatch_def intro!: keeps_intros split: embedder.split)
qed

section \<open>Operations that always answer\<close>

text \<open>\<open>answers m\<close>: \<open>m\<close> never returns an error, from any state.\<close>

definition answers :: "('s, 'a) op \<Rightarrow> bool" where "answers m = (\<forall>s. \<exists>x s'. m s = (Inr x, s'))"

named_theorems answers_intros \<open>operations that cannot fail\<close>

lemma answers_return [answers_intros]: "answers (return_op x)"
  and answers_Pair [answers_intros]: "answers (Pair (Inr y))"
  by (simp_all add: answers_def)

lemma answers_and_then [answers_intros]: "answers m \<Longrightarrow> (\<And>x. answers (k x)) \<Longrightarrow> answers (and_then m k)"
  unfolding answers_def and_then_def by (metis (mono_tags, lifting) old.prod.case old.sum.simps(6))

lemma answers_attempt [answers_intros]: "(\<And>x. answers (k x)) \<Longrightarrow> answers (attempt m k)"
  unfolding answers_def attempt_def by (simp split: prod.split sum.split)

lemma answers_draw [answers_intros]: "(\<And>x. answers (k x)) \<Longrightarrow> answers (draw src k)"
  unfolding answers_def draw_def by (simp split: prod.split)

lemma answers_if [answers_intros]: "answers m \<Longrightarrow> answers n \<Longrightarrow> answers (if b then m else n)"
  by simp

lemma answers_option [answers_intros]:
  "answers m \<Longrightarrow> (\<And>x. answers (k x)) \<Longrightarrow> answers (case r of None \<Rightarrow> m | Some x \<Rightarrow> k x)"
  by (simp split: option.split)

lemma answers_prod [answers_intros]: "(\<And>x y. answers (k x y)) \<Longrightarrow> answers (case p of (x, y) \<Rightarrow> k x y)"
  by (simp split: prod.split)

lemma answersE: "answers m \<Longrightarrow> (\<And>x s'. m s = (Inr x, s') \<Longrightarrow> thesis) \<Longrightarrow> thesis"
  by (auto simp: answers_def)

section \<open>Operations on the world\<close>

text \<open>What holds of a world, or between its rows and texts, goes on holding when the tick advances.\<close>

definition tickless :: "(world \<Rightarrow> bool) \<Rightarrow> (world \<Rightarrow> uuid \<Rightarrow> string \<Rightarrow> bool) \<Rightarrow> bool" where
  "tickless I holds = (\<forall>w. I w \<longrightarrow>
     I (w\<lparr>w_tick := Suc (w_tick w)\<rparr>) \<and> (\<forall>i x. holds w i x \<longrightarrow> holds (w\<lparr>w_tick := Suc (w_tick w)\<rparr>) i x))"

lemma keeps_world [keeps_intros]:
  "tickless I holds \<Longrightarrow> (\<And>u. keeps I holds (k u)) \<Longrightarrow> keeps I holds (new_uuid G k)"
  "tickless I holds \<Longrightarrow> (\<And>t. keeps I holds (l t)) \<Longrightarrow> keeps I holds (time_now G l)"
  "keeps I holds m \<Longrightarrow> keeps I holds (with_ids G ids m)"
  by (simp_all add: keeps_def new_uuid_def time_now_def with_ids_def fail_op_def tickless_def split: option.split)

lemma keeps_encoded [keeps_intros]: "keeps I holds m \<Longrightarrow> keeps I holds (encoded xs m)"
  by (simp add: encoded_def keeps_fail)

lemma keeps_link_attempts: "keeps I holds m \<Longrightarrow> keeps I holds (link_attempts n m e)"
proof (induction n arbitrary: e)
  case (Suc n)
  show ?case
    unfolding keeps_def
  proof (intro allI impI)
    fix w assume w: "I w"
    obtain r w' where r: "m w = (r, w')" by fastforce
    note k = keepsD [OF Suc.prems w r]
    obtain r2 w2 where r2: "link_attempts n m ConcurrentUpdate w' = (r2, w2)" by fastforce
    note k2 = keepsD [OF Suc.IH [OF Suc.prems] conjunct1 [OF k] r2]
    show "I (snd (link_attempts (Suc n) m e w)) \<and>
        (\<forall>i x. holds w i x \<longrightarrow> holds (snd (link_attempts (Suc n) m e w)) i x)"
      using r r2 k k2 by (cases r) auto
  qed
qed (simp add: keeps_fail)

lemma keeps_link_names:
  assumes "tickless I holds" "\<And>n s i j t. keeps I holds (exec (link_entity mem n s i j t))" "keeps I holds (rows (\<lambda>d. ()))"
  shows "keeps I holds (link_names G mem now names k)"
proof (induction names arbitrary: k)
  case (Cons x names)
  have "keeps I holds (linkOneEntity G mem n s now)" for n s
    unfolding linkOneEntity_def linkOneEntityOnce_def
    by (intro keeps_link_attempts keeps_and_then keeps_world assms)
  then show ?case using Cons by (cases x) (auto intro!: keeps_and_then)
qed (simp add: keeps_return)

lemma keeps_create_groups:
  assumes "\<And>e. keeps I holds (exec (assert_edge e))"
  shows "keeps I holds (create_groups G rels es)"
proof -
  have "keeps I holds (create_group G es)" for es
    by (induction es) (auto intro!: keeps_world(3) keeps_encoded keeps_and_then keeps_Pair keeps_return assms)
  then show ?thesis by (induction rels) (auto intro!: keeps_and_then keeps_Pair keeps_return)
qed

text \<open>With no relation to keep, \<open>keeps\<close> is the preservation of an invariant of the database.\<close>

definition any_row :: "'s \<Rightarrow> uuid \<Rightarrow> string \<Rightarrow> bool" where "any_row w i x = True"

lemma keeps_preserves: "keeps (world_inv I) any_row m = preserves I m"
  by (simp add: keeps_def preserves_def any_row_def)

text \<open>With no other writers and no failures the schedule is empty, and stays so.\<close>

definition idle :: "world \<Rightarrow> bool" where "idle w = (w_sched w = [])"

lemma keeps_idle: "keeps idle any_row (stmt f)" "keeps idle any_row (exec g)" "keeps idle any_row (rows h)"
  by (auto simp: keeps_def idle_def any_row_def stmt_def exec_def rows_def split: prod.split)

lemma tickless_idle: "tickless idle any_row"
  by (simp add: tickless_def idle_def any_row_def fun_eq_iff)

section \<open>What the reading operations return\<close>

lemma toModel_simps [simp]: "m_id (toModel r) = m_id (r_mem r)" "m_content (toModel r) = m_content (r_mem r)"
  "m_project (toModel r) = m_project (r_mem r)"
  by (simp_all add: toModel_def)

lemma by_id_origin: "by_id ms i = Some m \<Longrightarrow> m \<in> set ms \<and> m_id m = i"
proof -
  have "fold (\<lambda>m f. f(m_id m \<mapsto> m)) ms f0 i = Some m \<Longrightarrow> f0 i = Some m \<or> m \<in> set ms \<and> m_id m = i" for f0
  proof (induction ms arbitrary: f0)
    case (Cons a ms)
    then show ?case using Cons.IH [of "f0(m_id a \<mapsto> a)"] by (auto split: if_splits)
  qed simp
  from this [of Map.empty] show "by_id ms i = Some m \<Longrightarrow> m \<in> set ms \<and> m_id m = i" by (simp add: by_id_def)
qed

lemma reads_preserve:
  "preserves I (FindByContentHash p hs)" "preserves I (QueryMemories f)" "preserves I (SearchByVector G v p k)"
  "preserves I (SearchByText G p kws n)" "preserves I (KeywordsAreSearchable G kws)"
  "preserves I (FindMemoriesByEntities p names k)" "preserves I (CountEntityMatches G ids names)"
  "preserves I (SupersededCandidates G ids)"
  by (auto simp: FindByContentHash_def QueryMemories_def SearchByVector_def hydrate_def Let_def SearchByText_def
      SearchByKeywords_def KeywordsAreSearchable_def FindMemoriesByEntities_def CountEntityMatches_def
      SupersededCandidates_def intro!: pres_intros split: option.split prod.split)

lemma rows_acknowledged:
  assumes "rows f w = (Inr y, w')" "world_inv I w"
  shows "\<exists>d. I d \<and> y = f d"
proof (cases "w_sched w")
  case Nil
  then show ?thesis using assms by (auto simp: rows_def stmt_def world_inv_def Let_def)
next
  case (Cons s rest)
  then have "I (st_others s (w_db w))" using assms(2) by (simp add: world_inv_def)
  then show ?thesis using assms(1) Cons
    by (intro exI [of _ "st_others s (w_db w)"]) (auto simp: rows_def stmt_def Let_def split: fault.splits)
qed

lemma rows_keeps_inv: "rows f w = (r, w') \<Longrightarrow> world_inv I w \<Longrightarrow> world_inv I w'"
  using preservesD [OF preserves_rows, of I w f] by simp

text \<open>A hydrated result is a row of the database of that moment, under an identifier that was asked for.\<close>

lemma hydrate_rows:
  assumes "hydrate G hits w = (Inr rs, w')" "world_inv I w" "c \<in> set rs"
  shows "\<exists>d. I d \<and> (\<exists>r \<in> set (d_mems d). mc_memory c = toModel r \<and> m_id (r_mem r) \<in> fst ` set hits)"
proof -
  let ?f = "\<lambda>d. map toModel (filter (\<lambda>r. m_id (r_mem r) \<in> set (map fst hits)) (d_mems d))"
  obtain ms where ms: "rows ?f w = (Inr ms, w')"
    and rs: "rs = List.map_filter (\<lambda>(i, s). map_option (plain_ctx s) (by_id ms i)) hits"
    using assms(1,3) by (auto simp: hydrate_def with_ids_def split: if_splits option.splits elim!: and_then_Inr)
  obtain i s m where "by_id ms i = Some m" "c = plain_ctx s m" using assms(3) by (auto simp: rs List.map_filter_def)
  then have "mc_memory c \<in> set ms" using by_id_origin by (auto simp: plain_ctx_def)
  moreover obtain d where d: "I d" "ms = ?f d" using rows_acknowledged [OF ms assms(2)] by blast
  ultimately obtain r where "r \<in> set (d_mems d)" "mc_memory c = toModel r" "m_id (r_mem r) \<in> fst ` set hits" by auto
  then show ?thesis using d(1) by blast
qed

end
