(* ===== verification/Ingest.thy ===== *)
theory Ingest
  imports Extractor Contradiction Effects "HOL-Library.AList"
begin

text \<open>
  \<^verbatim>\<open>internal/ingest/ingest.go\<close>: the write path.  The repository it uses (\<open>Repo\<close>) is a record of
  operations over a state \<open>'s\<close>; the engine adds the clock and the source of identifiers, the network
  of the embedder and the extractor.  Everything the code does after a memory is committed is
  best effort: a failed step is logged and skipped, which here is \<open>attempt\<close>.  The deadline of the
  detached context is one of the failures an operation may have.  The two loops that spread
  embedding over goroutines fill a map keyed by memory, so they are one pass over the chunks here.

  The contract of the repository (\<open>fact_store\<close>) says which texts a row conveys and that no operation
  makes a row convey less; \<open>GraphStore\<close> meets it under every schedule of other writers that do.
\<close>

section \<open>The repository and the engine\<close>

record 's repo =
  rp_create :: "memory \<Rightarrow> ('s, unit) op"
  rp_edges :: "edge list \<Rightarrow> ('s, unit) op"
  rp_embed :: "uuid \<Rightarrow> string \<Rightarrow> vec \<Rightarrow> ('s, unit) op"
  rp_link :: "uuid \<Rightarrow> uuid \<Rightarrow> ('s, unit) op"
  rp_entities :: "memory \<Rightarrow> string list \<Rightarrow> ('s, nat) op"
  rp_find :: "string \<Rightarrow> string list \<Rightarrow> ('s, content_key \<rightharpoonup> memory) op"
  rp_update :: "uuid \<Rightarrow> string \<Rightarrow> string \<Rightarrow> ('s, bool) op"
  rp_query :: "query_filter \<Rightarrow> ('s, memory_ctx list) op"
  rp_search :: "vec \<Rightarrow> string \<Rightarrow> int \<Rightarrow> ('s, memory_ctx list) op"
  rp_bump :: "uuid list \<Rightarrow> ('s, unit) op"

record 's engine =
  eg_repo :: "'s repo"
  eg_embedder :: "embedder option"
  eg_net :: "'s net"
  eg_extract :: "string \<Rightarrow> ('s, extracted list) op"
  eg_entities :: "string \<Rightarrow> string list"
  eg_uuid :: "'s \<Rightarrow> uuid \<times> 's"
  eg_now :: "'s \<Rightarrow> gtime \<times> 's"
  eg_ustr :: "uuid \<Rightarrow> string"

definition maxSupersedesPerStore :: nat where "maxSupersedesPerStore = 5"
definition contradictionCandidates :: int where "contradictionCandidates = 50"
definition embedBatchSize :: nat where "embedBatchSize = 32"
definition autoLinkCandidates :: int where "autoLinkCandidates = 10"
definition relatesTagWeight :: f64 where "relatesTagWeight = Fin (1/2)"
definition minRelatedCandidates :: nat where "minRelatedCandidates = 3"
definition relatedStdDevs :: f64 where "relatedStdDevs = 1"
definition maxRelatesPerStore :: nat where "maxRelatesPerStore = 5"

section \<open>Contradictions\<close>

text \<open>One edge per confident contradiction, in order, each with its own identifier and time.\<close>

fun supersede_edges :: "'s engine \<Rightarrow> contradiction list \<Rightarrow> ('s, edge list) op" where
  "supersede_edges E [] = return_op []"
| "supersede_edges E (c # cs) =
     (if c_confidence c < Fin (1/2) then supersede_edges E cs
      else draw (eg_uuid E) (\<lambda>i. draw (eg_now E) (\<lambda>t.
        and_then (supersede_edges E cs) (\<lambda>es. return_op
          (\<lparr>e_id = i, e_from = m_id (c_new c), e_to = m_id (c_old c), e_rel = RelSupersedes,
            e_weight = c_confidence c, e_created = t\<rparr> # es)))))"

definition strongest_edges :: "edge list \<Rightarrow> edge list" where
  "strongest_edges es = take maxSupersedesPerStore (sort_stable (\<lambda>a b. e_weight a > e_weight b) es)"

definition semantic_filter :: "string \<Rightarrow> query_filter" where
  "semantic_filter p = \<lparr>qf_project = p, qf_keywords = [], qf_types = [MemoryTypeSemantic],
     qf_topk = contradictionCandidates, qf_overfetch = False\<rparr>"

text \<open>The nil map of the early returns is the empty set: it is only ever looked up.\<close>

definition detectAndSupersede :: "'s engine \<Rightarrow> memory \<Rightarrow> ('s, uuid set) op" where
  "detectAndSupersede E mem =
     (if m_type mem \<noteq> MemoryTypeSemantic then return_op {}
      else attempt (rp_query (eg_repo E) (semantic_filter (m_project mem))) (\<lambda>r. case r of
        None \<Rightarrow> return_op {}
      | Some results \<Rightarrow>
          and_then (supersede_edges E (DetectContradictions mem (map mc_memory results))) (\<lambda>es.
          attempt (rp_edges (eg_repo E) (strongest_edges es)) (\<lambda>ok. case ok of
            None \<Rightarrow> return_op {}
          | Some u \<Rightarrow> return_op (e_to ` set (strongest_edges es))))))"

section \<open>Embedding what was extracted\<close>

function embed_loop :: "'s engine \<Rightarrow> embedder \<Rightarrow> nat \<Rightarrow> memory list \<Rightarrow> (uuid \<rightharpoonup> vec) \<Rightarrow> ('s, uuid \<rightharpoonup> vec) op" where
  "embed_loop E e n ms vectors =
     (if ms = [] \<or> n = 0 then return_op vectors
      else attempt (EmbedBatch (eg_net E) e (map m_content (take n ms))) (\<lambda>r.
        embed_loop E e n (drop n ms)
          (case r of
             None \<Rightarrow> vectors
           | Some vecs \<Rightarrow> if length vecs \<noteq> length (take n ms) then vectors
                         else fold (\<lambda>(m, v) f. f(m_id m \<mapsto> v)) (zip (take n ms) vecs) vectors)))"
  by pat_completeness auto
termination by (relation "measure (\<lambda>(E, e, n, ms, vectors). length ms)") auto

declare embed_loop.simps [simp del]

definition embedExtracted :: "'s engine \<Rightarrow> memory list \<Rightarrow> ('s, uuid \<rightharpoonup> vec) op" where
  "embedExtracted E memories =
     (case eg_embedder E of
        None \<Rightarrow> return_op Map.empty
      | Some e \<Rightarrow>
          if length memories = 0 then return_op Map.empty
          else embed_loop E e (if is_batch e then embedBatchSize else 1) memories Map.empty)"

section \<open>Consolidation\<close>

definition existingByContent :: "'s engine \<Rightarrow> string \<Rightarrow> memory list \<Rightarrow> ('s, content_key \<rightharpoonup> memory) op" where
  "existingByContent E projectID memories =
     (if length memories = 0 then return_op Map.empty
      else attempt
        (rp_find (eg_repo E) projectID
           (first_by (\<lambda>h. h) (\<lambda>h. h = []) {} (map (\<lambda>m. ContentHash (m_content m)) memories)))
        (\<lambda>r. case r of None \<Rightarrow> return_op Map.empty | Some existing \<Rightarrow> return_op existing))"

text \<open>\<open>None\<close> is the false return: the fold did not hold.\<close>

definition bump_existing :: "'s engine \<Rightarrow> memory \<Rightarrow> ('s, memory option) op" where
  "bump_existing E existing =
     attempt (rp_bump (eg_repo E) [m_id existing]) (\<lambda>_. return_op (Some existing))"

definition reembed :: "'s engine \<Rightarrow> memory \<Rightarrow> memory \<Rightarrow> ('s, unit) op" where
  "reembed E mem existing =
     (case eg_embedder E of
        None \<Rightarrow> return_op ()
      | Some e \<Rightarrow> attempt (Embed (eg_net E) e (m_content mem)) (\<lambda>r. case r of
            None \<Rightarrow> return_op ()
          | Some v \<Rightarrow> attempt (rp_embed (eg_repo E) (m_id existing) (m_project existing) v) (\<lambda>_. return_op ())))"

definition foldInto :: "'s engine \<Rightarrow> memory \<Rightarrow> memory \<Rightarrow> Subsumption \<Rightarrow> ('s, memory option) op" where
  "foldInto E mem existing verdict =
     (if verdict = NewSubsumesOld then
        attempt (rp_update (eg_repo E) (m_id existing) (ContentHash (m_content existing)) (m_content mem)) (\<lambda>r.
          case r of
            Some True \<Rightarrow> and_then (reembed E mem existing) (\<lambda>_.
              bump_existing E (existing\<lparr>m_content := m_content mem\<rparr>))
          | _ \<Rightarrow> return_op None)
      else bump_existing E existing)"

definition semanticNeighbours :: "'s engine \<Rightarrow> memory \<Rightarrow> vec option \<Rightarrow> ('s, memory_ctx list) op" where
  "semanticNeighbours E mem vector =
     (case vector of
        None \<Rightarrow> return_op []
      | Some v \<Rightarrow> attempt (rp_search (eg_repo E) v (m_project mem) autoLinkCandidates)
          (\<lambda>r. case r of None \<Rightarrow> return_op [] | Some ns \<Rightarrow> return_op ns))"

fun consolidateAgainst :: "memory \<Rightarrow> memory_ctx list \<Rightarrow> (memory \<times> Subsumption) option" where
  "consolidateAgainst mem [] = None"
| "consolidateAgainst mem (n # ns) =
     (if m_id (mc_memory n) = m_id mem \<or> m_type (mc_memory n) \<noteq> m_type mem then consolidateAgainst mem ns
      else case Subsumes (m_content mem) (m_content (mc_memory n)) of
        Distinct \<Rightarrow> consolidateAgainst mem ns
      | verdict \<Rightarrow> Some (mc_memory n, verdict))"

section \<open>Automatic links\<close>

definition hasOverlappingTags :: "string list \<Rightarrow> string list \<Rightarrow> bool" where
  "hasOverlappingTags a b = list_ex (\<lambda>t. to_lower t \<in> to_lower ` set a) b"

text \<open>The bar a similarity has to clear: the mean, plus one deviation with enough candidates.\<close>

definition related_floor :: "f64 list \<Rightarrow> f64" where
  "related_floor scores =
     (let n = f_of_nat (length scores); mean = sum_f64 scores / n in
      if length scores \<ge> minRelatedCandidates
      then mean + relatedStdDevs * math_sqrt (sum_f64 (map (\<lambda>s. (s - mean) * (s - mean)) scores) / n)
      else mean)"

text \<open>\<open>seen\<close>, the map from memories to weights, as an association list.\<close>

definition tag_pass :: "memory \<Rightarrow> (uuid \<Rightarrow> bool) \<Rightarrow> memory_ctx list \<Rightarrow> (uuid \<times> f64) list" where
  "tag_pass mem skip existing =
     fold (\<lambda>e seen. let m = mc_memory e in
        if skip (m_id m) then seen
        else if hasOverlappingTags (m_tags mem) (m_tags m) then AList.update (m_id m) relatesTagWeight seen
        else seen) existing []"

definition vector_pass :: "(uuid \<Rightarrow> bool) \<Rightarrow> memory_ctx list \<Rightarrow> (uuid \<times> f64) list \<Rightarrow> (uuid \<times> f64) list" where
  "vector_pass skip neighbours seen =
     (let scores = map mc_score (filter (\<lambda>n. \<not> skip (m_id (mc_memory n))) neighbours) in
      if length scores = 0 then seen
      else fold (\<lambda>n seen. let i = m_id (mc_memory n) in
        if skip i \<or> mc_score n < related_floor scores then seen
        else case map_of seen i of
          Some w \<Rightarrow> if w \<ge> mc_score n then seen else AList.update i (mc_score n) seen
        | None \<Rightarrow> AList.update i (mc_score n) seen) neighbours seen)"

definition link_before :: "(uuid \<Rightarrow> string) \<Rightarrow> uuid \<times> f64 \<Rightarrow> uuid \<times> f64 \<Rightarrow> bool" where
  "link_before ustr a b =
     (if \<not> feq (snd a) (snd b) then snd a > snd b
      else ord_class.lexordp (map code_of (ustr (fst a))) (map code_of (ustr (fst b))))"

definition link_candidates :: "(uuid \<Rightarrow> string) \<Rightarrow> (uuid \<times> f64) list \<Rightarrow> (uuid \<times> f64) list" where
  "link_candidates ustr seen = take maxRelatesPerStore (sort_stable (link_before ustr) seen)"

fun relate_edges :: "'s engine \<Rightarrow> uuid \<Rightarrow> gtime \<Rightarrow> (uuid \<times> f64) list \<Rightarrow> ('s, edge list) op" where
  "relate_edges E from t [] = return_op []"
| "relate_edges E from t ((i, w) # cs) =
     draw (eg_uuid E) (\<lambda>u. and_then (relate_edges E from t cs) (\<lambda>es. return_op
       (\<lparr>e_id = u, e_from = from, e_to = i, e_rel = RelRelatesTo, e_weight = w, e_created = t\<rparr> # es)))"

definition recent_filter :: "string \<Rightarrow> query_filter" where
  "recent_filter p = \<lparr>qf_project = p, qf_keywords = [], qf_types = [], qf_topk = autoLinkCandidates, qf_overfetch = False\<rparr>"

definition autoLinkByTags :: "'s engine \<Rightarrow> memory \<Rightarrow> uuid set \<Rightarrow> memory_ctx list \<Rightarrow> ('s, nat) op" where
  "autoLinkByTags E mem already neighbours =
     (let skip = (\<lambda>i. i = m_id mem \<or> i \<in> already) in
      attempt (rp_query (eg_repo E) (recent_filter (m_project mem))) (\<lambda>r.
      let seen = (case r of None \<Rightarrow> [] | Some existing \<Rightarrow> tag_pass mem skip existing);
          cands = link_candidates (eg_ustr E) (vector_pass skip neighbours seen)
      in draw (eg_now E) (\<lambda>t.
         and_then (relate_edges E (m_id mem) t cands) (\<lambda>es.
         attempt (rp_edges (eg_repo E) es) (\<lambda>ok. return_op (case ok of None \<Rightarrow> 0 | Some u \<Rightarrow> length es))))))"

section \<open>Store\<close>

definition link_entities_of :: "'s engine \<Rightarrow> memory \<Rightarrow> string list \<Rightarrow> ('s, nat) op" where
  "link_entities_of E mem names =
     attempt (rp_entities (eg_repo E) mem names) (\<lambda>r. return_op (case r of None \<Rightarrow> 0 | Some n \<Rightarrow> n))"

definition store_vector :: "'s engine \<Rightarrow> memory \<Rightarrow> ('s, vec option) op" where
  "store_vector E mem =
     (case eg_embedder E of
        None \<Rightarrow> return_op None
      | Some e \<Rightarrow> attempt (Embed (eg_net E) e (m_content mem)) (\<lambda>r. case r of
            None \<Rightarrow> return_op None
          | Some v \<Rightarrow> attempt (rp_embed (eg_repo E) (m_id mem) (m_project mem) v) (\<lambda>_. return_op (Some v))))"

definition finish_store :: "'s engine \<Rightarrow> memory \<Rightarrow> vec option \<Rightarrow> ('s, unit) op" where
  "finish_store E mem v =
     and_then (detectAndSupersede E mem) (\<lambda>superseded.
     and_then (semanticNeighbours E mem v) (\<lambda>ns.
     and_then (autoLinkByTags E mem superseded ns) (\<lambda>_.
     let names = eg_entities E (m_content mem) in
     if length names > 0 then and_then (link_entities_of E mem names) (\<lambda>_. return_op ()) else return_op ())))"

definition Store :: "'s engine \<Rightarrow> memory \<Rightarrow> uuid \<Rightarrow> ('s, unit) op" where
  "Store E mem sessionID =
     and_then (rp_create (eg_repo E) mem) (\<lambda>_.
     and_then (store_vector E mem) (\<lambda>v.
     and_then (if sessionID \<noteq> nil_uuid then rp_link (eg_repo E) sessionID (m_id mem) else return_op ()) (\<lambda>_.
     finish_store E mem v)))"

section \<open>Extract\<close>

fun ToMemories_loop :: "'s engine \<Rightarrow> gtime \<Rightarrow> string \<Rightarrow> extracted list \<Rightarrow> ('s, memory list) op" where
  "ToMemories_loop E now projectID [] = return_op []"
| "ToMemories_loop E now projectID (e # es) =
     draw (eg_uuid E) (\<lambda>i. and_then (ToMemories_loop E now projectID es) (\<lambda>ms. return_op
       (\<lparr>m_id = i, m_content = x_content e, m_type = x_type e, m_project = projectID, m_tags = x_tags e,
         m_created = now, m_access = 0, m_decay = 1\<rparr> # ms)))"

definition ToMemories :: "'s engine \<Rightarrow> extracted list \<Rightarrow> string \<Rightarrow> ('s, memory list) op" where
  "ToMemories E es projectID = draw (eg_now E) (\<lambda>now. ToMemories_loop E now projectID es)"

text \<open>
  The body of the loop over \<open>pending\<close>: the memory reported in the slot, if any, and the number of
  relationships written.
\<close>

definition record_extracted ::
  "'s engine \<Rightarrow> uuid \<Rightarrow> (uuid \<rightharpoonup> vec) \<Rightarrow> memory_ctx list \<Rightarrow> memory \<Rightarrow> string list \<Rightarrow> ('s, nat) op" where
  "record_extracted E sessionID vectors neighbours mem entities =
     and_then (case (eg_embedder E, vectors (m_id mem)) of
         (Some e, Some v) \<Rightarrow> attempt (rp_embed (eg_repo E) (m_id mem) (m_project mem) v) (\<lambda>_. return_op ())
       | _ \<Rightarrow> return_op ()) (\<lambda>_.
     and_then (if sessionID \<noteq> nil_uuid
         then attempt (rp_link (eg_repo E) sessionID (m_id mem)) (\<lambda>_. return_op ()) else return_op ()) (\<lambda>_.
     and_then (detectAndSupersede E mem) (\<lambda>superseded.
     and_then (autoLinkByTags E mem superseded neighbours) (\<lambda>n.
     and_then (link_entities_of E mem entities) (\<lambda>l. return_op (n + l))))))"

definition finish_extracted ::
  "'s engine \<Rightarrow> uuid \<Rightarrow> (uuid \<rightharpoonup> vec) \<Rightarrow> memory_ctx list \<Rightarrow> memory \<Rightarrow> string list \<Rightarrow> ('s, memory option \<times> nat) op" where
  "finish_extracted E sessionID vectors neighbours mem entities =
     attempt (rp_create (eg_repo E) mem) (\<lambda>r. case r of
       None \<Rightarrow> return_op (None, 0)
     | Some u \<Rightarrow> and_then (record_extracted E sessionID vectors neighbours mem entities)
                   (\<lambda>k. return_op (Some mem, k)))"

definition write_pending ::
  "'s engine \<Rightarrow> uuid \<Rightarrow> (uuid \<rightharpoonup> vec) \<Rightarrow> memory \<Rightarrow> string list \<Rightarrow> ('s, memory option \<times> nat) op" where
  "write_pending E sessionID vectors mem entities =
     and_then (semanticNeighbours E mem (vectors (m_id mem))) (\<lambda>neighbours.
     case consolidateAgainst mem neighbours of
       None \<Rightarrow> finish_extracted E sessionID vectors neighbours mem entities
     | Some (existing, verdict) \<Rightarrow>
         and_then (foldInto E mem existing verdict) (\<lambda>folded. case folded of
           Some m \<Rightarrow> return_op (Some m, 0)
         | None \<Rightarrow> finish_extracted E sessionID vectors neighbours mem entities))"

text \<open>The slots of \<open>reported\<close>: those stage 2 resolved are kept, the others are filled in order.\<close>

fun write_slots ::
  "'s engine \<Rightarrow> uuid \<Rightarrow> (uuid \<rightharpoonup> vec) \<Rightarrow> (memory \<times> string list \<times> memory option) list \<Rightarrow> nat \<Rightarrow>
     ('s, memory option list \<times> nat) op" where
  "write_slots E sessionID vectors [] relCount = return_op ([], relCount)"
| "write_slots E sessionID vectors ((mem, entities, Some existing) # rest) relCount =
     and_then (write_slots E sessionID vectors rest relCount) (\<lambda>(slots, n). return_op (Some existing # slots, n))"
| "write_slots E sessionID vectors ((mem, entities, None) # rest) relCount =
     and_then (write_pending E sessionID vectors mem entities) (\<lambda>(reported, k).
     and_then (write_slots E sessionID vectors rest (relCount + k)) (\<lambda>(slots, n).
       return_op (reported # slots, n)))"

definition duplicate_of :: "(content_key \<rightharpoonup> memory) \<Rightarrow> memory \<Rightarrow> memory option" where
  "duplicate_of duplicates mem = duplicates (ContentHash (m_content mem), m_type mem)"

definition pair_slots ::
  "memory list \<Rightarrow> extracted list \<Rightarrow> (content_key \<rightharpoonup> memory) \<Rightarrow> (memory \<times> string list \<times> memory option) list" where
  "pair_slots memories folded duplicates =
     map (\<lambda>(m, e). (m, x_entities e, duplicate_of duplicates m)) (zip memories folded)"

definition write_all ::
  "'s engine \<Rightarrow> uuid \<Rightarrow> extracted list \<Rightarrow> (memory \<times> string list \<times> memory option) list \<Rightarrow>
     ('s, extracted list \<times> memory option list \<times> nat) op" where
  "write_all E sessionID extracted slots =
     attempt (rp_bump (eg_repo E) (List.map_filter (\<lambda>(m, es, dup). map_option m_id dup) slots)) (\<lambda>_.
     and_then (embedExtracted E (map fst (filter (\<lambda>(m, es, dup). dup = None) slots))) (\<lambda>vectors.
     and_then (write_slots E sessionID vectors slots 0) (\<lambda>(reported, relCount).
     return_op (extracted, reported, relCount))))"

definition extract_rest ::
  "'s engine \<Rightarrow> string \<Rightarrow> uuid \<Rightarrow> extracted list \<Rightarrow> ('s, extracted list \<times> memory option list \<times> nat) op" where
  "extract_rest E projectID sessionID extracted =
     and_then (ToMemories E (FoldRedundant extracted) projectID) (\<lambda>memories.
     and_then (existingByContent E projectID memories) (\<lambda>duplicates.
     write_all E sessionID extracted (pair_slots memories (FoldRedundant extracted) duplicates)))"

text \<open>Everything \<open>Extract\<close> does up to the compaction: what was extracted, and the slots.\<close>

definition Extract_slots ::
  "'s engine \<Rightarrow> string \<Rightarrow> string \<Rightarrow> uuid \<Rightarrow> ('s, extracted list \<times> memory option list \<times> nat) op" where
  "Extract_slots E conversation projectID sessionID =
     and_then (eg_extract E conversation) (extract_rest E projectID sessionID)"

definition engine_Extract :: "'s engine \<Rightarrow> string \<Rightarrow> string \<Rightarrow> uuid \<Rightarrow> ('s, memory list \<times> nat) op" where
  "engine_Extract E conversation projectID sessionID =
     and_then (Extract_slots E conversation projectID sessionID) (\<lambda>(extracted, reported, relCount).
       return_op (List.map_filter (\<lambda>r. r) reported, relCount))"

section \<open>What a row conveys\<close>

text \<open>
  \<open>restates a b\<close>: replacing text \<open>a\<close> by text \<open>b\<close> loses nothing.  The two have one fingerprint, or the
  words of \<open>a\<close> occur in \<open>b\<close> in order and both assert with the same polarity.  \<open>conveys\<close> is its
  reflexive transitive closure: how a fact may have been reworded since it was stored.
\<close>

definition restates :: "string \<Rightarrow> string \<Rightarrow> bool" where
  "restates a b = (ContentHash a = ContentHash b \<or>
     subseq (ContentTokens a) (ContentTokens b) \<and> hasPolarityMarker (ContentTokens a) = hasPolarityMarker (ContentTokens b))"

inductive conveys :: "string \<Rightarrow> string \<Rightarrow> bool" where
  same: "conveys a a"
| reworded: "conveys a b \<Longrightarrow> restates b c \<Longrightarrow> conveys a c"

lemma conveys_restates: "restates a b \<Longrightarrow> conveys a b"
  by (rule reworded [OF same])

lemma conveys_trans: "conveys b c \<Longrightarrow> conveys a b \<Longrightarrow> conveys a c"
  by (induction rule: conveys.induct) (auto intro: reworded)

lemma Subsumes_restates:
  "Subsumes n s = NewSubsumesOld \<Longrightarrow> restates s n"
  "Subsumes n s = Equivalent \<Longrightarrow> restates n s"
  "Subsumes n s = OldSubsumesNew \<Longrightarrow> restates n s"
  using Subsumes_cases [of n s]
  by (auto simp: restates_def polar_def)

lemma covers_restates: "covers k m \<Longrightarrow> restates (x_content m) (x_content k)"
  by (auto simp: covers_def restates_def polar_def)

section \<open>The contract of the repository\<close>

locale fact_store =
  fixes R :: "'s repo" and I :: "'s \<Rightarrow> bool" and holds :: "'s \<Rightarrow> uuid \<Rightarrow> string \<Rightarrow> bool"
  assumes holds_conveys: "holds s i b \<Longrightarrow> conveys a b \<Longrightarrow> holds s i a"
    and create_keeps: "keeps I holds (rp_create R mem)"
    and edges_keeps: "keeps I holds (rp_edges R es)"
    and embed_keeps: "keeps I holds (rp_embed R i p v)"
    and link_keeps: "keeps I holds (rp_link R i j)"
    and entities_keeps: "keeps I holds (rp_entities R mem names)"
    and find_keeps: "keeps I holds (rp_find R p hs)"
    and query_keeps: "keeps I holds (rp_query R f)"
    and search_keeps: "keeps I holds (rp_search R v p k)"
    and bump_keeps: "keeps I holds (rp_bump R ids)"
    and update_keeps: "restates old new \<Longrightarrow> keeps I holds (rp_update R i (ContentHash old) new)"
    and created: "I s \<Longrightarrow> rp_create R mem s = (Inr u, s') \<Longrightarrow> holds s' (m_id mem) (m_content mem)"
    and found: "I s \<Longrightarrow> rp_find R p hs s = (Inr g, s') \<Longrightarrow> g (ContentHash a, t) = Some m \<Longrightarrow> holds s' (m_id m) a"
    and near: "I s \<Longrightarrow> rp_search R v p k s = (Inr ns, s') \<Longrightarrow> n \<in> set ns \<Longrightarrow>
      holds s' (m_id (mc_memory n)) (m_content (mc_memory n))"
    and updated: "I s \<Longrightarrow> restates old new \<Longrightarrow> rp_update R i (ContentHash old) new s = (Inr True, s') \<Longrightarrow> holds s' i new"

locale ingest_engine = fact_store +
  fixes E :: "'a engine"
  assumes repo: "eg_repo E = R"
    and net_keeps: "keeps I holds (eg_net E url auth body)"
    and extract_keeps: "keeps I holds (eg_extract E c)"
    and uuid_keeps: "keeps I holds (eg_uuid E)"
    and now_keeps: "keeps I holds (eg_now E)"
begin

lemmas repo_keeps = create_keeps edges_keeps embed_keeps link_keeps entities_keeps find_keeps query_keeps
  search_keeps bump_keeps

lemmas keeps_all = keeps_intros repo_keeps [folded repo] net_keeps extract_keeps uuid_keeps now_keeps

lemmas Embed_keeps = keeps_Embed [OF net_keeps]
lemmas EmbedBatch_keeps = keeps_EmbedBatch [OF net_keeps]

lemma embed_loop_keeps: "keeps I holds (embed_loop E e n ms vectors)"
proof (induction ms arbitrary: vectors rule: length_induct)
  case (1 ms)
  show ?case
  proof (cases "ms = [] \<or> n = 0")
    case True
    then show ?thesis by (subst embed_loop.simps) (simp add: keeps_return)
  next
    case False
    then have "length (drop n ms) < length ms" by simp
    then have "keeps I holds (embed_loop E e n (drop n ms) f)" for f using 1 by blast
    then show ?thesis
      by (subst embed_loop.simps) (simp add: False keeps_attempt EmbedBatch_keeps)
  qed
qed

lemma embedExtracted_keeps: "keeps I holds (embedExtracted E ms)"
  by (auto simp: embedExtracted_def intro!: keeps_all embed_loop_keeps)

lemma supersede_edges_keeps: "keeps I holds (supersede_edges E cs)"
  by (induction cs) (auto intro!: keeps_all)

lemma detect_keeps: "keeps I holds (detectAndSupersede E mem)"
  by (auto simp: detectAndSupersede_def intro!: keeps_all supersede_edges_keeps)

lemma existing_keeps: "keeps I holds (existingByContent E p ms)"
  by (auto simp: existingByContent_def intro!: keeps_all)

lemma neighbours_keeps: "keeps I holds (semanticNeighbours E mem v)"
  by (auto simp: semanticNeighbours_def intro!: keeps_all)

lemma bump_existing_keeps: "keeps I holds (bump_existing E m)"
  by (auto simp: bump_existing_def intro!: keeps_all)

lemma reembed_keeps: "keeps I holds (reembed E mem existing)"
  by (auto simp: reembed_def intro!: keeps_all Embed_keeps)

lemma foldInto_keeps:
  assumes "verdict = NewSubsumesOld \<Longrightarrow> restates (m_content existing) (m_content mem)"
  shows "keeps I holds (foldInto E mem existing verdict)"
proof (cases "verdict = NewSubsumesOld")
  case True
  then have "keeps I holds (rp_update (eg_repo E) (m_id existing) (ContentHash (m_content existing)) (m_content mem))"
    using assms update_keeps by (simp add: repo)
  then show ?thesis
    by (auto simp: foldInto_def True intro!: keeps_all reembed_keeps bump_existing_keeps split: bool.split)
qed (simp add: foldInto_def bump_existing_keeps)

lemma relate_edges_keeps: "keeps I holds (relate_edges E i t cs)"
  by (induction cs) (auto intro!: keeps_all)

lemma autoLink_keeps: "keeps I holds (autoLinkByTags E mem already ns)"
  by (auto simp: autoLinkByTags_def Let_def intro!: keeps_all relate_edges_keeps)

lemma link_entities_keeps: "keeps I holds (link_entities_of E mem names)"
  by (auto simp: link_entities_of_def intro!: keeps_all)

lemma ToMemories_keeps: "keeps I holds (ToMemories E es p)"
proof -
  have "keeps I holds (ToMemories_loop E now p es)" for now
    by (induction es) (auto intro!: keeps_all)
  then show ?thesis by (auto simp: ToMemories_def intro!: keeps_all)
qed

lemma record_extracted_keeps: "keeps I holds (record_extracted E sess vectors ns mem names)"
  by (auto simp: record_extracted_def intro!: keeps_all detect_keeps autoLink_keeps link_entities_keeps
      split: option.split)

lemma finish_extracted_keeps: "keeps I holds (finish_extracted E sess vectors ns mem names)"
  unfolding finish_extracted_def by (intro keeps_all record_extracted_keeps)

lemma Store_keeps: "keeps I holds (Store E mem sess)"
  by (auto simp: Store_def store_vector_def finish_store_def Let_def
      intro!: keeps_all Embed_keeps detect_keeps autoLink_keeps link_entities_keeps neighbours_keeps)

end

section \<open>Extraction loses no fact\<close>

lemma consolidate_Some:
  "consolidateAgainst mem ns = Some (x, verdict) \<Longrightarrow>
     (\<exists>n \<in> set ns. x = mc_memory n) \<and> verdict = Subsumes (m_content mem) (m_content x) \<and> verdict \<noteq> Distinct \<and>
     m_type x = m_type mem \<and> m_id x \<noteq> m_id mem"
  by (induction mem ns rule: consolidateAgainst.induct) (auto split: if_splits Subsumption.splits)

lemma ToMemories_loop_Inr:
  "ToMemories_loop E now p es s = (Inr ms, s') \<Longrightarrow>
     map m_content ms = map x_content es \<and> map m_type ms = map x_type es"
proof (induction es arbitrary: s ms)
  case (Cons e es)
  obtain i s0 where i: "eg_uuid E s = (i, s0)" by (cases "eg_uuid E s")
  obtain ms' where "ToMemories_loop E now p es s0 = (Inr ms', s')"
    "ms = \<lparr>m_id = i, m_content = x_content e, m_type = x_type e, m_project = p, m_tags = x_tags e,
         m_created = now, m_access = 0, m_decay = 1\<rparr> # ms'"
    using Cons.prems by (auto simp: draw_def i elim!: and_then_Inr)
  then show ?case using Cons.IH by auto
qed auto

lemma ToMemories_Inr:
  "ToMemories E es p s = (Inr ms, s') \<Longrightarrow> map m_content ms = map x_content es \<and> map m_type ms = map x_type es"
  using ToMemories_loop_Inr by (fastforce simp: ToMemories_def draw_def split: prod.splits)

lemma extract_rest_es: "extract_rest E p sess es s = (Inr (es', rs, k), s') \<Longrightarrow> es' = es"
  by (auto simp: extract_rest_def write_all_def elim!: and_then_Inr attempt_cases)

text \<open>What a filled slot promises: the row it names conveys the memory of the slot.\<close>

definition slot_holds :: "('s \<Rightarrow> uuid \<Rightarrow> string \<Rightarrow> bool) \<Rightarrow> 's \<Rightarrow> string \<Rightarrow> memory option \<Rightarrow> bool" where
  "slot_holds holds s x r = (case r of None \<Rightarrow> True | Some m \<Rightarrow> holds s (m_id m) x)"

context ingest_engine
begin

lemma bump_existing_Inr: "bump_existing E m s = (Inr r, s') \<Longrightarrow> r = Some m"
  by (auto simp: bump_existing_def elim!: attempt_cases)

lemma foldInto_holds:
  assumes s: "I s" "holds s (m_id x) (m_content x)"
    and v: "verdict = Subsumes (m_content mem) (m_content x)" "verdict \<noteq> Distinct"
    and r: "foldInto E mem x verdict s = (Inr (Some m), s')"
  shows "holds s' (m_id m) (m_content mem)"
proof (cases "verdict = NewSubsumesOld")
  case True
  have re: "restates (m_content x) (m_content mem)" using True v(1) Subsumes_restates(1) by simp
  from r obtain s1 s2 u where up: "rp_update (eg_repo E) (m_id x) (ContentHash (m_content x)) (m_content mem) s = (Inr True, s1)"
    and em: "reembed E mem x s1 = (u, s2)" and b: "bump_existing E (x\<lparr>m_content := m_content mem\<rparr>) s2 = (Inr (Some m), s')"
    by (auto simp: foldInto_def True elim!: attempt_cases and_then_Inr split: bool.splits)
  have "I s1" using keepsD [OF update_keeps [OF re] s(1)] up by (simp add: repo)
  moreover have "holds s1 (m_id x) (m_content mem)" using updated [OF s(1) re] up by (simp add: repo)
  ultimately have "I s2" "holds s2 (m_id x) (m_content mem)" using keepsD [OF reembed_keeps _ em] by blast+
  then have "holds s' (m_id x) (m_content mem)" using keepsD [OF bump_existing_keeps _ b] by blast
  then show ?thesis using bump_existing_Inr [OF b] by simp
next
  case False
  then have b: "bump_existing E x s = (Inr (Some m), s')" using r by (simp add: foldInto_def)
  have "restates (m_content mem) (m_content x)" using v False Subsumes_restates(2,3) by (cases verdict) auto
  then have "holds s (m_id x) (m_content mem)" using holds_conveys [OF s(2)] conveys_restates by blast
  then show ?thesis using keepsD [OF bump_existing_keeps s(1) b] bump_existing_Inr [OF b] by simp
qed

lemma finish_extracted_holds:
  assumes "I s" "finish_extracted E sess vectors ns mem names s = (Inr (Some m, k), s')"
  shows "holds s' (m_id m) (m_content mem)"
proof -
  obtain u s1 where c: "rp_create (eg_repo E) mem s = (Inr u, s1)" and m: "m = mem" and
    rc: "record_extracted E sess vectors ns mem names s1 = (Inr k, s')"
    using assms(2) by (auto simp: finish_extracted_def elim!: attempt_cases and_then_Inr)
  have "holds s1 (m_id mem) (m_content mem)" "I s1"
    using created [OF assms(1)] keepsD [OF create_keeps assms(1)] c by (simp_all add: repo)
  then show ?thesis using keepsD [OF record_extracted_keeps _ rc] m by blast
qed

lemma semanticNeighbours_holds:
  assumes "I s" "semanticNeighbours E mem v s = (Inr ns, s')" "n \<in> set ns"
  shows "holds s' (m_id (mc_memory n)) (m_content (mc_memory n))"
  using assms near by (fastforce simp: semanticNeighbours_def repo split: option.splits elim!: attempt_cases)

lemma write_pending_holds:
  assumes "I s" "write_pending E sess vectors mem names s = (Inr (Some m, k), s')"
  shows "holds s' (m_id m) (m_content mem)"
proof -
  from assms(2) obtain ns s1 where n: "semanticNeighbours E mem (vectors (m_id mem)) s = (Inr ns, s1)"
    and r: "(case consolidateAgainst mem ns of
       None \<Rightarrow> finish_extracted E sess vectors ns mem names
     | Some (existing, verdict) \<Rightarrow>
         and_then (foldInto E mem existing verdict) (\<lambda>folded. case folded of
           Some m \<Rightarrow> return_op (Some m, 0)
         | None \<Rightarrow> finish_extracted E sess vectors ns mem names)) s1 = (Inr (Some m, k), s')"
    unfolding write_pending_def by (elim and_then_Inr)
  have s1: "I s1" using keepsD [OF neighbours_keeps assms(1) n] by blast
  show ?thesis
  proof (cases "consolidateAgainst mem ns")
    case None
    then show ?thesis using r finish_extracted_holds [OF s1] by simp
  next
    case (Some p)
    obtain x verdict where p: "p = (x, verdict)" by (cases p)
    have c: "\<exists>n \<in> set ns. x = mc_memory n" "verdict = Subsumes (m_content mem) (m_content x)" "verdict \<noteq> Distinct"
      using consolidate_Some [OF Some [unfolded p]] by auto
    then have h: "holds s1 (m_id x) (m_content x)" using semanticNeighbours_holds [OF assms(1) n] by blast
    from r Some p obtain f s2 where f: "foldInto E mem x verdict s1 = (Inr f, s2)"
      and r2: "(case f of Some m \<Rightarrow> return_op (Some m, 0) | None \<Rightarrow> finish_extracted E sess vectors ns mem names) s2
        = (Inr (Some m, k), s')"
      by (auto elim!: and_then_Inr)
    have fk: "keeps I holds (foldInto E mem x verdict)"
      by (rule foldInto_keeps) (use c(2) Subsumes_restates(1) in simp)
    show ?thesis
    proof (cases f)
      case None
      then have "finish_extracted E sess vectors ns mem names s2 = (Inr (Some m, k), s')" using r2 by simp
      moreover have "I s2" using keepsD [OF fk s1 f] by blast
      ultimately show ?thesis by (rule finish_extracted_holds [rotated])
    next
      case (Some y)
      then have "y = m" "s2 = s'" using r2 by simp_all
      then show ?thesis using foldInto_holds [OF s1 h c(2,3)] f Some by simp
    qed
  qed
qed

lemma write_pending_keeps: "keeps I holds (write_pending E sess vectors mem names)"
proof -
  have "keeps I holds (foldInto E mem x v)" if "consolidateAgainst mem ns = Some (x, v)" for ns x v
    by (rule foldInto_keeps) (use consolidate_Some [OF that] Subsumes_restates(1) in simp)
  then have "keeps I holds (case consolidateAgainst mem ns of
       None \<Rightarrow> finish_extracted E sess vectors ns mem names
     | Some (x, v) \<Rightarrow> and_then (foldInto E mem x v) (\<lambda>folded. case folded of
           Some m \<Rightarrow> return_op (Some m, 0) | None \<Rightarrow> finish_extracted E sess vectors ns mem names))" for ns
    by (auto split: option.split intro!: finish_extracted_keeps keeps_intros)
  then show ?thesis unfolding write_pending_def by (intro keeps_and_then neighbours_keeps)
qed

lemma slot_holds_mono: "I s \<Longrightarrow> keeps I holds m \<Longrightarrow> m s = (r, s') \<Longrightarrow> slot_holds holds s x y \<Longrightarrow> slot_holds holds s' x y"
  using keepsD by (fastforce simp: slot_holds_def split: option.splits)

lemma write_slots_keeps: "keeps I holds (write_slots E sess vectors ps n)"
proof (induction ps arbitrary: n)
  case (Cons p ps)
  obtain mem names dup where "p = (mem, names, dup)" by (cases p)
  then show ?case using Cons.IH by (cases dup) (auto intro!: keeps_intros write_pending_keeps)
qed (simp add: keeps_return)

lemma write_slots_holds:
  assumes "I s" "write_slots E sess vectors ps n s = (Inr (rs, k), s')"
    and "\<forall>p \<in> set ps. slot_holds holds s (m_content (fst p)) (snd (snd p))"
  shows "list_all2 (\<lambda>p r. slot_holds holds s' (m_content (fst p)) r) ps rs"
  using assms
proof (induction ps arbitrary: n s rs k)
  case (Cons p ps)
  obtain mem names dup where p: "p = (mem, names, dup)" by (cases p)
  show ?case
  proof (cases dup)
    case (Some x)
    obtain rs' where w: "write_slots E sess vectors ps n s = (Inr (rs', k), s')" and rs: "rs = Some x # rs'"
      using Cons.prems(2) by (auto simp: p Some elim!: and_then_Inr)
    have "slot_holds holds s' (m_content mem) (Some x)"
      using slot_holds_mono [OF Cons.prems(1) write_slots_keeps w] Cons.prems(3) by (simp add: p Some)
    then show ?thesis using Cons.IH [OF Cons.prems(1) w] Cons.prems(3) by (simp add: rs p)
  next
    case None
    obtain r k1 s1 rs' where w: "write_pending E sess vectors mem names s = (Inr (r, k1), s1)"
      and ws: "write_slots E sess vectors ps (n + k1) s1 = (Inr (rs', k), s')" and rs: "rs = r # rs'"
      using Cons.prems(2) by (auto simp: p None elim!: and_then_Inr)
    have s1: "I s1" using keepsD [OF write_pending_keeps Cons.prems(1) w] by blast
    have "slot_holds holds s1 (m_content mem) r"
      using write_pending_holds [OF Cons.prems(1)] w by (cases r) (auto simp: slot_holds_def)
    then have "slot_holds holds s' (m_content mem) r" by (rule slot_holds_mono [OF s1 write_slots_keeps ws])
    moreover have "\<forall>q \<in> set ps. slot_holds holds s1 (m_content (fst q)) (snd (snd q))"
      using Cons.prems(3) slot_holds_mono [OF Cons.prems(1) write_pending_keeps w] by simp
    ultimately show ?thesis using Cons.IH [OF s1 ws] by (simp add: rs p)
  qed
qed simp

lemma existingByContent_holds:
  assumes "I s" "existingByContent E p ms s = (Inr dups, s')"
  shows "slot_holds holds s' (m_content m) (duplicate_of dups m)"
  using assms found
  by (fastforce simp: existingByContent_def duplicate_of_def slot_holds_def repo split: option.splits if_splits
      elim!: attempt_cases)

lemma Extract_slots_holds:
  assumes "I s" "Extract_slots E c p sess s = (Inr (es, rs, k), s')"
  shows "I s'" "list_all2 (\<lambda>e r. slot_holds holds s' (x_content e) r) (FoldRedundant es) rs"
proof -
  let ?F = "FoldRedundant es"
  obtain s1 where x: "eg_extract E c s = (Inr es, s1)" and r1: "extract_rest E p sess es s1 = (Inr (es, rs, k), s')"
    using assms(2) unfolding Extract_slots_def by (metis and_then_Inr extract_rest_es)
  obtain ms s2 dups s3 where tm: "ToMemories E ?F p s1 = (Inr ms, s2)"
    and ex: "existingByContent E p ms s2 = (Inr dups, s3)"
    and rest: "write_all E sess es (pair_slots ms ?F dups) s3 = (Inr (es, rs, k), s')"
    using r1 unfolding extract_rest_def by (elim and_then_Inr) blast
  have I3: "I s3"
    using keepsD [OF extract_keeps assms(1) x] keepsD [OF ToMemories_keeps _ tm] keepsD [OF existing_keeps _ ex] by blast
  define slots where "slots = pair_slots ms ?F dups"
  from rest obtain b u s4 s5 vectors where bump: "rp_bump (eg_repo E) b s3 = (u, s4)"
    and em: "embedExtracted E (map fst (filter (\<lambda>(m, es, dup). dup = None) slots)) s4 = (Inr vectors, s5)"
    and ws: "write_slots E sess vectors slots 0 s5 = (Inr (rs, k), s')"
    unfolding slots_def [symmetric] write_all_def by (auto elim!: and_then_Inr attempt_cases)
  have bk: "keeps I holds (rp_bump (eg_repo E) b)" by (simp add: repo bump_keeps)
  have I4: "I s4" using keepsD [OF bk I3 bump] by blast
  have I5: "I s5" using keepsD [OF embedExtracted_keeps I4 em] by blast
  have "\<forall>q \<in> set slots. slot_holds holds s3 (m_content (fst q)) (snd (snd q))"
    using existingByContent_holds [OF _ ex] keepsD [OF extract_keeps assms(1) x] keepsD [OF ToMemories_keeps _ tm]
    by (auto simp: slots_def pair_slots_def)
  then have "\<forall>q \<in> set slots. slot_holds holds s5 (m_content (fst q)) (snd (snd q))"
    using slot_holds_mono [OF I3 bk bump] slot_holds_mono [OF I4 embedExtracted_keeps em] by blast
  from write_slots_holds [OF I5 ws this]
  have la: "list_all2 (\<lambda>q r. slot_holds holds s' (m_content (fst q)) r) slots rs" .
  have mc: "map m_content ms = map x_content ?F" using ToMemories_Inr [OF tm] by simp
  then have l: "length ms = length ?F" by (metis length_map)
  then have "map (\<lambda>q. m_content (fst q)) slots = map x_content ?F"
    by (simp add: slots_def pair_slots_def o_def case_prod_unfold mc [symmetric] flip: map_map [of m_content fst, unfolded o_def])
  then have "list_all2 (\<lambda>x r. slot_holds holds s' x r) (map x_content ?F) rs"
    using la by (metis (no_types, lifting) list_all2_map1 list_all2_mono)
  then show "list_all2 (\<lambda>e r. slot_holds holds s' (x_content e) r) ?F rs" by (simp add: list_all2_map1)
  show "I s'" using keepsD [OF write_slots_keeps I5 ws] by blast
qed

end

context ingest_engine
begin

lemma write_pending_filled:
  assumes "\<And>s mem. I s \<Longrightarrow> \<exists>u s'. rp_create R mem s = (Inr u, s')"
    and "I s" "write_pending E sess vectors mem names s = (Inr (r, k), s')"
  shows "r \<noteq> None"
proof -
  have fin: "r \<noteq> None" if "I t" "finish_extracted E sess vectors ns mem names t = (Inr (r, k), t')" for t t' r k ns
    using that assms(1) [OF that(1), of mem]
    by (auto simp: finish_extracted_def attempt_def repo elim!: and_then_Inr)
  from assms(3) obtain ns s1 where n: "semanticNeighbours E mem (vectors (m_id mem)) s = (Inr ns, s1)"
    and r: "(case consolidateAgainst mem ns of
       None \<Rightarrow> finish_extracted E sess vectors ns mem names
     | Some (existing, verdict) \<Rightarrow>
         and_then (foldInto E mem existing verdict) (\<lambda>folded. case folded of
           Some m \<Rightarrow> return_op (Some m, 0)
         | None \<Rightarrow> finish_extracted E sess vectors ns mem names)) s1 = (Inr (r, k), s')"
    unfolding write_pending_def by (elim and_then_Inr)
  have s1: "I s1" using keepsD [OF neighbours_keeps assms(2) n] by blast
  show ?thesis
  proof (cases "consolidateAgainst mem ns")
    case None
    then show ?thesis using r fin [OF s1] by simp
  next
    case (Some p)
    obtain x v where p: "p = (x, v)" by (cases p)
    have fk: "keeps I holds (foldInto E mem x v)"
      by (rule foldInto_keeps) (use consolidate_Some [OF Some [unfolded p]] Subsumes_restates(1) in simp)
    show ?thesis using r Some p keepsD [OF fk s1] fin
      by (auto elim!: and_then_Inr split: option.splits)
  qed
qed

lemma write_slots_filled:
  assumes "\<And>s mem. I s \<Longrightarrow> \<exists>u s'. rp_create R mem s = (Inr u, s')"
  shows "I s \<Longrightarrow> write_slots E sess vectors ps n s = (Inr (rs, k), s') \<Longrightarrow> None \<notin> set rs"
proof (induction ps arbitrary: n s rs k)
  case (Cons p ps)
  obtain mem names dup where p: "p = (mem, names, dup)" by (cases p)
  show ?case
  proof (cases dup)
    case (Some x)
    then show ?thesis using Cons by (auto simp: p elim!: and_then_Inr)
  next
    case None
    obtain r k1 s1 rs' where w: "write_pending E sess vectors mem names s = (Inr (r, k1), s1)"
      and ws: "write_slots E sess vectors ps (n + k1) s1 = (Inr (rs', k), s')" and rs: "rs = r # rs'"
      using Cons.prems(2) by (auto simp: p None elim!: and_then_Inr)
    have "I s1" using keepsD [OF write_pending_keeps Cons.prems(1) w] by blast
    then show ?thesis
      using Cons.IH [OF _ ws] write_pending_filled [OF assms Cons.prems(1) w] by (auto simp: rs)
  qed
qed simp

lemma Extract_slots_filled:
  assumes "\<And>s mem. I s \<Longrightarrow> \<exists>u s'. rp_create R mem s = (Inr u, s')"
    and "I s" "Extract_slots E c p sess s = (Inr (es, rs, k), s')"
  shows "None \<notin> set rs"
proof -
  obtain s1 where x: "eg_extract E c s = (Inr es, s1)" and r1: "extract_rest E p sess es s1 = (Inr (es, rs, k), s')"
    using assms(3) unfolding Extract_slots_def by (metis and_then_Inr extract_rest_es)
  obtain ms s2 dups s3 where tm: "ToMemories E (FoldRedundant es) p s1 = (Inr ms, s2)"
    and ex: "existingByContent E p ms s2 = (Inr dups, s3)"
    and rest: "write_all E sess es (pair_slots ms (FoldRedundant es) dups) s3 = (Inr (es, rs, k), s')"
    using r1 unfolding extract_rest_def by (elim and_then_Inr) blast
  have I3: "I s3"
    using keepsD [OF extract_keeps assms(2) x] keepsD [OF ToMemories_keeps _ tm] keepsD [OF existing_keeps _ ex] by blast
  define slots where "slots = pair_slots ms (FoldRedundant es) dups"
  from rest obtain b u s4 s5 vectors where bump: "rp_bump (eg_repo E) b s3 = (u, s4)"
    and em: "embedExtracted E (map fst (filter (\<lambda>(m, es, dup). dup = None) slots)) s4 = (Inr vectors, s5)"
    and ws: "write_slots E sess vectors slots 0 s5 = (Inr (rs, k), s')"
    unfolding slots_def [symmetric] write_all_def by (auto elim!: and_then_Inr attempt_cases)
  have "keeps I holds (rp_bump (eg_repo E) b)" by (simp add: repo bump_keeps)
  then have I4: "I s4" using keepsD [of I holds "rp_bump (eg_repo E) b" s3 u s4] I3 bump by blast
  have "I s5" using keepsD [OF embedExtracted_keeps I4 em] by blast
  then show ?thesis using write_slots_filled [OF assms(1) _ ws] by blast
qed

end

section \<open>The write path ends in an answer\<close>

lemma answers_embed_loop: "answers (embed_loop E e n ms vectors)"
proof (induction ms arbitrary: vectors rule: length_induct)
  case (1 ms)
  show ?case
  proof (cases "ms = [] \<or> n = 0")
    case True
    then show ?thesis by (subst embed_loop.simps) (simp add: answers_return)
  next
    case False
    then have "length (drop n ms) < length ms" by simp
    then have "answers (embed_loop E e n (drop n ms) f)" for f using 1 by blast
    then show ?thesis by (subst embed_loop.simps) (simp add: False answers_attempt)
  qed
qed

lemma answers_embedExtracted [answers_intros]: "answers (embedExtracted E ms)"
  by (auto simp: embedExtracted_def intro!: answers_intros answers_embed_loop)

lemma answers_supersede_edges: "answers (supersede_edges E cs)"
  by (induction cs) (auto intro!: answers_intros)

lemma answers_detect [answers_intros]: "answers (detectAndSupersede E mem)"
  by (auto simp: detectAndSupersede_def intro!: answers_intros answers_supersede_edges)

lemma answers_relate_edges: "answers (relate_edges E i t cs)"
  by (induction cs) (auto intro!: answers_intros)

lemma answers_autoLink [answers_intros]: "answers (autoLinkByTags E mem already ns)"
  by (auto simp: autoLinkByTags_def Let_def intro!: answers_intros answers_relate_edges)

lemma answers_small [answers_intros]:
  "answers (existingByContent E p ms)" "answers (semanticNeighbours E mem v)" "answers (bump_existing E m)"
  "answers (reembed E mem m)" "answers (link_entities_of E mem names)" "answers (store_vector E mem)"
  by (auto simp: existingByContent_def semanticNeighbours_def bump_existing_def reembed_def
      link_entities_of_def store_vector_def intro!: answers_intros)

lemma answers_foldInto [answers_intros]: "answers (foldInto E mem x verdict)"
  by (auto simp: foldInto_def intro!: answers_intros split: bool.split)

lemma answers_finish [answers_intros]:
  "answers (finish_store E mem v)" "answers (finish_extracted E sess vectors ns mem names)"
  by (auto simp: finish_store_def finish_extracted_def record_extracted_def Let_def intro!: answers_intros
      split: option.split)

lemma answers_write_pending [answers_intros]: "answers (write_pending E sess vectors mem names)"
  by (auto simp: write_pending_def intro!: answers_intros)

lemma answers_write_slots: "answers (write_slots E sess vectors ps n)"
proof (induction ps arbitrary: n)
  case (Cons p ps)
  obtain mem names dup where "p = (mem, names, dup)" by (cases p)
  then show ?case using Cons.IH by (cases dup) (auto intro!: answers_intros)
qed (simp add: answers_return)

lemma answers_ToMemories: "answers (ToMemories E es p)"
proof -
  have "answers (ToMemories_loop E now p es)" for now by (induction es) (auto intro!: answers_intros)
  then show ?thesis by (auto simp: ToMemories_def intro!: answers_intros)
qed

lemma answers_extract_rest: "answers (extract_rest E p sess es)"
  by (auto simp: extract_rest_def write_all_def intro!: answers_intros answers_ToMemories answers_write_slots)

section \<open>The repository of \<open>internal/graph\<close> meets the contract\<close>

definition age_repo :: "genv \<Rightarrow> world repo" where
  "age_repo G = \<lparr>rp_create = CreateMemory, rp_edges = CreateEdges G, rp_embed = StoreEmbedding,
     rp_link = LinkMemoryToSession G, rp_entities = LinkEntities G, rp_find = FindByContentHash,
     rp_update = UpdateMemoryContent, rp_query = QueryMemories, rp_search = SearchByVector G,
     rp_bump = IncrementAccessCounts G\<rparr>"

definition row_holds :: "db \<Rightarrow> uuid \<Rightarrow> string \<Rightarrow> bool" where
  "row_holds d i x = (\<exists>r \<in> set (d_mems d). m_id (r_mem r) = i \<and> conveys x (m_content (r_mem r)))"

text \<open>
  A step that keeps each row's fingerprint that of its text, and after which no row conveys less.
  This is what is asked of the other writers, and what every operation of the write path does.
\<close>

definition gentle :: "(db \<Rightarrow> db) \<Rightarrow> bool" where
  "gentle g = (\<forall>d. hash_ok d \<longrightarrow> hash_ok (g d) \<and> (\<forall>i x. row_holds d i x \<longrightarrow> row_holds (g d) i x))"

definition fair :: "world \<Rightarrow> bool" where
  "fair w = (hash_ok (w_db w) \<and> (\<forall>s \<in> set (w_sched w). gentle (st_others s)))"

definition world_holds :: "world \<Rightarrow> uuid \<Rightarrow> string \<Rightarrow> bool" where
  "world_holds w i x = row_holds (w_db w) i x"

lemma fair_stmt:
  assumes "fair w" "gentle (\<lambda>d. fst (f d))"
  shows "fair (snd (stmt f w)) \<and> (\<forall>i x. world_holds w i x \<longrightarrow> world_holds (snd (stmt f w)) i x)"
proof (cases "w_sched w")
  case Nil
  then show ?thesis using assms
    by (auto simp: stmt_def fair_def gentle_def world_holds_def Let_def split: prod.splits)
next
  case (Cons s rest)
  have g: "gentle (st_others s)" "\<forall>s \<in> set rest. gentle (st_others s)" "hash_ok (w_db w)"
    using assms(1) Cons by (auto simp: fair_def)
  then have "gentle (\<lambda>d. fst (f (st_others s d)))" using assms(2) by (simp add: gentle_def)
  then show ?thesis using g
    by (auto simp: stmt_def fair_def world_holds_def Cons Let_def gentle_def split: prod.splits fault.splits)
qed

lemma keeps_stmt: "gentle (\<lambda>d. fst (f d)) \<Longrightarrow> keeps fair world_holds (stmt f)"
  unfolding keeps_def using fair_stmt by blast

lemma keeps_exec [keeps_intros]: "gentle f \<Longrightarrow> keeps fair world_holds (exec f)"
  unfolding exec_def by (rule keeps_stmt) simp

lemma keeps_rows [keeps_intros]: "keeps fair world_holds (rows f)"
  unfolding rows_def by (rule keeps_stmt) (simp add: gentle_def)

lemma fair_tick [simp]: "fair (w\<lparr>w_tick := n\<rparr>) = fair w" "world_holds (w\<lparr>w_tick := n\<rparr>) = world_holds w"
  by (simp_all add: fair_def world_holds_def fun_eq_iff)

lemma tickless_fair [keeps_intros]: "tickless fair world_holds"
  by (simp add: tickless_def)

lemma gentle_mems: "(\<And>d. d_mems (f d) = d_mems d) \<Longrightarrow> gentle f"
  by (simp add: gentle_def hash_ok_def row_holds_def)

lemma gentle_map_rows:
  assumes "\<And>r. P r \<Longrightarrow> m_id (r_mem (g r)) = m_id (r_mem r)"
    and "\<And>r. P r \<Longrightarrow> r_hash r = ContentHash (m_content (r_mem r)) \<Longrightarrow>
      r_hash (g r) = ContentHash (m_content (r_mem (g r))) \<and> conveys (m_content (r_mem r)) (m_content (r_mem (g r)))"
  shows "gentle (map_rows P g)"
  unfolding gentle_def
proof (intro allI impI conjI)
  fix d assume h: "hash_ok d"
  then show "hash_ok (map_rows P g d)" using assms(2) by (auto simp: hash_ok_def map_rows_def)
  fix i x assume "row_holds d i x"
  then obtain r where r: "r \<in> set (d_mems d)" "m_id (r_mem r) = i" "conveys x (m_content (r_mem r))"
    by (auto simp: row_holds_def)
  let ?r = "if P r then g r else r"
  have "?r \<in> set (d_mems (map_rows P g d))" using r(1) by (auto simp: map_rows_def)
  moreover have "m_id (r_mem ?r) = i" "conveys x (m_content (r_mem ?r))"
    using r assms h by (auto simp: hash_ok_def intro: conveys_trans)
  ultimately show "row_holds (map_rows P g d) i x" unfolding row_holds_def by blast
qed

lemma d_mems_steps [simp]:
  "d_mems (assert_edge e d) = d_mems d" "d_mems (link_entity mem n s i j t d) = d_mems d"
  by (simp_all add: assert_edge_def link_entity_def Let_def split: option.split)

text \<open>What a statement that was acknowledged left in the database.\<close>

lemma stmt_acknowledged:
  assumes "stmt f w = (Inr y, w')" "fair w"
  shows "\<exists>d. hash_ok d \<and> w_db w' = fst (f d) \<and> y = snd (f d)"
proof (cases "w_sched w")
  case Nil
  then show ?thesis using assms by (auto simp: stmt_def fair_def Let_def split: prod.splits)
next
  case (Cons s rest)
  then have "hash_ok (st_others s (w_db w))" using assms(2) by (auto simp: fair_def gentle_def)
  then show ?thesis using assms(1) Cons
    by (intro exI [of _ "st_others s (w_db w)"])
      (auto simp: stmt_def Let_def split: prod.splits fault.splits)
qed

lemma key_rows_origin:
  "key_rows ms f0 (h, t) = Some m \<Longrightarrow> f0 (h, t) = Some m \<or> m \<in> set ms \<and> ContentHash (m_content m) = h"
  unfolding key_rows_spec by auto

lemma conveys_update: "restates old new \<Longrightarrow> ContentHash c = ContentHash old \<Longrightarrow> conveys c new"
  by (rule reworded [of c old], rule conveys_restates) (simp_all add: restates_def)

lemma UpdateMemoryContent_keeps:
  assumes "restates old new"
  shows "keeps fair world_holds (UpdateMemoryContent i (ContentHash old) new)"
proof -
  have "gentle (map_rows (\<lambda>r. m_id (r_mem r) = i \<and> r_hash r = ContentHash old)
      (\<lambda>r. r\<lparr>r_mem := (r_mem r)\<lparr>m_content := new\<rparr>, r_hash := ContentHash new\<rparr>))"
    by (rule gentle_map_rows) (auto intro: conveys_update [OF assms])
  then show ?thesis unfolding UpdateMemoryContent_def Let_def
    by (intro keeps_if keeps_fail keeps_stmt) simp
qed

lemma UpdateMemoryContent_holds:
  assumes "fair w" "UpdateMemoryContent i h new w = (Inr True, w')"
  shows "world_holds w' i new"
proof -
  from assms(2) have "\<exists>d. w_db w' = map_rows (\<lambda>r. m_id (r_mem r) = i \<and> r_hash r = h)
        (\<lambda>r. r\<lparr>r_mem := (r_mem r)\<lparr>m_content := new\<rparr>, r_hash := ContentHash new\<rparr>) d \<and>
      list_ex (\<lambda>r. m_id (r_mem r) = i \<and> r_hash r = h) (d_mems d)"
    using stmt_acknowledged [OF _ assms(1)]
    by (fastforce simp: UpdateMemoryContent_def Let_def split: if_splits)
  then show ?thesis
    by (auto simp: world_holds_def row_holds_def map_rows_def list_ex_iff intro!: bexI [rotated] same)
qed

lemma CreateMemory_holds:
  assumes "fair w" "CreateMemory mem w = (Inr u, w')"
  shows "world_holds w' (m_id mem) (m_content mem)"
proof -
  have "\<exists>d. w_db w' = d\<lparr>d_mems := d_mems d @
      [\<lparr>r_mem = mem\<lparr>m_created := ms_time (m_created mem), m_access := 0, m_decay := 1\<rparr>,
        r_hash = ContentHash (m_content mem)\<rparr>]\<rparr>"
    using assms stmt_acknowledged [OF _ assms(1)] by (fastforce simp: CreateMemory_def exec_def)
  then show ?thesis by (auto simp: world_holds_def row_holds_def intro: same)
qed

lemma world_row: "r \<in> set (d_mems (w_db w)) \<Longrightarrow> world_holds w (m_id (r_mem r)) (m_content (r_mem r))"
  by (auto simp: world_holds_def row_holds_def intro: same)

lemma FindByContentHash_holds:
  assumes "fair w" "FindByContentHash p hs w = (Inr g, w')" "g (ContentHash a, t) = Some m"
  shows "world_holds w' (m_id m) a"
proof -
  let ?f = "\<lambda>d. map toModel (filter (\<lambda>r. m_project (r_mem r) = p \<and> r_hash r \<in> set hs \<and> r_hash r \<noteq> []) (d_mems d))"
  obtain ms where ms: "rows ?f w = (Inr ms, w')" and g: "g = key_rows ms Map.empty"
    using assms(2,3) by (auto simp: FindByContentHash_def split: if_splits option.splits elim!: and_then_Inr)
  have d: "ms = ?f (w_db w')" using stmt_acknowledged [OF ms [unfolded rows_def] assms(1)] by auto
  have m: "m \<in> set ms" "ContentHash (m_content m) = ContentHash a"
    using key_rows_origin [of ms Map.empty "ContentHash a" t m] assms(3) by (simp_all add: g)
  then have "world_holds w' (m_id m) (m_content m)" by (auto simp: d intro: world_row)
  moreover have "conveys a (m_content m)" using m(2) by (intro conveys_restates) (simp add: restates_def)
  ultimately show ?thesis using conveys_trans by (fastforce simp: world_holds_def row_holds_def)
qed

lemma SearchByVector_holds:
  assumes "fair w" "SearchByVector G v p k w = (Inr ns, w')" "n \<in> set ns"
  shows "world_holds w' (m_id (mc_memory n)) (m_content (mc_memory n))"
proof -
  obtain hits w1 where h: "rows (nearest G v p (nat (if k \<le> 0 then 10 else k))) w = (Inr hits, w1)"
    and y: "hydrate G (scanVectorHits hits) w1 = (Inr ns, w')"
    using assms(2) by (auto simp: SearchByVector_def Let_def split: if_splits elim!: and_then_Inr)
  have w1: "fair w1" using keepsD [OF keeps_rows assms(1) h] by blast
  let ?hs = "scanVectorHits hits"
  obtain ms where ms: "rows (\<lambda>d. map toModel (filter (\<lambda>r. m_id (r_mem r) \<in> set (map fst ?hs)) (d_mems d))) w1 = (Inr ms, w')"
    and ns: "ns = List.map_filter (\<lambda>(i, s). map_option (plain_ctx s) (by_id ms i)) ?hs"
    using y assms(3) by (auto simp: hydrate_def with_ids_def split: if_splits option.splits elim!: and_then_Inr)
  obtain i s m where m: "by_id ms i = Some m" "n = plain_ctx s m"
    using assms(3) by (auto simp: ns List.map_filter_def)
  then have "m \<in> set ms" using by_id_origin by blast
  moreover obtain d where "w_db w' = d" "ms = map toModel (filter (\<lambda>r. m_id (r_mem r) \<in> set (map fst ?hs)) (d_mems d))"
    using stmt_acknowledged [OF ms [unfolded rows_def] w1] by auto
  ultimately show ?thesis
    by (auto simp: m(2) plain_ctx_def intro!: world_row)
qed

interpretation age: fact_store "age_repo G" fair world_holds
proof unfold_locales
  show "world_holds s i b \<Longrightarrow> conveys a b \<Longrightarrow> world_holds s i a" for s i a b
    using conveys_trans by (fastforce simp: world_holds_def row_holds_def)
  show "keeps fair world_holds (rp_create (age_repo G) mem)" for mem
    by (auto simp: age_repo_def CreateMemory_def gentle_def hash_ok_def row_holds_def intro!: keeps_exec)
  show "keeps fair world_holds (rp_edges (age_repo G) es)" for es
    by (auto simp: age_repo_def CreateEdges_def intro!: keeps_intros keeps_create_groups gentle_mems)
  show "keeps fair world_holds (rp_embed (age_repo G) i p v)" for i p v
    by (auto simp: age_repo_def StoreEmbedding_def intro!: keeps_intros gentle_mems)
  show "keeps fair world_holds (rp_link (age_repo G) i j)" for i j
    by (auto simp: age_repo_def LinkMemoryToSession_def intro!: keeps_intros gentle_mems)
  show "keeps fair world_holds (rp_entities (age_repo G) mem names)" for mem names
    by (auto simp: age_repo_def LinkEntities_def intro!: keeps_intros keeps_link_names gentle_mems)
  show "keeps fair world_holds (rp_find (age_repo G) p hs)" for p hs
    by (auto simp: age_repo_def FindByContentHash_def intro!: keeps_intros split: option.split)
  show "keeps fair world_holds (rp_query (age_repo G) f)" for f
    by (auto simp: age_repo_def QueryMemories_def intro!: keeps_intros)
  show "keeps fair world_holds (rp_search (age_repo G) v p k)" for v p k
    by (auto simp: age_repo_def SearchByVector_def hydrate_def Let_def intro!: keeps_intros)
  show "keeps fair world_holds (rp_bump (age_repo G) ids)" for ids
    by (auto simp: age_repo_def IncrementAccessCounts_def intro!: keeps_intros gentle_map_rows intro: same)
qed (auto simp: age_repo_def intro: UpdateMemoryContent_keeps UpdateMemoryContent_holds CreateMemory_holds
    FindByContentHash_holds SearchByVector_holds)

text \<open>
  The engine the server is wired with.  The chat provider answers as it likes at every call: its
  replies are indexed by the tick, like those of the network, identifiers and times.
\<close>

definition age_engine ::
  "genv \<Rightarrow> embedder option \<Rightarrow> (nat \<Rightarrow> string \<Rightarrow> string \<Rightarrow> json \<Rightarrow> http_reply) \<Rightarrow>
     (string \<Rightarrow> bool) \<Rightarrow> (nat \<Rightarrow> provider) \<Rightarrow> extractor \<Rightarrow> world engine" where
  "age_engine G emb N uni P x =
     \<lparr>eg_repo = age_repo G, eg_embedder = emb, eg_net = tick_net N,
      eg_extract = (\<lambda>c w. (Inr (run_extractor uni (P (w_tick w)) x c), w\<lparr>w_tick := Suc (w_tick w)\<rparr>)),
      eg_entities = ExtractEntities uni,
      eg_uuid = (\<lambda>w. (ge_uuid G (w_tick w), w\<lparr>w_tick := Suc (w_tick w)\<rparr>)),
      eg_now = (\<lambda>w. (ge_clock G (w_tick w), w\<lparr>w_tick := Suc (w_tick w)\<rparr>)),
      eg_ustr = ge_ustr G\<rparr>"

interpretation age: ingest_engine "age_repo G" fair world_holds "age_engine G emb N uni P x"
  by unfold_locales (simp_all add: age_engine_def tick_net_def keeps_def)

text \<open>
  The same client lemmas give the invariant of the database: the contract's \<open>holds\<close> is then
  trivial and its invariant is that of \<open>GraphStore\<close>.
\<close>

lemma age_engine_steps:
  "keeps (world_inv I) any_row (eg_net (age_engine G emb N uni P x) url key body)"
  "keeps (world_inv I) any_row (eg_extract (age_engine G emb N uni P x) c)"
  "keeps (world_inv I) any_row (eg_uuid (age_engine G emb N uni P x))"
  "keeps (world_inv I) any_row (eg_now (age_engine G emb N uni P x))"
  by (simp_all add: age_engine_def tick_net_def keeps_def world_inv_def any_row_def)

interpretation inv: ingest_engine "age_repo G" "world_inv db_inv" any_row "age_engine G emb N uni P x"
  by (unfold_locales, simp_all only: age_engine_steps)
    (simp_all add: keeps_preserves age_repo_def writes_preserve reads_preserve, simp_all add: any_row_def age_engine_def
      age_repo_def)

lemma idle_engine_steps:
  "keeps idle any_row (eg_net (age_engine G emb N uni P x) url key body)"
  "keeps idle any_row (eg_extract (age_engine G emb N uni P x) c)"
  "keeps idle any_row (eg_uuid (age_engine G emb N uni P x))"
  "keeps idle any_row (eg_now (age_engine G emb N uni P x))"
  by (simp_all add: age_engine_def tick_net_def keeps_def idle_def any_row_def)

lemma idle_repo_steps:
  "keeps idle any_row (CreateMemory mem)" "keeps idle any_row (CreateEdges G es)"
  "keeps idle any_row (StoreEmbedding i p v)" "keeps idle any_row (LinkMemoryToSession G i j)"
  "keeps idle any_row (LinkEntities G mem names)" "keeps idle any_row (FindByContentHash p hs)"
  "keeps idle any_row (UpdateMemoryContent i h c)" "keeps idle any_row (QueryMemories f)"
  "keeps idle any_row (SearchByVector G v p k)" "keeps idle any_row (IncrementAccessCounts G ids)"
  unfolding CreateMemory_def CreateEdges_def StoreEmbedding_def LinkMemoryToSession_def LinkEntities_def
    FindByContentHash_def UpdateMemoryContent_def QueryMemories_def SearchByVector_def hydrate_def
    IncrementAccessCounts_def Let_def
  by (intro keeps_intros keeps_idle tickless_idle keeps_create_groups keeps_link_names; auto intro!: keeps_intros keeps_idle
      split: option.split)+

interpretation idle: ingest_engine "age_repo G" idle any_row "age_engine G emb N uni P x"
  by (unfold_locales, simp_all only: idle_engine_steps)
    (simp_all add: age_repo_def idle_repo_steps, simp_all add: any_row_def age_engine_def age_repo_def)

section \<open>Properties\<close>

context ingest_engine
begin

lemma engine_Extract_keeps: "keeps I holds (engine_Extract E c p sess)"
  unfolding engine_Extract_def Extract_slots_def extract_rest_def write_all_def
  by (auto intro!: keeps_all ToMemories_keeps existing_keeps embedExtracted_keeps write_slots_keeps)

lemma extracted_fact_has_slot:
  assumes "I s" "Extract_slots E c p sess s = (Inr (es, rs, k), s')" "e \<in> set es"
  shows "\<exists>r \<in> set rs. slot_holds holds s' (x_content e) r"
proof -
  obtain f where f: "f \<in> set (FoldRedundant es)" "covers f e"
    using FoldRedundant_inv [of es] assms(3) by (auto simp: fold_inv_def)
  then obtain r where "r \<in> set rs" "slot_holds holds s' (x_content f) r"
    using Extract_slots_holds(2) [OF assms(1,2)] by (metis in_set_conv_nth list_all2_conv_all_nth)
  moreover from this(2) have "slot_holds holds s' (x_content e) r"
    using f(2) covers_restates conveys_restates holds_conveys by (fastforce simp: slot_holds_def split: option.splits)
  ultimately show ?thesis by blast
qed

end

text \<open>
  C2: extraction loses no fact.  Whatever other writers that keep facts do between the statements,
  and whichever statements, embedding calls and provider calls fail: if every slot of the result
  was filled (no new row was refused by the database), then for each memory the extractor found
  there is a reported memory whose row, as it is in the database when the call returns, conveys
  it; that is, the row's text is the memory's own or follows from it by restatements (one content
  hash, or the words of the earlier text in order with the same polarity).
\<close>

theorem Extract_loses_no_fact:
  assumes "fair w" "Extract_slots (age_engine G emb N uni P x) c p sess w = (Inr (es, rs, k), w')"
    and "None \<notin> set rs" "e \<in> set es"
  shows "\<exists>ms. engine_Extract (age_engine G emb N uni P x) c p sess w = (Inr (ms, k), w') \<and>
     (\<exists>m r. m \<in> set ms \<and> r \<in> set (d_mems (w_db w')) \<and> m_id (r_mem r) = m_id m \<and>
        conveys (x_content e) (m_content (r_mem r)))"
proof -
  have "engine_Extract (age_engine G emb N uni P x) c p sess w = (Inr (List.map_filter (\<lambda>r. r) rs, k), w')"
    using assms(2) by (simp add: engine_Extract_def and_then_def return_op_def)
  moreover have "Some m \<in> set rs \<Longrightarrow> m \<in> set (List.map_filter (\<lambda>r. r) rs)" for m
    by (force simp: List.map_filter_def)
  moreover
  obtain y where "y \<in> set rs" "slot_holds world_holds w' (x_content e) y"
    using age.extracted_fact_has_slot [OF assms(1,2,4)] by blast
  moreover from this(1) obtain m where "y = Some m" using assms(3) by (metis not_None_eq)
  ultimately show ?thesis by (fastforce simp: slot_holds_def world_holds_def row_holds_def)
qed

text \<open>A provider that answers every prompt with one memory.\<close>

definition sample_provider :: provider where
  "sample_provider = \<lparr>p_chat = (\<lambda>u k m c. Some [''x'']),
     p_unmarshal = (\<lambda>s. Some [\<lparr>l_content = ''Caroline owns a dog'', l_type = ''semantic'', l_tags = [], l_entities = []\<rparr>])\<rparr>"

definition sample_llm :: extractor where
  "sample_llm = LLMExtractor \<lparr>lx_url = ''u'', lx_key = ''k'', lx_model = ''m''\<rparr>"

definition sample_engine :: "world engine" where
  "sample_engine = age_engine sample_genv None (\<lambda>n u a b. Unreachable) (\<lambda>s. False) (\<lambda>n. sample_provider) sample_llm"

lemma sample_extracts:
  "\<exists>e. run_extractor (\<lambda>s. False) sample_provider sample_llm c = [e] \<and> x_content e = ''Caroline owns a dog''"
proof -
  have "trim_space ''Caroline owns a dog'' = ''Caroline owns a dog''" by code_simp
  then show ?thesis
    by (simp add: run_extractor_def sample_llm_def sample_provider_def llm_Extract_def extractViaLLM_def
        parseExtracted_def List.map_filter_def Let_def)
qed

lemma Extract_loses_no_fact_witness:
  "\<exists>ms k w'. engine_Extract sample_engine ''hi'' ''p'' 0 (sample_world []) = (Inr (ms, k), w') \<and>
     (\<exists>m r. m \<in> set ms \<and> r \<in> set (d_mems (w_db w')) \<and> m_id (r_mem r) = m_id m \<and>
        conveys ''Caroline owns a dog'' (m_content (r_mem r)))"
proof -
  let ?w = "sample_world []"
  have i: "idle ?w" and f: "fair ?w" by (simp_all add: idle_def fair_def sample_world_def hash_ok_def)
  obtain e where e: "run_extractor (\<lambda>s. False) sample_provider sample_llm ''hi'' = [e]" "x_content e = ''Caroline owns a dog''"
    using sample_extracts by blast
  have x: "eg_extract sample_engine ''hi'' ?w = (Inr [e], ?w\<lparr>w_tick := Suc (w_tick ?w)\<rparr>)"
    by (simp add: sample_engine_def age_engine_def e)
  obtain y w' where y: "extract_rest sample_engine ''p'' 0 [e] (?w\<lparr>w_tick := Suc (w_tick ?w)\<rparr>) = (Inr y, w')"
    using answers_extract_rest [of sample_engine "''p''" 0 "[e]"] unfolding answers_def by (elim allE exE)
  obtain es rs k where "y = (es, rs, k)" by (cases y) auto
  with y have r: "Extract_slots sample_engine ''hi'' ''p'' 0 ?w = (Inr ([e], rs, k), w')"
    using extract_rest_es [of sample_engine] by (fastforce simp: Extract_slots_def and_then_def x)
  have "\<exists>u s'. rp_create (age_repo sample_genv) mem s = (Inr u, s')" if "idle s" for s mem
    using that by (simp add: age_repo_def CreateMemory_def exec_idle idle_def)
  from idle.Extract_slots_filled [OF this i r [unfolded sample_engine_def]] have "None \<notin> set rs" .
  from Extract_loses_no_fact [OF f r [unfolded sample_engine_def] this, of e] show ?thesis
    unfolding sample_engine_def e(2) by (metis list.set_intros(1))
qed


text \<open>
  C23: what \<open>Store\<close> answers.  It fails when the row cannot be created, and then nothing else has
  been tried; or when a session was named and the link to it fails, and then the row is committed
  and its embedding attempted but contradictions, links and entities are skipped.  In every other
  case it succeeds, whichever of the later steps fail.
\<close>

theorem Store_outcomes:
  "case rp_create (eg_repo E) mem s of
     (Inl e, s1) \<Rightarrow> Store E mem sess s = (Inl e, s1)
   | (Inr u, s1) \<Rightarrow> \<exists>v s2. store_vector E mem s1 = (Inr v, s2) \<and>
       (if sess = nil_uuid then \<exists>s'. finish_store E mem v s2 = (Inr (), s') \<and> Store E mem sess s = (Inr (), s')
        else case rp_link (eg_repo E) sess (m_id mem) s2 of
            (Inl e, s3) \<Rightarrow> Store E mem sess s = (Inl e, s3)
          | (Inr u, s3) \<Rightarrow> \<exists>s'. finish_store E mem v s3 = (Inr (), s') \<and> Store E mem sess s = (Inr (), s'))"
proof (cases "rp_create (eg_repo E) mem s")
  case (Pair r s1)
  obtain v s2 where v: "store_vector E mem s1 = (Inr v, s2)" using answers_small(6) by (rule answersE)
  have f: "\<exists>s'. finish_store E mem v t = (Inr (), s')" for t
    using answers_finish(1) [of E mem v] unfolding answers_def by auto
  show ?thesis
    by (cases r; cases "rp_link (eg_repo E) sess (m_id mem) s2")
      (use v f in \<open>auto simp: Pair Store_def and_then_def return_op_def split: sum.splits\<close>)
qed

text \<open>
  The write path keeps the database's invariant, whichever embedder and extractor are
  configured: \<open>Store\<close> and \<open>Extract\<close>, with every statement they send, under any schedule of other
  writers that keep it and of failures.
\<close>

lemma write_path_invariant:
  "preserves db_inv (Store (age_engine G emb N uni P x) mem sess) \<and>
   preserves db_inv (engine_Extract (age_engine G emb N uni P x) c p sess)"
  using inv.Store_keeps inv.engine_Extract_keeps unfolding keeps_preserves by blast

section \<open>Automatic links\<close>

lemma map_of_update_fold:
  assumes "\<And>e seen. g e seen = seen \<or> (\<exists>i w. P i w e \<and> g e seen = AList.update i w seen)"
  shows "distinct (map fst seen) \<Longrightarrow> distinct (map fst (fold g es seen)) \<and>
    (\<forall>i w. (i, w) \<in> set (fold g es seen) \<longrightarrow> (i, w) \<in> set seen \<or> (\<exists>e \<in> set es. P i w e))"
proof (induction es arbitrary: seen)
  case (Cons e es)
  have d: "distinct (map fst (g e seen))" using assms [of e seen] Cons.prems by (auto simp: distinct_update)
  have "(i, w) \<in> set (g e seen) \<Longrightarrow> (i, w) \<in> set seen \<or> P i w e" for i w
  proof -
    assume h: "(i, w) \<in> set (g e seen)"
    from assms [of e seen] show "(i, w) \<in> set seen \<or> P i w e"
    proof
      assume "\<exists>j v. P j v e \<and> g e seen = AList.update j v seen"
      then obtain j v where j: "P j v e" "g e seen = AList.update j v seen" by blast
      have "map_of (AList.update j v seen) i = Some w" using d h by (simp add: j(2))
      then have "i = j \<and> w = v \<or> map_of seen i = Some w" by (auto simp: update_conv split: if_splits)
      then show ?thesis using j(1) map_of_SomeD by fastforce
    qed (use h in simp)
  qed
  then show ?case using Cons.IH [OF d] by fastforce
qed simp

lemma tag_pass_origin:
  "distinct (map fst (tag_pass mem skip existing)) \<and>
   (\<forall>i w. (i, w) \<in> set (tag_pass mem skip existing) \<longrightarrow> (\<exists>e \<in> set existing. i = m_id (mc_memory e) \<and> \<not> skip i \<and>
      w = relatesTagWeight \<and> hasOverlappingTags (m_tags mem) (m_tags (mc_memory e))))"
proof -
  let ?P = "\<lambda>i w e. i = m_id (mc_memory e) \<and> \<not> skip i \<and> w = relatesTagWeight \<and>
    hasOverlappingTags (m_tags mem) (m_tags (mc_memory e))"
  let ?g = "\<lambda>e seen. let m = mc_memory e in
        if skip (m_id m) then seen
        else if hasOverlappingTags (m_tags mem) (m_tags m) then AList.update (m_id m) relatesTagWeight seen
        else seen"
  have "?g e seen = seen \<or> (\<exists>i w. ?P i w e \<and> ?g e seen = AList.update i w seen)" for e seen
    by (auto simp: Let_def)
  from map_of_update_fold [of ?g ?P "[]" existing, OF this] show ?thesis
    unfolding tag_pass_def by simp
qed

lemma vector_pass_origin:
  assumes "distinct (map fst seen)"
  shows "distinct (map fst (vector_pass skip ns seen)) \<and>
   (\<forall>i w. (i, w) \<in> set (vector_pass skip ns seen) \<longrightarrow> (i, w) \<in> set seen \<or>
      (\<exists>n \<in> set ns. i = m_id (mc_memory n) \<and> \<not> skip i \<and> w = mc_score n \<and>
         \<not> mc_score n < related_floor (map mc_score (filter (\<lambda>n. \<not> skip (m_id (mc_memory n))) ns))))"
proof -
  let ?fl = "related_floor (map mc_score (filter (\<lambda>n. \<not> skip (m_id (mc_memory n))) ns))"
  let ?P = "\<lambda>i w n. i = m_id (mc_memory n) \<and> \<not> skip i \<and> w = mc_score n \<and> \<not> mc_score n < ?fl"
  let ?g = "\<lambda>n seen. let i = m_id (mc_memory n) in
        if skip i \<or> mc_score n < ?fl then seen
        else case map_of seen i of
          Some w \<Rightarrow> if w \<ge> mc_score n then seen else AList.update i (mc_score n) seen
        | None \<Rightarrow> AList.update i (mc_score n) seen"
  have "?g n seen = seen \<or> (\<exists>i w. ?P i w n \<and> ?g n seen = AList.update i w seen)" for n seen
    by (auto simp: Let_def split: option.split)
  from map_of_update_fold [of ?g ?P seen ns, OF this assms] show ?thesis
    unfolding vector_pass_def Let_def [of "map mc_score _"] using assms by (cases "length (map mc_score (filter (\<lambda>n. \<not> skip (m_id (mc_memory n))) ns)) = 0") (simp_all del: length_0_conv length_map add: Let_def)
qed

text \<open>
  What a new memory is automatically linked to.  However many neighbours and tag matches there
  are, at most five memories are chosen, each once; never the memory itself or one it supersedes;
  and each for a reason: a shared tag, with the fixed tag weight, or a similarity that clears the
  floor computed from all the neighbours that could be linked, with that similarity as the weight.
\<close>

lemma link_candidates_bounded:
  "let cands = link_candidates ustr (vector_pass skip ns (tag_pass mem skip existing));
       floor = related_floor (map mc_score (filter (\<lambda>n. \<not> skip (m_id (mc_memory n))) ns))
   in length cands \<le> 5 \<and> distinct (map fst cands) \<and>
      list_all (\<lambda>(i, w). \<not> skip i \<and>
        (w = relatesTagWeight \<and> list_ex (\<lambda>e. m_id (mc_memory e) = i \<and>
            hasOverlappingTags (m_tags mem) (m_tags (mc_memory e))) existing \<or>
         list_ex (\<lambda>n. m_id (mc_memory n) = i \<and> w = mc_score n \<and> \<not> mc_score n < floor) ns)) cands"
proof -
  let ?seen = "vector_pass skip ns (tag_pass mem skip existing)"
  let ?cands = "link_candidates ustr ?seen"
  have d: "distinct (map fst (tag_pass mem skip existing))" using tag_pass_origin by blast
  note v = vector_pass_origin [OF d, of skip ns]
  have sub: "set ?cands \<subseteq> set ?seen"
    unfolding link_candidates_def by (metis set_sort_stable set_take_subset)
  have "mset (map fst (sort_stable (link_before ustr) ?seen)) = mset (map fst ?seen)" by simp
  then have "distinct (map fst (sort_stable (link_before ustr) ?seen))"
    using v by (metis mset_eq_imp_distinct_iff)
  then have "distinct (map fst ?cands)"
    unfolding link_candidates_def by (metis distinct_take take_map)
  moreover have "length ?cands \<le> 5" by (simp add: link_candidates_def maxRelatesPerStore_def)
  moreover have "\<not> skip i \<and>
        (w = relatesTagWeight \<and> list_ex (\<lambda>e. m_id (mc_memory e) = i \<and>
            hasOverlappingTags (m_tags mem) (m_tags (mc_memory e))) existing \<or>
         list_ex (\<lambda>n. m_id (mc_memory n) = i \<and> w = mc_score n \<and>
           \<not> mc_score n < related_floor (map mc_score (filter (\<lambda>n. \<not> skip (m_id (mc_memory n))) ns))) ns)"
    if "(i, w) \<in> set ?cands" for i w
  proof -
    have "(i, w) \<in> set ?seen" using sub that by blast
    then consider "(i, w) \<in> set (tag_pass mem skip existing)" |
      n where "n \<in> set ns" "i = m_id (mc_memory n)" "\<not> skip i" "w = mc_score n"
        "\<not> mc_score n < related_floor (map mc_score (filter (\<lambda>n. \<not> skip (m_id (mc_memory n))) ns))"
      using v by blast
    then show ?thesis
    proof cases
      case 1
      then show ?thesis using tag_pass_origin [of mem skip existing] unfolding list_ex_iff by blast
    qed (auto simp: list_ex_iff)
  qed
  ultimately show ?thesis unfolding Let_def list_all_iff by auto
qed

lemma codes_inj: "map code_of s = map code_of t \<longleftrightarrow> s = t"
  by (rule inj_map_eq_map) (rule injI, simp add: code_of_def)

lemma lex_not_less_trans:
  fixes x y z :: "nat list"
  assumes "\<not> ord_class.lexordp y x" "\<not> ord_class.lexordp z y"
  shows "\<not> ord_class.lexordp z x"
proof
  assume zx: "ord_class.lexordp z x"
  have "ord_class.lexordp y z \<or> y = z" using assms(2) lexordp_linear by blast
  then have "ord_class.lexordp y x" using zx lexordp_trans by blast
  with assms(1) show False by contradiction
qed

lemma link_before_cases:
  "snd a \<noteq> NaN \<Longrightarrow> snd b \<noteq> NaN \<Longrightarrow> link_before ustr a b \<longleftrightarrow> snd b < snd a \<or> snd a = snd b \<and>
     ord_class.lexordp (map code_of (ustr (fst a))) (map code_of (ustr (fst b)))"
  by (auto simp: link_before_def feq_def)

lemma f64_cases3: "x \<noteq> NaN \<Longrightarrow> y \<noteq> NaN \<Longrightarrow> x < y \<or> x = y \<or> y < (x::f64)"
  by (cases x; cases y) auto

interpretation rel: sort_less "link_before ustr" "\<lambda>c. snd c \<noteq> NaN"
proof unfold_locales
  fix a b c :: "uuid \<times> f64"
  assume n: "snd a \<noteq> NaN" "snd b \<noteq> NaN"
  let ?k = "\<lambda>x. map code_of (ustr (fst x))"
  show "link_before ustr a b \<Longrightarrow> \<not> link_before ustr b a"
    using n lexordp_antisym [of "?k a" "?k b"] lexordp_irreflexive' [of "?k a"]
    by (auto simp: link_before_cases dest: f64_less_asym)
  assume c: "snd c \<noteq> NaN" and ba: "\<not> link_before ustr b a" and cb: "\<not> link_before ustr c b"
  show "\<not> link_before ustr c a"
  proof
    assume "link_before ustr c a"
    then consider "snd a < snd c" | "snd c = snd a" "ord_class.lexordp (?k c) (?k a)"
      using n c by (auto simp: link_before_cases)
    then show False
    proof cases
      case 1
      have "\<not> snd a < snd b" "\<not> snd b < snd c" using ba cb n c by (auto simp: link_before_cases)
      then show False using 1 f64_cases3 [OF n] f64_cases3 [OF n(2) c] f64_less_trans by metis
    next
      case 2
      have "snd a = snd b" using ba cb n c 2(1) f64_cases3 [OF n] by (auto simp: link_before_cases)
      then show False using lex_not_less_trans [of "?k b" "?k a" "?k c"] ba cb n c 2 by (auto simp: link_before_cases)
    qed
  qed
qed

text \<open>
  The choice does not depend on the order in which Go's map is walked.  Two listings of the same
  candidates, with distinct identifiers whose texts differ and no weight that is not a number,
  give the same edges in the same order, and no candidate left out is better than one chosen.
\<close>

lemma link_candidates_order_independent:
  assumes "mset seen = mset seen'" "distinct (map fst seen)" "inj ustr" "NaN \<notin> snd ` set seen"
  shows "link_candidates ustr seen = link_candidates ustr seen' \<and>
    (\<exists>rest. mset seen = mset (link_candidates ustr seen) + mset rest \<and>
       list_all (\<lambda>b. list_all (\<lambda>a. \<not> link_before ustr b a) (link_candidates ustr seen)) rest)"
proof (rule conjI)
  have ok: "\<forall>y \<in> set seen. snd y \<noteq> NaN" using assms(4) by force
  have tot: "link_before ustr a b \<or> link_before ustr b a" if "a \<in> set seen" "b \<in> set seen" "a \<noteq> b" for a b
  proof -
    have "fst a \<noteq> fst b" using that assms(2) by (auto simp: distinct_map inj_on_def)
    then have "map code_of (ustr (fst a)) \<noteq> map code_of (ustr (fst b))"
      using assms(3) by (auto simp: codes_inj dest: injD)
    then have "ord_class.lexordp (map code_of (ustr (fst a))) (map code_of (ustr (fst b))) \<or>
        ord_class.lexordp (map code_of (ustr (fst b))) (map code_of (ustr (fst a)))"
      using lexordp_linear by blast
    moreover have "snd a \<noteq> NaN" "snd b \<noteq> NaN" using ok that by auto
    ultimately show ?thesis using f64_cases3 by (fastforce simp: link_before_cases)
  qed
  have "sort_stable (link_before ustr) seen = sort_stable (link_before ustr) seen'"
    by (rule rel.order_independent) (use assms(1) ok tot in auto)
  then show "link_candidates ustr seen = link_candidates ustr seen'" by (simp add: link_candidates_def)
  let ?s = "sort_stable (link_before ustr) seen"
  have "mset seen = mset (take maxRelatesPerStore ?s) + mset (drop maxRelatesPerStore ?s)"
    by (metis append_take_drop_id mset_append mset_sort_stable)
  then show "\<exists>rest. mset seen = mset (link_candidates ustr seen) + mset rest \<and>
       list_all (\<lambda>b. list_all (\<lambda>a. \<not> link_before ustr b a) (link_candidates ustr seen)) rest"
    using rel.take_best [OF ok] unfolding link_candidates_def list_all_iff by blast
qed

end
