(* ===== verification/Retrieval.thy ===== *)
theory Retrieval
  imports Extractor Effects "HOL-Library.AList"
begin

text \<open>
  \<^verbatim>\<open>internal/retrieval/retrieval.go\<close>: the read path.  The seven repository operations it uses are a
  record over a state \<open>'s\<close>; the engine adds the clock, the embedder and its network.  The map the
  three retrievers' results are merged into is an association list, so that the order in which Go
  walks it is explicit; the theorems show that it does not matter.  The durations of a trace are
  not modelled, and a trace is only reported for a query that succeeds.
\<close>

section \<open>Fusion\<close>

datatype fusion_mode = FusionLinear | FusionMinMax | FusionRRF | OtherMode string

record fusion =
  fu_mode :: fusion_mode
  fu_keyword :: f64
  fu_semantic :: f64
  fu_entity :: f64
  fu_rrfk :: f64
  fu_coverage :: f64

definition defaultCoverage :: f64 where "defaultCoverage = Fin 0.25"

definition DefaultFusion :: fusion where
  "DefaultFusion =
     (let (wk, ws, we) = DefaultFusionWeights in
      \<lparr>fu_mode = FusionMinMax, fu_keyword = wk, fu_semantic = ws, fu_entity = we, fu_rrfk = Fin 60,
        fu_coverage = defaultCoverage\<rparr>)"

datatype fusion_error = UnknownMode | BadWeights | BadK | BadCoverage

definition SetFusion :: "fusion \<Rightarrow> fusion_error + fusion" where
  "SetFusion f =
     (if fu_mode f \<notin> {FusionLinear, FusionMinMax, FusionRRF} then Inl UnknownMode
      else if fu_keyword f < 0 \<or> fu_semantic f < 0 \<or> fu_entity f < 0 \<or>
              fu_keyword f + fu_semantic f + fu_entity f \<le> 0 then Inl BadWeights
      else if fu_mode f = FusionRRF \<and> fu_rrfk f \<le> 0 then Inl BadK
      else if fu_coverage f < 0 \<or> fu_coverage f > 1 then Inl BadCoverage
      else Inr f)"

section \<open>The query\<close>

definition graphCandidatePoolFactor :: int where "graphCandidatePoolFactor = 10"
definition maxGraphCandidatePool :: int where "maxGraphCandidatePool = 500"
definition vectorCandidatePoolFactor :: int where "vectorCandidatePoolFactor = 10"
definition maxVectorCandidatePool :: int where "maxVectorCandidatePool = 200"
definition entityCandidatePoolFactor :: int where "entityCandidatePoolFactor = 5"
definition maxEntityCandidatePool :: int where "maxEntityCandidatePool = 100"
definition defaultTopK :: int where "defaultTopK = 5"
definition maxTopK :: int where "maxTopK = 200"

definition keywordCandidatePool :: "int \<Rightarrow> int" where
  "keywordCandidatePool topK =
     (let pool = topK * graphCandidatePoolFactor;
          pool = (if pool > maxGraphCandidatePool then maxGraphCandidatePool else pool)
      in if pool < 1 then 1 else pool)"

definition entityCandidatePool :: "int \<Rightarrow> int" where
  "entityCandidatePool topK =
     (let pool = topK * entityCandidatePoolFactor;
          pool = (if pool > maxEntityCandidatePool then maxEntityCandidatePool else pool)
      in if pool < 1 then 1 else pool)"

definition vectorCandidatePool :: "int \<Rightarrow> int" where
  "vectorCandidatePool topK =
     (let pool = topK * vectorCandidatePoolFactor;
          pool = (if pool > maxVectorCandidatePool then maxVectorCandidatePool else pool)
      in if pool < 1 then 1 else pool)"

definition query_stopWords :: "string list" where
  "query_stopWords =
     [''a'', ''an'', ''the'', ''is'', ''are'', ''was'', ''were'', ''do'', ''does'', ''did'', ''what'', ''which'',
      ''who'', ''how'', ''when'', ''where'', ''this'', ''that'', ''it'', ''of'', ''in'', ''on'', ''for'', ''to'',
      ''with'', ''my'', ''our'', ''we'', ''i'', ''use'', ''project'']"

definition keyword_cutset :: string where
  "keyword_cutset = ''.,;:!?'' @ [dquote, squote] @ ''()[]{}<>-''"

definition extractKeywords :: "string \<Rightarrow> string list" where
  "extractKeywords query =
     filter (\<lambda>w. \<not> length w < 2 \<and> w \<notin> set query_stopWords)
       (map (\<lambda>w. trim w keyword_cutset) (str_fields (to_lower query)))"

definition ParseQuery :: "string \<Rightarrow> string \<Rightarrow> memory_type list \<Rightarrow> int \<Rightarrow> query_filter" where
  "ParseQuery query projectID types topK =
     (let topK = (if topK \<le> 0 then defaultTopK else topK);
          topK = (if topK > maxTopK then maxTopK else topK)
      in \<lparr>qf_project = projectID, qf_keywords = extractKeywords query, qf_types = types, qf_topk = topK,
          qf_overfetch = True\<rparr>)"

section \<open>The merge\<close>

definition max_keyword :: "memory_ctx list \<Rightarrow> f64" where
  "max_keyword graph = fold (\<lambda>r best. if mc_score r > best then mc_score r else best) graph 0"

definition keyword_scale :: "memory_ctx list \<Rightarrow> f64 \<Rightarrow> fusion \<Rightarrow> f64" where
  "keyword_scale graph fullMatch fusion =
     (let maxKeyword = max_keyword graph in
      if fullMatch > 0 \<and> maxKeyword > 0 \<and> fu_coverage fusion > 0
      then math_pow maxKeyword (1 - fu_coverage fusion) * math_pow fullMatch (fu_coverage fusion)
      else maxKeyword)"

text \<open>\<open>rank[id] = i + 1\<close>, in order; 0 is the rank of a memory that was not retrieved.\<close>

definition rank_map :: "memory_ctx list \<Rightarrow> uuid \<Rightarrow> int" where
  "rank_map rs = fold (\<lambda>(i, r) f. f(m_id (mc_memory r) := int i + 1)) (enumerate 0 rs) (\<lambda>_. 0)"

definition cosine_map :: "memory_ctx list \<Rightarrow> uuid \<rightharpoonup> f64" where
  "cosine_map rs = fold (\<lambda>r f. f(m_id (mc_memory r) \<mapsto> mc_score r)) rs Map.empty"

definition cos_min :: "memory_ctx list \<Rightarrow> f64" where
  "cos_min rs = fold (\<lambda>r lo. math_min lo (mc_score r)) rs PInf"

definition cos_max :: "memory_ctx list \<Rightarrow> f64" where
  "cos_max rs = fold (\<lambda>r hi. math_max hi (mc_score r)) rs NInf"

text \<open>The map of candidates after the three loops that fill it.\<close>

definition add_new :: "memory_ctx \<Rightarrow> (uuid \<times> memory_ctx) list \<Rightarrow> (uuid \<times> memory_ctx) list" where
  "add_new r seen =
     (if map_of seen (m_id (mc_memory r)) \<noteq> None then seen else AList.update (m_id (mc_memory r)) r seen)"

definition merge_seen :: "memory_ctx list \<Rightarrow> memory_ctx list \<Rightarrow> memory list \<Rightarrow> (uuid \<times> memory_ctx) list" where
  "merge_seen graph vector entity =
     (let seen = fold (\<lambda>r. AList.update (m_id (mc_memory r)) r) graph [];
          seen = fold (\<lambda>r. add_new (r\<lparr>mc_relevance := 0\<rparr>)) vector seen
      in fold (\<lambda>m. add_new (plain_ctx 0 m)) entity seen)"

text \<open>One candidate: the semantic gate, then the relevance of the mode.\<close>

definition fuse ::
  "memory_ctx list \<Rightarrow> memory_ctx list \<Rightarrow> memory list \<Rightarrow> (uuid \<Rightarrow> f64) \<Rightarrow> f64 \<Rightarrow> fusion \<Rightarrow>
     uuid \<times> memory_ctx \<Rightarrow> memory_ctx option" where
  "fuse graph vector entity overlap fullMatch fusion = (\<lambda>(i, r).
     let cosine = cosine_map vector i;
         cos = (case cosine of None \<Rightarrow> 0 | Some c \<Rightarrow> c);
         other = (i \<in> (m_id \<circ> mc_memory) ` set graph \<or> i \<in> m_id ` set entity);
         wk = fu_keyword fusion; ws = fu_semantic fusion; we = fu_entity fusion;
         k = fu_rrfk fusion
     in if \<not> PassesSemanticGate cos (cosine \<noteq> None) other then None
        else Some (r\<lparr>mc_relevance := (case fu_mode fusion of
          FusionMinMax \<Rightarrow>
            let scale = keyword_scale graph fullMatch fusion;
                kw = (if i \<in> (m_id \<circ> mc_memory) ` set graph \<and> scale > 0 then mc_score r / scale else 0);
                sem = (case cosine of None \<Rightarrow> 0 | Some c \<Rightarrow> MinMax c (cos_min vector) (cos_max vector))
            in FuseWeighted kw sem (overlap i) wk ws we
        | FusionRRF \<Rightarrow>
            (RRF (rank_map graph i) k wk + RRF (rank_map vector i) k ws + RRF 1 k we * overlap i) /
            RRF 1 k (wk + ws + we)
        | _ \<Rightarrow> FuseWeighted (mc_relevance r) cos (overlap i) wk ws we)\<rparr>))"

text \<open>The walk over the map, in the order \<open>seen\<close> lists it, and the sort by identifier.\<close>

definition merge_walk ::
  "memory_ctx list \<Rightarrow> memory_ctx list \<Rightarrow> memory list \<Rightarrow> (uuid \<Rightarrow> f64) \<Rightarrow> f64 \<Rightarrow> fusion \<Rightarrow>
     (uuid \<times> memory_ctx) list \<Rightarrow> memory_ctx list" where
  "merge_walk graph vector entity overlap fullMatch fusion seen =
     sort_stable (\<lambda>a b. m_id (mc_memory a) < m_id (mc_memory b))
       (List.map_filter (fuse graph vector entity overlap fullMatch fusion) seen)"

definition mergeResults ::
  "memory_ctx list \<Rightarrow> memory_ctx list \<Rightarrow> memory list \<Rightarrow> (uuid \<Rightarrow> f64) \<Rightarrow> f64 \<Rightarrow> fusion \<Rightarrow> memory_ctx list" where
  "mergeResults graph vector entity overlap fullMatch fusion =
     merge_walk graph vector entity overlap fullMatch fusion (merge_seen graph vector entity)"

section \<open>The engine\<close>

record 's rrepo =
  rr_text :: "string \<Rightarrow> string list \<Rightarrow> int \<Rightarrow> ('s, memory_ctx list \<times> f64) op"
  rr_searchable :: "string list \<Rightarrow> ('s, bool) op"
  rr_query :: "query_filter \<Rightarrow> ('s, memory_ctx list) op"
  rr_vector :: "vec \<Rightarrow> string \<Rightarrow> int \<Rightarrow> ('s, memory_ctx list) op"
  rr_entities :: "string \<Rightarrow> string list \<Rightarrow> int \<Rightarrow> ('s, memory list) op"
  rr_count :: "uuid list \<Rightarrow> string list \<Rightarrow> ('s, uuid \<rightharpoonup> nat) op"
  rr_superseded :: "uuid list \<Rightarrow> ('s, uuid \<Rightarrow> bool) op"

record 's rengine =
  re_repo :: "'s rrepo"
  re_embedder :: "embedder option"
  re_net :: "'s net"
  re_off :: bool
  re_now :: "'s \<Rightarrow> gtime \<times> 's"
  re_fusion :: fusion
  re_entities :: "string \<Rightarrow> string list"

record candidate =
  cd_id :: uuid
  cd_score :: f64
  cd_raw :: f64

record ranked =
  rd_id :: uuid
  rd_keyword :: f64
  rd_cosine :: f64
  rd_entity :: f64
  rd_relevance :: f64
  rd_score :: f64

record trace =
  tr_keywords :: "string list"
  tr_unsearchable :: bool
  tr_entities :: "string list"
  tr_keyword :: "candidate list"
  tr_vector :: "candidate list"
  tr_entity :: "candidate list"
  tr_ranked :: "ranked list"

text \<open>\<open>DisableGraphSignals\<close> and \<open>SetClock\<close> write one field each.\<close>

definition DisableGraphSignals :: "'s rengine \<Rightarrow> 's rengine" where
  "DisableGraphSignals E = E\<lparr>re_off := True\<rparr>"

definition SetClock :: "('s \<Rightarrow> gtime \<times> 's) \<Rightarrow> 's rengine \<Rightarrow> 's rengine" where
  "SetClock now E = E\<lparr>re_now := now\<rparr>"

text \<open>The entity retriever: the matches, the overlap of every candidate, the query's entities.\<close>

definition query_entities :: "'s rengine \<Rightarrow> string \<Rightarrow> string list" where
  "query_entities E query = filter (\<lambda>n. n \<noteq> []) (map NormalizeEntity (re_entities E query))"

definition entity_overlap :: "(uuid \<rightharpoonup> nat) \<Rightarrow> string list \<Rightarrow> uuid \<Rightarrow> f64" where
  "entity_overlap counts qs i =
     (case counts i of
        None \<Rightarrow> 0
      | Some n \<Rightarrow> let o' = EntityOverlapCount (int n) qs in if o' > 0 then o' else 0)"

definition entityMatches ::
  "'s rengine \<Rightarrow> string \<Rightarrow> string \<Rightarrow> int \<Rightarrow> memory_ctx list \<Rightarrow> memory_ctx list \<Rightarrow>
     ('s, memory list \<times> (uuid \<Rightarrow> f64) \<times> string list) op" where
  "entityMatches E projectID query topK graph vector =
     (if projectID = [] \<or> query = [] then return_op ([], \<lambda>_. 0, [])
      else let qs = query_entities E query in
        if length qs = 0 then return_op ([], \<lambda>_. 0, [])
        else attempt (rr_entities (re_repo E) projectID qs (entityCandidatePool topK)) (\<lambda>r. case r of
            None \<Rightarrow> return_op ([], \<lambda>_. 0, qs)
          | Some matches \<Rightarrow>
              let ids = first_by (\<lambda>i. i) (\<lambda>i. False) {}
                          (map (m_id \<circ> mc_memory) graph @ map (m_id \<circ> mc_memory) vector @ map m_id matches)
              in attempt (rr_count (re_repo E) ids qs) (\<lambda>c. case c of
                  None \<Rightarrow> return_op (matches, \<lambda>_. 0, qs)
                | Some counts \<Rightarrow> return_op (matches, entity_overlap counts qs, qs))))"

definition flagSuperseded :: "'s rengine \<Rightarrow> memory_ctx list \<Rightarrow> ('s, memory_ctx list) op" where
  "flagSuperseded E results =
     (if length results = 0 then return_op results
      else attempt (rr_superseded (re_repo E) (map (m_id \<circ> mc_memory) results)) (\<lambda>r. case r of
          None \<Rightarrow> return_op results
        | Some superseded \<Rightarrow> return_op
            (map (\<lambda>r. if superseded (m_id (mc_memory r)) then r\<lparr>mc_superseded := True\<rparr> else r) results)))"

text \<open>The keyword retriever: its candidates, the scale of a full match, and whether it fell back.\<close>

definition keyword_fallback ::
  "'s rengine \<Rightarrow> query_filter \<Rightarrow> memory_ctx list \<Rightarrow> f64 \<Rightarrow> bool \<Rightarrow> ('s, memory_ctx list \<times> f64 \<times> bool) op" where
  "keyword_fallback E filter' hits fullMatch unsearchable =
     (if \<not> unsearchable then return_op (hits, fullMatch, False)
      else and_then (rr_query (re_repo E) (filter'\<lparr>qf_keywords := []\<rparr>)) (\<lambda>rs.
        return_op (map (\<lambda>r. r\<lparr>mc_relevance := 0, mc_score := 0\<rparr>) rs, 0, True)))"

definition keyword_stage ::
  "'s rengine \<Rightarrow> query_filter \<Rightarrow> ('s, memory_ctx list \<times> f64 \<times> bool) op" where
  "keyword_stage E filter' =
     and_then (rr_text (re_repo E) (qf_project filter') (qf_keywords filter') (keywordCandidatePool (qf_topk filter')))
       (\<lambda>(hits, idfSum).
         let fullMatch = FullMatchScore idfSum;
             hits = map (\<lambda>r. r\<lparr>mc_relevance := NormalizeBM25 (mc_score r) (int (length (qf_keywords filter')))\<rparr>) hits
         in if qf_keywords filter' = [] then keyword_fallback E filter' hits fullMatch True
            else if hits \<noteq> [] then keyword_fallback E filter' hits fullMatch False
            else attempt (rr_searchable (re_repo E) (qf_keywords filter')) (\<lambda>s. case s of
                None \<Rightarrow> keyword_fallback E filter' hits fullMatch False
              | Some searchable \<Rightarrow> keyword_fallback E filter' hits fullMatch (\<not> searchable)))"

definition vector_stage :: "'s rengine \<Rightarrow> string \<Rightarrow> query_filter \<Rightarrow> ('s, memory_ctx list) op" where
  "vector_stage E query filter' =
     (case re_embedder E of
        None \<Rightarrow> return_op []
      | Some e \<Rightarrow>
          if query = [] then return_op []
          else attempt (Embed (re_net E) e query) (\<lambda>v. case v of
              None \<Rightarrow> return_op []
            | Some queryVec \<Rightarrow>
                attempt (rr_vector (re_repo E) queryVec (qf_project filter') (vectorCandidatePool (qf_topk filter')))
                  (\<lambda>r. case r of None \<Rightarrow> return_op [] | Some rs \<Rightarrow> return_op rs)))"

definition trace_of ::
  "query_filter \<Rightarrow> memory_ctx list \<Rightarrow> bool \<Rightarrow> memory_ctx list \<Rightarrow> memory list \<Rightarrow> (uuid \<Rightarrow> f64) \<Rightarrow> string list \<Rightarrow>
     memory_ctx list \<Rightarrow> trace" where
  "trace_of filter' graph unsearchable vector entity overlap qs results =
     \<lparr>tr_keywords = qf_keywords filter', tr_unsearchable = unsearchable, tr_entities = qs,
      tr_keyword = (if unsearchable then [] else
        map (\<lambda>r. \<lparr>cd_id = m_id (mc_memory r), cd_score = mc_relevance r, cd_raw = mc_score r\<rparr>) graph),
      tr_vector = map (\<lambda>r. \<lparr>cd_id = m_id (mc_memory r), cd_score = mc_score r, cd_raw = mc_score r\<rparr>) vector,
      tr_entity = map (\<lambda>m. \<lparr>cd_id = m_id m, cd_score = overlap (m_id m), cd_raw = overlap (m_id m)\<rparr>) entity,
      tr_ranked = map (\<lambda>r. let i = m_id (mc_memory r) in
        \<lparr>rd_id = i,
         rd_keyword = fold (\<lambda>g f. f(m_id (mc_memory g) := mc_relevance g)) graph (\<lambda>_. 0) i,
         rd_cosine = (case cosine_map vector i of None \<Rightarrow> 0 | Some c \<Rightarrow> c),
         rd_entity = overlap i, rd_relevance = mc_relevance r, rd_score = mc_score r\<rparr>) results\<rparr>"

definition retrieve ::
  "'s rengine \<Rightarrow> string \<Rightarrow> string \<Rightarrow> memory_type list \<Rightarrow> int \<Rightarrow> ('s, memory_ctx list \<times> trace) op" where
  "retrieve E query projectID types topK =
     (let filter' = ParseQuery query projectID types topK in
      and_then (keyword_stage E filter') (\<lambda>(graph, fullMatch, unsearchable).
      and_then (vector_stage E query filter') (\<lambda>vector.
      and_then (if re_off E then return_op ([], \<lambda>_. 0, [])
                else entityMatches E projectID query (qf_topk filter') graph vector) (\<lambda>(entity, overlap, qs).
      let results = mergeResults graph vector entity overlap fullMatch (re_fusion E) in
      and_then (if re_off E then return_op results else flagSuperseded E results) (\<lambda>results.
      draw (re_now E) (\<lambda>now.
      let page = RankResultsAt results (qf_topk filter') now in
      return_op (page, trace_of filter' graph unsearchable vector entity overlap qs page)))))))"

definition RetrieveTraced ::
  "'s rengine \<Rightarrow> string \<Rightarrow> string \<Rightarrow> memory_type list \<Rightarrow> int \<Rightarrow> ('s, memory_ctx list \<times> trace) op" where
  "RetrieveTraced E query projectID types topK = retrieve E query projectID types topK"

definition Retrieve :: "'s rengine \<Rightarrow> string \<Rightarrow> string \<Rightarrow> memory_type list \<Rightarrow> int \<Rightarrow> ('s, memory_ctx list) op" where
  "Retrieve E query projectID types topK =
     and_then (retrieve E query projectID types topK) (\<lambda>(results, t). return_op results)"

section \<open>What the merge returns\<close>

definition keyed :: "(uuid \<times> memory_ctx) list \<Rightarrow> bool" where
  "keyed seen = (distinct (map fst seen) \<and> (\<forall>(i, r) \<in> set seen. m_id (mc_memory r) = i))"

definition ids_of :: "(uuid \<times> memory_ctx) list \<Rightarrow> uuid set" where "ids_of seen = fst ` set seen"

lemma ids_of_update: "ids_of (AList.update i r seen) = insert i (ids_of seen)"
  by (simp add: ids_of_def flip: dom_map_of_conv_image_fst) (simp add: update_conv')

lemma keyed_update:
  assumes "keyed seen" "m_id (mc_memory r) = i"
  shows "keyed (AList.update i r seen)"
proof -
  have d: "distinct (map fst (AList.update i r seen))" using assms(1) by (simp add: keyed_def distinct_update)
  have "m_id (mc_memory q) = j" if "(j, q) \<in> set (AList.update i r seen)" for j q
  proof -
    have "map_of (AList.update i r seen) j = Some q" using d that by simp
    then have "j = i \<and> q = r \<or> map_of seen j = Some q" by (auto simp: update_conv split: if_splits)
    then show ?thesis using assms by (auto simp: keyed_def dest: map_of_SomeD)
  qed
  with d show ?thesis by (auto simp: keyed_def)
qed

lemma add_new_props:
  assumes "keyed seen"
  shows "keyed (add_new r seen)" "ids_of (add_new r seen) = insert (m_id (mc_memory r)) (ids_of seen)"
proof -
  have "map_of seen (m_id (mc_memory r)) = None \<longleftrightarrow> m_id (mc_memory r) \<notin> ids_of seen"
    by (simp add: map_of_eq_None_iff ids_of_def)
  then show "keyed (add_new r seen)" "ids_of (add_new r seen) = insert (m_id (mc_memory r)) (ids_of seen)"
    using assms keyed_update [OF assms refl, of r] by (auto simp: add_new_def ids_of_update)
qed

lemma fold_seen:
  assumes "\<And>x seen. keyed seen \<Longrightarrow> keyed (g x seen) \<and> ids_of (g x seen) = insert (h x) (ids_of seen)"
  shows "keyed seen \<Longrightarrow> keyed (fold g xs seen) \<and> ids_of (fold g xs seen) = h ` set xs \<union> ids_of seen"
proof (induction xs arbitrary: seen)
  case (Cons x xs)
  then show ?case using assms [OF Cons.prems] Cons.IH [of "g x seen"] by auto
qed simp

lemma merge_seen_props:
  "keyed (merge_seen graph vector entity) \<and>
   ids_of (merge_seen graph vector entity) =
     (m_id \<circ> mc_memory) ` set graph \<union> (m_id \<circ> mc_memory) ` set vector \<union> m_id ` set entity"
proof -
  let ?a = "fold (\<lambda>r. AList.update (m_id (mc_memory r)) r) graph []"
  let ?b = "fold (\<lambda>r. add_new (r\<lparr>mc_relevance := 0\<rparr>)) vector ?a"
  have a: "keyed ?a \<and> ids_of ?a = (m_id \<circ> mc_memory) ` set graph \<union> ids_of []"
    by (rule fold_seen) (auto simp: keyed_update ids_of_update keyed_def [of "[]"])
  have b: "keyed ?b \<and> ids_of ?b = (m_id \<circ> mc_memory) ` set vector \<union> ids_of ?a"
    using a by (intro fold_seen) (auto simp: add_new_props)
  have "keyed (fold (\<lambda>m. add_new (plain_ctx 0 m)) entity ?b) \<and>
      ids_of (fold (\<lambda>m. add_new (plain_ctx 0 m)) entity ?b) = m_id ` set entity \<union> ids_of ?b"
    using b by (intro fold_seen) (auto simp: add_new_props plain_ctx_def)
  then show ?thesis using a b by (auto simp: merge_seen_def ids_of_def)
qed

lemma fuse_Some:
  "fuse graph vector entity overlap fullMatch fusion (i, r) = Some q \<Longrightarrow>
     mc_memory q = mc_memory r \<and> mc_score q = mc_score r \<and> mc_context q = mc_context r \<and> mc_superseded q = mc_superseded r"
  by (auto simp: fuse_def Let_def split: if_splits)

text \<open>Whether the gate lets a candidate through: a weak cosine needs other evidence.\<close>

definition admitted :: "memory_ctx list \<Rightarrow> memory_ctx list \<Rightarrow> memory list \<Rightarrow> uuid \<Rightarrow> bool" where
  "admitted graph vector entity i =
     (i \<in> (m_id \<circ> mc_memory) ` set graph \<or> i \<in> m_id ` set entity \<or>
      (case cosine_map vector i of None \<Rightarrow> True | Some c \<Rightarrow> c \<ge> semanticGate))"

lemma fuse_None: "fuse graph vector entity overlap fullMatch fusion (i, r) = None \<longleftrightarrow> \<not> admitted graph vector entity i"
  by (auto simp: fuse_def admitted_def PassesSemanticGate_def Let_def split: option.split)

lemma map_filter_fuse_ids:
  assumes "keyed seen"
  shows "map (m_id \<circ> mc_memory) (List.map_filter (fuse graph vector entity overlap fullMatch fusion) seen) =
    filter (admitted graph vector entity) (map fst seen)"
  using assms
proof (induction seen)
  case (Cons p seen)
  obtain i r where p: "p = (i, r)" by (cases p)
  have k: "keyed seen" "m_id (mc_memory r) = i" using Cons.prems by (auto simp: keyed_def p)
  show ?case
  proof (cases "fuse graph vector entity overlap fullMatch fusion (i, r)")
    case None
    then have "\<not> admitted graph vector entity i" by (rule fuse_None [THEN iffD1])
    then show ?thesis using Cons.IH [OF k(1)] by (simp add: List.map_filter_simps p None)
  next
    case (Some q)
    then have "admitted graph vector entity i" using fuse_None [of graph vector entity overlap fullMatch fusion i r] by simp
    then show ?thesis using Cons.IH [OF k(1)] fuse_Some [OF Some] k(2) by (simp add: List.map_filter_simps p Some)
  qed
qed (simp add: List.map_filter_simps)

interpretation ids: sort_less "\<lambda>a b. m_id (mc_memory a) < m_id (mc_memory b)" "\<lambda>r. True"
  by unfold_locales auto

lemma merge_walk_ids:
  assumes "keyed seen"
  shows "mset (map (m_id \<circ> mc_memory) (merge_walk graph vector entity overlap fullMatch fusion seen)) =
    mset (filter (admitted graph vector entity) (map fst seen))"
proof -
  have "mset (map (m_id \<circ> mc_memory) (merge_walk graph vector entity overlap fullMatch fusion seen)) =
      mset (map (m_id \<circ> mc_memory) (List.map_filter (fuse graph vector entity overlap fullMatch fusion) seen))"
    by (simp only: merge_walk_def mset_map mset_sort_stable)
  then show ?thesis by (simp only: map_filter_fuse_ids [OF assms])
qed


text \<open>
  The merged list does not depend on how Go walks its map of candidates: every order of the
  walk gives the same results in the same order.
\<close>

lemma mergeResults_walk_independent:
  assumes "mset walk = mset (merge_seen graph vector entity)"
  shows "merge_walk graph vector entity overlap fullMatch fusion walk =
    mergeResults graph vector entity overlap fullMatch fusion"
proof -
  let ?f = "List.map_filter (fuse graph vector entity overlap fullMatch fusion)"
  have k: "keyed (merge_seen graph vector entity)" using merge_seen_props by blast
  have mf: "mset (List.map_filter f xs) = mset (List.map_filter f ys)" if "mset xs = mset ys"
    for f :: "uuid \<times> memory_ctx \<Rightarrow> memory_ctx option" and xs ys
    using that by (simp add: List.map_filter_def)
  have kw: "keyed walk" using k assms mset_eq_setD [OF assms] mset_eq_imp_distinct_iff [of "map fst walk" "map fst (merge_seen graph vector entity)"]
    by (simp add: keyed_def)
  have "distinct (map (m_id \<circ> mc_memory) (?f walk))"
    unfolding map_filter_fuse_ids [OF kw] using kw by (simp add: keyed_def)
  then have inj: "inj_on (m_id \<circ> mc_memory) (set (?f walk))" by (simp only: distinct_map)
  have "m_id (mc_memory a) < m_id (mc_memory b) \<or> m_id (mc_memory b) < m_id (mc_memory a)"
    if "a \<in> set (?f walk)" "b \<in> set (?f walk)" "a \<noteq> b" for a b
  proof -
    have "m_id (mc_memory a) \<noteq> m_id (mc_memory b)" using inj_onD [OF inj, of a b] that by auto
    then show ?thesis by (rule neq_iff [THEN iffD1])
  qed
  then show ?thesis
    unfolding mergeResults_def merge_walk_def
    by (intro ids.order_independent mf [OF assms]) auto
qed

section \<open>Relevance is a number between 0 and 1\<close>

lemma RRF_Fin: "RRF n (Fin k) (Fin w) = (if n \<le> 0 then 0 else Fin w / Fin (k + real_of_int n))"
  by (simp add: RRF_def f_of_int_def)

lemma rank_map_nonneg: "rank_map rs i \<ge> 0"
proof -
  have "(\<And>i. g i \<ge> 0) \<Longrightarrow> fold (\<lambda>(i, r) f. f(m_id (mc_memory r) := int i + 1)) xs g i \<ge> 0"
    for xs :: "(nat \<times> memory_ctx) list" and g :: "uuid \<Rightarrow> int"
    by (induction xs arbitrary: g) auto
  then show ?thesis by (simp add: rank_map_def)
qed

lemma RRF_share:
  assumes "0 \<le> w" "0 < k"
  shows "\<exists>x. RRF n (Fin k) (Fin w) = Fin x \<and> 0 \<le> x \<and> x \<le> w / (k + 1)"
proof (cases "n \<le> 0")
  case False
  then have "1 \<le> real_of_int n" by simp
  then have "0 < k + real_of_int n" "w / (k + real_of_int n) \<le> w / (k + 1)"
    using assms by (auto intro!: divide_left_mono)
  then show ?thesis using False assms by (simp add: RRF_Fin)
qed (use assms in \<open>simp add: RRF_Fin f64_consts\<close>)

lemma unit_quotient: "0 \<le> (x :: real) \<Longrightarrow> x \<le> y \<Longrightarrow> 0 < y \<Longrightarrow> in_unit (Fin x / Fin y)"
  by simp

lemma rrf_unit:
  assumes w: "0 \<le> wk" "0 \<le> ws" "0 \<le> we" "0 < wk + ws + we" and k: "0 < k" and o: "in_unit v"
  shows "in_unit ((RRF m (Fin k) (Fin wk) + RRF n (Fin k) (Fin ws) + RRF 1 (Fin k) (Fin we) * v) /
    RRF 1 (Fin k) (Fin wk + Fin ws + Fin we))"
proof -
  obtain x where x: "RRF m (Fin k) (Fin wk) = Fin x" "0 \<le> x" "x \<le> wk / (k + 1)" using RRF_share [OF w(1) k] by blast
  obtain y where y: "RRF n (Fin k) (Fin ws) = Fin y" "0 \<le> y" "y \<le> ws / (k + 1)" using RRF_share [OF w(2) k] by blast
  obtain u where u: "v = Fin u" "0 \<le> u" "u \<le> 1" using o by (rule in_unitE)
  have e: "RRF 1 (Fin k) (Fin we) = Fin (we / (k + 1))" "RRF 1 (Fin k) (Fin (wk + ws + we)) = Fin ((wk + ws + we) / (k + 1))"
    using k by (simp_all add: RRF_Fin)
  have b: "0 < (wk + ws + we) / (k + 1)" using w(4) k by simp
  have "we / (k + 1) * u \<le> we / (k + 1)" using u w(3) k by (simp add: mult_left_le divide_right_mono)
  then have "x + y + we / (k + 1) * u \<le> (wk + ws + we) / (k + 1)" using x y by (simp add: add_divide_distrib)
  moreover have "0 \<le> x + y + we / (k + 1) * u" using x y u w(3) k by simp
  ultimately have "in_unit (Fin (x + y + we / (k + 1) * u) / Fin ((wk + ws + we) / (k + 1)))"
    using b by (intro unit_quotient)
  then show ?thesis by (simp add: x y u e)
qed

lemma FuseWeighted_clamped: "in_unit (FuseWeighted a b c wk ws we)"
  by (simp add: FuseWeighted_def Let_def f64_consts)

text \<open>
  Whatever the retrievers return, every merged candidate's relevance is a number between 0 and
  1, in each of the three fusion modes, once \<open>SetFusion\<close> has accepted the fusion and its numbers are
  finite; so no candidate can poison the ranking with an infinite or undefined score.
\<close>

lemma mergeResults_relevance_unit:
  assumes "SetFusion fusion = Inr fusion'" "\<And>i. in_unit (overlap i)"
    and "{fu_keyword fusion, fu_semantic fusion, fu_entity fusion, fu_rrfk fusion} \<subseteq> range Fin"
  shows "list_all (\<lambda>r. in_unit (mc_relevance r)) (mergeResults graph vector entity overlap fullMatch fusion)"
  unfolding list_all_iff
proof
  fix r assume "r \<in> set (mergeResults graph vector entity overlap fullMatch fusion)"
  then obtain i q where q: "fuse graph vector entity overlap fullMatch fusion (i, q) = Some r"
    by (auto simp: mergeResults_def merge_walk_def List.map_filter_def)
  obtain wk ws we k where f: "fu_keyword fusion = Fin wk" "fu_semantic fusion = Fin ws" "fu_entity fusion = Fin we"
      "fu_rrfk fusion = Fin k" using assms(3) by auto
  have w: "0 \<le> wk" "0 \<le> ws" "0 \<le> we" "0 < wk + ws + we" and k: "fu_mode fusion = FusionRRF \<Longrightarrow> 0 < k"
    using assms(1) by (auto simp: SetFusion_def f f64_consts split: if_splits)
  show "in_unit (mc_relevance r)"
  proof (cases "fu_mode fusion")
    case FusionRRF
    then show ?thesis
      using q rrf_unit [OF w k assms(2), of "rank_map graph i" "rank_map vector i" i]
      by (auto simp: fuse_def Let_def f split: if_splits)
  qed (use q FuseWeighted_clamped in \<open>auto simp: fuse_def Let_def split: if_splits\<close>)
qed

section \<open>The query as parsed\<close>

text \<open>
  The parsed query is safe to run.  Whatever was asked, between 1 and 200 results are wanted, the
  keyword and vector pools are at least that many and at most 500 and 200, the entity pool at most
  100; and every keyword is lower case, at least two bytes long, no stop word, and has neither
  white space nor surrounding punctuation.
\<close>

lemma ParseQuery_wellformed:
  "let f = ParseQuery query projectID types topK; k = qf_topk f in
     qf_project f = projectID \<and> qf_types f = types \<and> k = (if topK \<le> 0 then 5 else min topK 200) \<and>
     k \<le> keywordCandidatePool k \<and> keywordCandidatePool k \<le> 500 \<and>
     k \<le> vectorCandidatePool k \<and> vectorCandidatePool k \<le> 200 \<and>
     1 \<le> entityCandidatePool k \<and> entityCandidatePool k \<le> 100 \<and>
     list_all (\<lambda>w. 2 \<le> length w \<and> w \<notin> set query_stopWords \<and> to_lower w = w \<and>
       list_all (\<lambda>c. \<not> is_space c) w \<and> hd w \<notin> set keyword_cutset \<and> last w \<notin> set keyword_cutset) (qf_keywords f)"
proof -
  have "2 \<le> length w \<and> w \<notin> set query_stopWords \<and> to_lower w = w \<and>
       list_all (\<lambda>c. \<not> is_space c) w \<and> hd w \<notin> set keyword_cutset \<and> last w \<notin> set keyword_cutset"
    if "w \<in> set (extractKeywords query)" for w
  proof -
    note w = that
    obtain u where u: "u \<in> set (str_fields (to_lower query))" "w = trim u keyword_cutset" "2 \<le> length w"
        "w \<notin> set query_stopWords"
    proof -
      from w obtain u where "u \<in> set (str_fields (to_lower query))" "w = trim u keyword_cutset"
        unfolding extractKeywords_def set_filter set_map by blast
      moreover have "\<not> length w < 2" "w \<notin> set query_stopWords" using w by (simp_all add: extractKeywords_def)
      ultimately show thesis using that(1) by (simp add: not_less)
    qed
    have low: "to_lower u = u" using u(1) by (auto simp: fields_lower)
    have sub: "set w \<subseteq> set u" using set_trim_by u(2) by (simp add: trim_def)
    have "\<forall>c \<in> set u. lower_char c = c" using low unfolding to_lower_def by (metis map_eq_conv map_ident)
    then have "to_lower w = w" using sub unfolding to_lower_def by (intro map_idI) blast
    moreover have "list_all (\<lambda>c. \<not> is_space c) w" using fields_words [OF u(1)] sub by (auto simp: is_word_def list_all_iff)
    moreover have "trim_by (\<lambda>c. c \<in> set keyword_cutset) u \<noteq> []" using u(2,3) by (auto simp: trim_def)
    from trim_by_ends [OF this] have "hd w \<notin> set keyword_cutset" "last w \<notin> set keyword_cutset"
      by (simp_all add: u(2) trim_def)
    ultimately show ?thesis using u(3,4) by blast
  qed
  then show ?thesis
    by (auto simp: ParseQuery_def Let_def list_all_iff keywordCandidatePool_def vectorCandidatePool_def
        entityCandidatePool_def graphCandidatePoolFactor_def maxGraphCandidatePool_def vectorCandidatePoolFactor_def
        maxVectorCandidatePool_def entityCandidatePoolFactor_def maxEntityCandidatePool_def defaultTopK_def maxTopK_def)
qed

section \<open>What a query answers\<close>

lemma answers_read_stages [answers_intros]:
  "answers (vector_stage E query f)" "answers (entityMatches E p query k graph vector)" "answers (flagSuperseded E rs)"
  by (auto simp: vector_stage_def entityMatches_def flagSuperseded_def Let_def intro!: answers_intros)

lemma retrieve_keyword:
  "keyword_stage E (ParseQuery query projectID types topK) s = (Inl e, s1) \<Longrightarrow>
     retrieve E query projectID types topK s = (Inl e, s1)"
  "keyword_stage E (ParseQuery query projectID types topK) s = (Inr x, s1) \<Longrightarrow>
     \<exists>y s'. retrieve E query projectID types topK s = (Inr y, s')"
proof -
  have "answers (case x of (graph, fullMatch, unsearchable) \<Rightarrow>
      and_then (vector_stage E query (ParseQuery query projectID types topK)) (\<lambda>vector.
      and_then (if re_off E then return_op ([], \<lambda>_. 0, [])
                else entityMatches E projectID query (qf_topk (ParseQuery query projectID types topK)) graph vector) (\<lambda>(entity, overlap, qs).
      let results = mergeResults graph vector entity overlap fullMatch (re_fusion E) in
      and_then (if re_off E then return_op results else flagSuperseded E results) (\<lambda>results.
      draw (re_now E) (\<lambda>now.
      let page = RankResultsAt results (qf_topk (ParseQuery query projectID types topK)) now in
      return_op (page, trace_of (ParseQuery query projectID types topK) graph unsearchable vector entity overlap qs page))))))" for x
    by (auto simp: Let_def intro!: answers_intros)
  then show "keyword_stage E (ParseQuery query projectID types topK) s = (Inr x, s1) \<Longrightarrow>
     \<exists>y s'. retrieve E query projectID types topK s = (Inr y, s')"
    unfolding retrieve_def Let_def answers_def by simp
qed (simp add: retrieve_def Let_def)

lemma Retrieve_keyword:
  "case keyword_stage E (ParseQuery query projectID types topK) s of
     (Inl e, s1) \<Rightarrow> Retrieve E query projectID types topK s = (Inl e, s1)
   | (Inr x, s1) \<Rightarrow> \<exists>page s'. Retrieve E query projectID types topK s = (Inr page, s')"
proof (cases "keyword_stage E (ParseQuery query projectID types topK) s")
  case (Pair r s1)
  show ?thesis
  proof (cases r)
    case (Inr x)
    obtain y s' where "retrieve E query projectID types topK s = (Inr y, s')"
      using retrieve_keyword(2) [OF Pair [unfolded Inr]] by blast
    then show ?thesis using Pair Inr by (cases y) (simp add: Retrieve_def)
  qed (simp add: Pair Retrieve_def retrieve_keyword(1))
qed

text \<open>
  C15: when a query fails, and when it falls back.  The embedder, the vector search, the entity
  lookups and the supersedes lookup never fail a query: it fails only when the full-text search
  does, or the listing it falls back to.  It falls back exactly when there was nothing to search
  for: no keyword, or no hit and the database answering that no keyword is searchable; an error in
  that check counts as searchable.
\<close>

theorem Retrieve_fails_only_by_keyword:
  "let f = ParseQuery query projectID types topK; R = re_repo E; run = Retrieve E query projectID types topK s in
   case rr_text R projectID (qf_keywords f) (keywordCandidatePool (qf_topk f)) s of
     (Inl e, s1) \<Rightarrow> run = (Inl e, s1)
   | (Inr (hits, idfSum), s1) \<Rightarrow>
       (case (if qf_keywords f = [] then (True, s1)
              else if hits \<noteq> [] then (False, s1)
              else case rr_searchable R (qf_keywords f) s1 of (r, s2) \<Rightarrow> (r = Inr False, s2)) of
          (False, s2) \<Rightarrow> \<exists>page s'. run = (Inr page, s')
        | (True, s2) \<Rightarrow>
            (case rr_query R (f\<lparr>qf_keywords := []\<rparr>) s2 of
               (Inl e, s3) \<Rightarrow> run = (Inl e, s3)
             | (Inr rs, s3) \<Rightarrow> \<exists>page s'. run = (Inr page, s')))"
proof -
  let ?f = "ParseQuery query projectID types topK"
  have p: "qf_project ?f = projectID" by (simp add: ParseQuery_def Let_def)
  note k = Retrieve_keyword [of E query projectID types topK s]
  obtain r s1 where r: "rr_text (re_repo E) projectID (qf_keywords ?f) (keywordCandidatePool (qf_topk ?f)) s = (r, s1)"
    by fastforce
  obtain b s2 where b: "rr_searchable (re_repo E) (qf_keywords ?f) s1 = (b, s2)" by fastforce
  obtain q s3 where q: "rr_query (re_repo E) (?f\<lparr>qf_keywords := []\<rparr>) s2 = (q, s3)" by fastforce
  obtain q' s3' where q': "rr_query (re_repo E) (?f\<lparr>qf_keywords := []\<rparr>) s1 = (q', s3')" by fastforce
  show ?thesis
  proof (cases r)
    case (Inr x)
    obtain hits idf where x: "x = (hits, idf)" by (cases x)
    show ?thesis
      using k by (cases b; cases q; cases q')
        (auto simp: Let_def r Inr x b q q' p keyword_stage_def keyword_fallback_def attempt_def and_then_def return_op_def split: if_splits)
  qed (use k in \<open>simp add: Let_def r p keyword_stage_def\<close>)
qed

section \<open>The page\<close>

lemma retrieve_Inr:
  assumes "retrieve E query projectID types topK s = (Inr (page, t), s')"
  obtains graph fullMatch un vector entity overlap qs results now s1 s2 s3 s4 where
    "keyword_stage E (ParseQuery query projectID types topK) s = (Inr (graph, fullMatch, un), s1)"
    "vector_stage E query (ParseQuery query projectID types topK) s1 = (Inr vector, s2)"
    "(if re_off E then return_op ([], \<lambda>_. 0, [])
      else entityMatches E projectID query (qf_topk (ParseQuery query projectID types topK)) graph vector) s2 =
        (Inr (entity, overlap, qs), s3)"
    "(if re_off E then return_op (mergeResults graph vector entity overlap fullMatch (re_fusion E))
      else flagSuperseded E (mergeResults graph vector entity overlap fullMatch (re_fusion E))) s3 = (Inr results, s4)"
    "page = RankResultsAt results (qf_topk (ParseQuery query projectID types topK)) now"
  using assms unfolding retrieve_def Let_def
  by (elim and_then_Inr) (auto simp: draw_def elim!: and_then_Inr split: prod.splits)

lemma flagSuperseded_memories:
  "flagSuperseded E rs s = (Inr rs', s') \<Longrightarrow> map mc_memory rs' = map mc_memory rs"
  by (auto simp: flagSuperseded_def split: if_splits option.splits elim!: attempt_cases)

lemma Retrieve_Inr:
  assumes "Retrieve E query projectID types topK s = (Inr page, s')"
  obtains graph fullMatch un vector entity overlap qs results now s1 s2 s3 where
    "keyword_stage E (ParseQuery query projectID types topK) s = (Inr (graph, fullMatch, un), s1)"
    "vector_stage E query (ParseQuery query projectID types topK) s1 = (Inr vector, s2)"
    "(if re_off E then return_op ([], \<lambda>_. 0, [])
      else entityMatches E projectID query (qf_topk (ParseQuery query projectID types topK)) graph vector) s2 =
        (Inr (entity, overlap, qs), s3)"
    "map mc_memory results = map mc_memory (mergeResults graph vector entity overlap fullMatch (re_fusion E))"
    "page = RankResultsAt results (qf_topk (ParseQuery query projectID types topK)) now"
proof -
  obtain t s1 where r: "retrieve E query projectID types topK s = (Inr (page, t), s1)"
    using assms by (auto simp: Retrieve_def elim!: and_then_Inr)
  from r show thesis
    by (rule retrieve_Inr) (rule that, auto dest: flagSuperseded_memories split: if_splits)
qed

lemma RankResultsAt_members: "set (map mc_memory (RankResultsAt rs k now)) \<subseteq> set (map mc_memory rs)"
proof -
  have "set (RankResultsAt rs k now) \<subseteq> scored now ` set rs"
    unfolding RankResultsAt_take using set_take_subset by fastforce
  then show ?thesis by (auto simp: scored_def)
qed

lemma RankResultsAt_sorted:
  assumes "distinct (map (m_id \<circ> mc_memory) rs)"
  shows "distinct (map (m_id \<circ> mc_memory) (RankResultsAt rs k now))"
    and "sorted_wrt rank_less (RankResultsAt rs k now)"
proof -
  let ?s = "sort_stable rank_less (map (scored now) rs)"
  have ids: "map (m_id \<circ> mc_memory) (map (scored now) rs) = map (m_id \<circ> mc_memory) rs" by simp
  have "mset (map (m_id \<circ> mc_memory) ?s) = mset (map (m_id \<circ> mc_memory) rs)"
    unfolding mset_map mset_sort_stable by (simp add: image_mset.compositionality comp_def)
  then have d: "distinct (map (m_id \<circ> mc_memory) ?s)" using assms mset_eq_imp_distinct_iff by blast
  then show "distinct (map (m_id \<circ> mc_memory) (RankResultsAt rs k now))"
    unfolding RankResultsAt_take by (metis distinct_take take_map)
  have nan: "\<forall>y \<in> set ?s. mc_score y \<noteq> NaN" using scored_ok by simp
  have "sorted_wrt (\<lambda>a b. \<not> rank_less b a) ?s" using rk.sorted [OF scored_ok] .
  moreover have "sorted_wrt (\<lambda>a b. m_id (mc_memory a) \<noteq> m_id (mc_memory b)) ?s"
    using d by (simp add: distinct_map_filter distinct_conv_nth sorted_wrt_iff_nth_less)
  ultimately have "sorted_wrt (\<lambda>a b. \<not> rank_less b a \<and> m_id (mc_memory a) \<noteq> m_id (mc_memory b)) ?s"
    by (simp add: sorted_wrt_iff_nth_less)
  then have "sorted_wrt rank_less ?s"
    by (rule sorted_wrt_mono_rel [rotated]) (use nan rank_less_total in blast)
  then show "sorted_wrt rank_less (RankResultsAt rs k now)" unfolding RankResultsAt_take by (rule sorted_wrt_take)
qed

lemma mergeResults_distinct: "distinct (map (m_id \<circ> mc_memory) (mergeResults graph vector entity overlap fullMatch fusion))"
proof -
  have k: "keyed (merge_seen graph vector entity)" using merge_seen_props by blast
  then have "distinct (filter (admitted graph vector entity) (map fst (merge_seen graph vector entity)))"
    by (simp add: keyed_def)
  then show ?thesis
    using merge_walk_ids [OF k] mset_eq_imp_distinct_iff unfolding mergeResults_def by blast
qed

text \<open>
  C16: the page a query answers, whatever the retrievers return.  It holds at most the number of
  results asked for (5 by default, never more than 200), no memory twice, in strictly falling
  order of score with ties in identifier order, and every score is a number between 0 and 1.
\<close>

theorem Retrieve_page:
  "case Retrieve E query projectID types topK s of
     (Inl e, s') \<Rightarrow> True
   | (Inr page, s') \<Rightarrow>
       length page \<le> (if topK \<le> 0 then 5 else min (nat topK) 200) \<and>
       distinct (map (m_id \<circ> mc_memory) page) \<and>
       sorted_wrt (\<lambda>a b. mc_score b < mc_score a \<or>
         mc_score a = mc_score b \<and> m_id (mc_memory a) < m_id (mc_memory b)) page \<and>
       list_all (\<lambda>r. in_unit (mc_score r)) page"
proof (cases "Retrieve E query projectID types topK s")
  case (Pair r s')
  show ?thesis
  proof (cases r)
    case (Inr page)
    obtain graph fullMatch vector entity overlap results now where
      mem: "map mc_memory results = map mc_memory (mergeResults graph vector entity overlap fullMatch (re_fusion E))"
      and page: "page = RankResultsAt results (qf_topk (ParseQuery query projectID types topK)) now"
      using Pair unfolding Inr by (rule Retrieve_Inr)
    have d: "distinct (map (m_id \<circ> mc_memory) results)"
      using mergeResults_distinct [of graph vector entity overlap fullMatch "re_fusion E"] mem
      by (metis list.map_comp)
    have "sorted_wrt rank_less page" unfolding page by (rule RankResultsAt_sorted(2) [OF d])
    then have "sorted_wrt (\<lambda>a b. mc_score b < mc_score a \<or>
         mc_score a = mc_score b \<and> m_id (mc_memory a) < m_id (mc_memory b)) page"
      by (rule sorted_wrt_mono_rel [rotated]) (auto simp: rank_less_def feq_def split: if_splits)
    moreover have "list_all (\<lambda>r. in_unit (mc_score r)) page"
    proof -
      have "set page \<subseteq> scored now ` set results"
        unfolding page RankResultsAt_take using set_take_subset by fastforce
      moreover have "in_unit (Score q now)" for q
        using base_score_bounds [of q now] by (simp add: Score_eq)
      ultimately show ?thesis by (auto simp: list_all_iff)
    qed
    moreover have "length page \<le> (if topK \<le> 0 then 5 else min (nat topK) 200)"
      by (auto simp: page RankResultsAt_take ParseQuery_def Let_def defaultTopK_def maxTopK_def)
    ultimately show ?thesis using RankResultsAt_sorted(1) [OF d] by (simp add: Pair Inr page)
  qed (simp add: Pair)
qed

definition mems_of :: "(uuid \<times> memory_ctx) list \<Rightarrow> memory set" where "mems_of seen = mc_memory ` snd ` set seen"

lemma fold_members:
  assumes "\<And>x seen. mems_of (g x seen) \<subseteq> insert (h x) (mems_of seen)"
  shows "mems_of (fold g xs seen) \<subseteq> h ` set xs \<union> mems_of seen"
proof (induction xs arbitrary: seen)
  case (Cons x xs)
  have "mems_of (fold g xs (g x seen)) \<subseteq> h ` set xs \<union> mems_of (g x seen)" by (rule Cons.IH)
  with assms [of x seen] show ?case by auto
qed simp

lemma merge_seen_members:
  "mems_of (merge_seen graph vector entity) \<subseteq> mc_memory ` set graph \<union> mc_memory ` set vector \<union> set entity"
proof -
  have up: "mems_of (AList.update j q seen) \<subseteq> insert (mc_memory q) (mems_of seen)"
    for j q and seen :: "(uuid \<times> memory_ctx) list"
    unfolding mems_of_def by (induction seen) (auto split: if_splits)
  have new: "mems_of (add_new q seen) \<subseteq> insert (mc_memory q) (mems_of seen)" for q seen
    using up [of "m_id (mc_memory q)" q seen] unfolding add_new_def by (cases "map_of seen (m_id (mc_memory q))") auto
  let ?a = "fold (\<lambda>r. AList.update (m_id (mc_memory r)) r) graph []"
  let ?b = "fold (\<lambda>r. add_new (r\<lparr>mc_relevance := 0\<rparr>)) vector ?a"
  have a: "mems_of ?a \<subseteq> mc_memory ` set graph \<union> mems_of []"
    by (rule fold_members [where h = mc_memory]) (rule up)
  have b: "mems_of ?b \<subseteq> mc_memory ` set vector \<union> mems_of ?a"
    by (rule fold_members [where h = mc_memory]) (use new [of "r\<lparr>mc_relevance := 0\<rparr>" for r] in simp)
  have "mems_of (fold (\<lambda>m. add_new (plain_ctx 0 m)) entity ?b) \<subseteq>
      (\<lambda>m. m) ` set entity \<union> mems_of ?b"
    by (rule fold_members) (use new [of "plain_ctx 0 m" for m] in \<open>simp add: plain_ctx_def\<close>)
  with a b show ?thesis unfolding merge_seen_def Let_def by (auto simp: mems_of_def [of "[]"])
qed

lemma mergeResults_members:
  "mc_memory ` set (mergeResults graph vector entity overlap fullMatch fusion) \<subseteq>
     mc_memory ` set graph \<union> mc_memory ` set vector \<union> set entity"
proof
  fix m assume "m \<in> mc_memory ` set (mergeResults graph vector entity overlap fullMatch fusion)"
  then obtain i q r where q: "(i, q) \<in> set (merge_seen graph vector entity)" "m = mc_memory r"
      "fuse graph vector entity overlap fullMatch fusion (i, q) = Some r"
    by (auto simp: mergeResults_def merge_walk_def List.map_filter_def)
  then have "m = mc_memory q" using fuse_Some by blast
  then have "m \<in> mems_of (merge_seen graph vector entity)" using q(1) unfolding mems_of_def by force
  then show "m \<in> mc_memory ` set graph \<union> mc_memory ` set vector \<union> set entity" using merge_seen_members by blast
qed

section \<open>A query stays in its project\<close>

text \<open>What the read path asks of a repository for one project \<open>p\<close>: the memories it returns are \<open>p\<close>'s.\<close>

locale project_reads =
  fixes R :: "'s rrepo" and I :: "'s \<Rightarrow> bool" and p :: string
  assumes text_keeps: "keeps I any_row (rr_text R p kws n)"
    and searchable_keeps: "keeps I any_row (rr_searchable R kws)"
    and query_keeps: "keeps I any_row (rr_query R f)"
    and vector_keeps: "keeps I any_row (rr_vector R v p n)"
    and entities_keeps: "keeps I any_row (rr_entities R p names n)"
    and text_in: "I s \<Longrightarrow> rr_text R p kws n s = (Inr (hits, idfSum), s') \<Longrightarrow> c \<in> set hits \<Longrightarrow> m_project (mc_memory c) = p"
    and query_in: "I s \<Longrightarrow> qf_project f = p \<Longrightarrow> rr_query R f s = (Inr rs, s') \<Longrightarrow> c \<in> set rs \<Longrightarrow> m_project (mc_memory c) = p"
    and vector_in: "I s \<Longrightarrow> rr_vector R v p n s = (Inr rs, s') \<Longrightarrow> c \<in> set rs \<Longrightarrow> m_project (mc_memory c) = p"
    and entities_in: "I s \<Longrightarrow> rr_entities R p names n s = (Inr ms, s') \<Longrightarrow> m \<in> set ms \<Longrightarrow> m_project m = p"

locale scoped_engine = project_reads +
  fixes E :: "'a rengine"
  assumes repo: "re_repo E = R" and net_keeps: "keeps I any_row (re_net E url auth body)"
begin

lemma ParseQuery_project: "qf_project (ParseQuery query p types k) = p"
  by (simp add: ParseQuery_def Let_def)

lemma keyword_stage_in:
  assumes "I s" "qf_project f = p" "keyword_stage E f s = (Inr (graph, fm, un), s')"
  shows "I s' \<and> (\<forall>c \<in> set graph. m_project (mc_memory c) = p)"
proof -
  have fb: "I u \<Longrightarrow> keyword_fallback E f hits fm0 b u = (Inr (graph, fm, un), s') \<Longrightarrow>
      \<forall>c \<in> set hits. m_project (mc_memory c) = p \<Longrightarrow> I s' \<and> (\<forall>c \<in> set graph. m_project (mc_memory c) = p)"
    for u hits fm0 b
    using query_in [of u "f\<lparr>qf_keywords := []\<rparr>"] keepsD [OF query_keeps, of u "f\<lparr>qf_keywords := []\<rparr>"] assms(2)
    by (auto simp: keyword_fallback_def repo split: if_splits elim!: and_then_Inr)
  obtain hits idfSum s1 where t: "rr_text R p (qf_keywords f) (keywordCandidatePool (qf_topk f)) s = (Inr (hits, idfSum), s1)"
    using assms(2,3) by (auto simp: keyword_stage_def repo elim!: and_then_Inr)
  let ?hits = "map (\<lambda>r. r\<lparr>mc_relevance := NormalizeBM25 (mc_score r) (int (length (qf_keywords f)))\<rparr>) hits"
  have s1: "I s1" using keepsD [OF text_keeps assms(1) t] by blast
  have h: "\<forall>c \<in> set ?hits. m_project (mc_memory c) = p" using text_in [OF assms(1) t] by auto
  have sk: "I u" if "rr_searchable R kws s1 = (x, u)" for kws x u using keepsD [OF searchable_keeps s1 that] by blast
  have "\<exists>u fm0 b. I u \<and> keyword_fallback E f ?hits fm0 b u = (Inr (graph, fm, un), s')"
  proof (cases "qf_keywords f = [] \<or> hits \<noteq> []")
    case True
    then show ?thesis using assms(2,3) s1 by (auto simp: keyword_stage_def t repo Let_def split: if_splits)
  next
    case False
    then show ?thesis using assms(2,3) sk
      by (auto simp: keyword_stage_def t repo Let_def elim!: attempt_cases) blast+
  qed
  then show ?thesis using fb [OF _ _ h] by blast
qed

lemma vector_stage_in:
  assumes "I s" "qf_project f = p" "vector_stage E query f s = (Inr vs, s')"
  shows "I s' \<and> (\<forall>c \<in> set vs. m_project (mc_memory c) = p)"
proof -
  have ek: "I u \<Longrightarrow> Embed (re_net E) e query u = (x, u') \<Longrightarrow> I u'" for e x u u'
    using keepsD [OF keeps_Embed [of I any_row "re_net E", OF net_keeps]] by blast
  show ?thesis
  proof (cases "re_embedder E = None \<or> query = []")
    case False
    then obtain e where e: "re_embedder E = Some e" "query \<noteq> []" by auto
    let ?k = "\<lambda>v. case v of None \<Rightarrow> return_op [] | Some queryVec \<Rightarrow>
      attempt (rr_vector R queryVec p (vectorCandidatePool (qf_topk f))) (\<lambda>r. case r of None \<Rightarrow> return_op [] | Some rs \<Rightarrow> return_op rs)"
    have "attempt (Embed (re_net E) e query) ?k s = (Inr vs, s')"
      using assms(2,3) e by (simp add: vector_stage_def repo)
    then show ?thesis
    proof (cases rule: attempt_cases)
      case (2 v s1)
      have s1: "I s1" by (rule ek [OF assms(1) 2(1)])
      from 2(2) have "attempt (rr_vector R v p (vectorCandidatePool (qf_topk f)))
          (\<lambda>r. case r of None \<Rightarrow> return_op [] | Some rs \<Rightarrow> return_op rs) s1 = (Inr vs, s')" by simp
      then show ?thesis
        by (cases rule: attempt_cases) (use vector_in [OF s1] keepsD [OF vector_keeps s1] in auto)
    qed (use ek [OF assms(1)] in auto)
  qed (use assms in \<open>auto simp: vector_stage_def split: option.splits\<close>)
qed

lemma entityMatches_in:
  assumes "I s" "entityMatches E p query k graph vs s = (Inr (ms, ov, qs), s')" "m \<in> set ms"
  shows "m_project m = p"
  using assms entities_in
  by (fastforce simp: entityMatches_def repo Let_def split: option.splits if_splits elim!: attempt_cases)

lemma Retrieve_in:
  assumes "I s" "Retrieve E query p types k s = (Inr page, s')" "c \<in> set page"
  shows "m_project (mc_memory c) = p"
proof -
  obtain graph fm un vs ms ov qs results now s1 s2 s3 where
    k: "keyword_stage E (ParseQuery query p types k) s = (Inr (graph, fm, un), s1)" and
    v: "vector_stage E query (ParseQuery query p types k) s1 = (Inr vs, s2)" and
    e: "(if re_off E then return_op ([], \<lambda>_. 0, [])
      else entityMatches E p query (qf_topk (ParseQuery query p types k)) graph vs) s2 = (Inr (ms, ov, qs), s3)" and
    r: "map mc_memory results = map mc_memory (mergeResults graph vs ms ov fm (re_fusion E))" and
    page: "page = RankResultsAt results (qf_topk (ParseQuery query p types k)) now"
    using assms(2) by (rule Retrieve_Inr)
  note k' = keyword_stage_in [OF assms(1) ParseQuery_project k]
  note v' = vector_stage_in [OF conjunct1 [OF k'] ParseQuery_project v]
  have m: "\<forall>m \<in> set ms. m_project m = p"
    using e entityMatches_in [of s2] v' by (auto split: if_splits)
  have "mc_memory c \<in> set (map mc_memory results)"
    using assms(3) RankResultsAt_members [of results "qf_topk (ParseQuery query p types k)" now] page by auto
  then have "mc_memory c \<in> mc_memory ` set (mergeResults graph vs ms ov fm (re_fusion E))" unfolding r set_map .
  then have "mc_memory c \<in> mc_memory ` set graph \<union> mc_memory ` set vs \<union> set ms"
    using mergeResults_members by (rule set_rev_mp)
  then show ?thesis using k' v' m by auto
qed

end

section \<open>The reading side of \<open>internal/graph\<close> meets the contract\<close>

definition age_reads :: "genv \<Rightarrow> world rrepo" where
  "age_reads G = \<lparr>rr_text = SearchByText G, rr_searchable = KeywordsAreSearchable G, rr_query = QueryMemories,
     rr_vector = SearchByVector G, rr_entities = FindMemoriesByEntities, rr_count = CountEntityMatches G,
     rr_superseded = SupersededCandidates G\<rparr>"

text \<open>
  \<open>owner\<close> says which project an identifier belongs to.  \<open>owned\<close> is what the writers maintain: rows and
  embeddings carry their owner, so an identifier is never used in two projects.
\<close>

definition owned :: "(uuid \<Rightarrow> string) \<Rightarrow> db \<Rightarrow> bool" where
  "owned owner d = ((\<forall>r \<in> set (d_mems d). m_project (r_mem r) = owner (m_id (r_mem r))) \<and>
     (\<forall>v \<in> set (d_vecs d). v_project v = owner (v_id v)))"

lemma hydrate_owned:
  assumes "hydrate G hits w = (Inr rs, w')" "world_inv (owned owner) w" "c \<in> set rs"
    and "\<forall>i \<in> fst ` set hits. owner i = p"
  shows "m_project (mc_memory c) = p"
  using hydrate_rows [OF assms(1-3)] assms(4) by (auto simp: owned_def)

lemma keyword_hits_owned:
  assumes "owned owner d" "p \<noteq> []" "i \<in> fst ` set (fst (keyword_hits G p qs n d))"
  shows "owner i = p"
proof -
  have "i \<in> set (remdups (map m_id (filter (\<lambda>m. list_ex (ge_tsmatch G m) qs) (in_scope p d))))"
    using assms(3) by (auto simp: keyword_hits_def Let_def dest!: in_set_takeD)
  then show ?thesis using assms(1,2) by (auto simp: in_scope_def owned_def)
qed

lemma nearest_owned:
  assumes "owned owner d" "p \<noteq> []" "i \<in> fst ` set (nearest G v p k d)"
  shows "owner i = p"
  using assms by (auto simp: nearest_def nearest_rows_def nearestNeighboursUnscoped_def owned_def Let_def split: if_splits dest!: in_set_takeD)

lemma age_text_in:
  assumes w: "world_inv (owned owner) w" "p \<noteq> []"
    and t: "SearchByText G p kws n w = (Inr (hits, s), w')" "c \<in> set hits"
  shows "m_project (mc_memory c) = p"
proof -
  obtain hs s' w1 where k: "SearchByKeywords G p kws n w = (Inr (hs, s'), w1)" and h: "hydrate G hs w1 = (Inr hits, w')"
    using t(1) by (auto simp: SearchByText_def elim!: and_then_Inr)
  have "world_inv (owned owner) w1 \<and> (\<forall>i \<in> fst ` set hs. owner i = p)"
  proof (cases "kws = [] \<or> n \<le> 0")
    case False
    then have r: "rows (keyword_hits G p (lexed G kws) (nat n)) w = (Inr (hs, s'), w1)" using k by (simp add: SearchByKeywords_def)
    obtain d where d: "owned owner d" "(hs, s') = keyword_hits G p (lexed G kws) (nat n) d"
      using rows_acknowledged [OF r w(1)] by blast
    from d(2) have "hs = fst (keyword_hits G p (lexed G kws) (nat n) d)" by (metis fst_conv)
    then show ?thesis using keyword_hits_owned [OF d(1) w(2)] rows_keeps_inv [OF r w(1)] by simp
  qed (use k w in \<open>auto simp: SearchByKeywords_def\<close>)
  then show ?thesis using hydrate_owned [OF h _ t(2)] by blast
qed

lemma age_vector_in:
  assumes w: "world_inv (owned owner) w" "p \<noteq> []"
    and t: "SearchByVector G v p n w = (Inr rs, w')" "c \<in> set rs"
  shows "m_project (mc_memory c) = p"
proof -
  obtain hs w1 where k: "rows (nearest G v p (nat (if n \<le> 0 then 10 else n))) w = (Inr hs, w1)"
    and h: "hydrate G (scanVectorHits hs) w1 = (Inr rs, w')"
    using t(1) by (auto simp: SearchByVector_def Let_def split: if_splits elim!: and_then_Inr)
  obtain d where d: "owned owner d" "hs = nearest G v p (nat (if n \<le> 0 then 10 else n)) d"
    using rows_acknowledged [OF k w(1)] by blast
  have "fst ` set (scanVectorHits hs) \<subseteq> fst ` set hs" by (auto simp: scanVectorHits_def)
  then have "\<forall>i \<in> fst ` set (scanVectorHits hs). owner i = p" using nearest_owned [OF d(1) w(2)] d(2) by blast
  then show ?thesis using hydrate_owned [OF h rows_keeps_inv [OF k w(1)] t(2)] by blast
qed

interpretation age_reads: project_reads "age_reads G" "\<lambda>w. world_inv (owned owner) w \<and> p \<noteq> []" p
proof unfold_locales
  show "keeps (\<lambda>w. world_inv (owned owner) w \<and> p \<noteq> []) any_row (rr_text (age_reads G) p kws n)" for kws n
    by (simp add: age_reads_def keeps_def any_row_def preservesD [OF reads_preserve(4)])
  show "keeps (\<lambda>w. world_inv (owned owner) w \<and> p \<noteq> []) any_row (rr_searchable (age_reads G) kws)" for kws
    by (simp add: age_reads_def keeps_def any_row_def preservesD [OF reads_preserve(5)])
  show "keeps (\<lambda>w. world_inv (owned owner) w \<and> p \<noteq> []) any_row (rr_query (age_reads G) f)" for f
    by (simp add: age_reads_def keeps_def any_row_def preservesD [OF reads_preserve(2)])
  show "keeps (\<lambda>w. world_inv (owned owner) w \<and> p \<noteq> []) any_row (rr_vector (age_reads G) v p n)" for v n
    by (simp add: age_reads_def keeps_def any_row_def preservesD [OF reads_preserve(3)])
  show "keeps (\<lambda>w. world_inv (owned owner) w \<and> p \<noteq> []) any_row (rr_entities (age_reads G) p names n)" for names n
    by (simp add: age_reads_def keeps_def any_row_def preservesD [OF reads_preserve(6)])
  show "m_project (mc_memory c) = p"
    if "world_inv (owned owner) s \<and> p \<noteq> []" "rr_text (age_reads G) p kws n s = (Inr (hits, x), s')" "c \<in> set hits"
    for s kws n hits x s' c
    using that age_text_in by (auto simp: age_reads_def)
  show "m_project (mc_memory c) = p"
    if "world_inv (owned owner) s \<and> p \<noteq> []" "rr_vector (age_reads G) v p n s = (Inr rs, s')" "c \<in> set rs"
    for s v n rs s' c
    using that age_vector_in by (auto simp: age_reads_def)
  show "m_project (mc_memory c) = p"
    if "world_inv (owned owner) s \<and> p \<noteq> []" "qf_project f = p" "rr_query (age_reads G) f s = (Inr rs, s')" "c \<in> set rs"
    for s f rs s' c
  proof -
    have r: "rows (\<lambda>d. map (\<lambda>r. plain_ctx 1 (toModel r)) (take (nat (candidate_limit f))
        (sort_stable (candidate_less (qf_keywords f)) (filter (filter_cond f) (d_mems d))))) s = (Inr rs, s')"
      using that(3) by (simp add: age_reads_def QueryMemories_def)
    show ?thesis using rows_acknowledged [OF r conjunct1 [OF that(1)]] that
      by (auto simp: filter_cond_def plain_ctx_def dest!: in_set_takeD)
  qed
  show "m_project m = p"
    if "world_inv (owned owner) s \<and> p \<noteq> []" "rr_entities (age_reads G) p names n s = (Inr ms, s')" "m \<in> set ms"
    for s names n ms s' m
  proof -
    note t = that
    show ?thesis
  proof (cases "names = [] \<or> n \<le> 0 \<or> normalized_names names = []")
    case False
    let ?f = "\<lambda>d. take (nat n) (newest_first (filter (\<lambda>r. m_project (r_mem r) = p \<and>
           list_ex (\<lambda>n. en_project n = p \<and> en_normalized n \<in> set (normalized_names names))
             (mentioned d (m_id (r_mem r)))) (d_mems d)))"
    obtain rs where r: "rows ?f s = (Inr rs, s')" and ms: "ms = first_by m_id (\<lambda>i. False) {} (map toModel rs)"
      using t(2) False by (auto simp: age_reads_def FindMemoriesByEntities_def elim!: and_then_Inr)
    have "m \<in> set (map toModel rs)" using t(3) unfolding ms by (rule set_mp [OF set_first_by_subset])
    then show ?thesis using rows_acknowledged [OF r conjunct1 [OF t(1)]]
      by (auto simp: newest_first_def dest!: in_set_takeD)
  qed (use t in \<open>auto simp: age_reads_def FindMemoriesByEntities_def\<close>)
  qed
qed

text \<open>The engine the server reads with.\<close>

definition age_reader ::
  "genv \<Rightarrow> embedder option \<Rightarrow> (nat \<Rightarrow> string \<Rightarrow> string \<Rightarrow> json \<Rightarrow> http_reply) \<Rightarrow> (string \<Rightarrow> bool) \<Rightarrow> fusion \<Rightarrow>
     bool \<Rightarrow> world rengine" where
  "age_reader G emb N uni fusion off =
     \<lparr>re_repo = age_reads G, re_embedder = emb, re_net = tick_net N, re_off = off,
      re_now = (\<lambda>w. (ge_clock G (w_tick w), w\<lparr>w_tick := Suc (w_tick w)\<rparr>)), re_fusion = fusion,
      re_entities = ExtractEntities uni\<rparr>"

interpretation age_reads: scoped_engine "age_reads G" "\<lambda>w. world_inv (owned owner) w \<and> p \<noteq> []" p
  "age_reader G emb N uni fusion off"
  by unfold_locales (simp_all add: age_reader_def tick_net_def keeps_def any_row_def world_inv_def)

text \<open>
  C3: a query scoped to a project never returns another project's memory, whatever else writes to
  the database between its statements and whichever of them fail, as long as every writer uses an
  identifier in one project only.
\<close>

theorem Retrieve_stays_in_project:
  assumes "world_inv (owned owner) w" "p \<noteq> []"
    and "Retrieve (age_reader G emb N uni fusion off) query p types k w = (Inr page, w')" "r \<in> set page"
  shows "m_project (mc_memory r) = p"
  using age_reads.Retrieve_in [OF _ assms(3,4), of owner] assms(1,2) by blast

lemma Retrieve_stays_in_project_witness:
  "\<exists>r w'. Retrieve (age_reader sample_genv None (\<lambda>n u a b. Unreachable) (\<lambda>s. False) DefaultFusion True) [] ''p'' [] 1
       (sample_world [\<lparr>r_mem = sample_memory 1 ''semantic'' ''x'', r_hash = []\<rparr>]) = (Inr [r], w') \<and>
     m_project (mc_memory r) = ''p''"
proof -
  let ?w = "sample_world [\<lparr>r_mem = sample_memory 1 ''semantic'' ''x'', r_hash = []\<rparr>]"
  let ?E = "age_reader sample_genv None (\<lambda>n u a b. Unreachable) (\<lambda>s. False) DefaultFusion True"
  have kw: "extractKeywords [] = []" by code_simp
  have one: "RankResultsAt [c] 1 now = [c\<lparr>mc_score := Score c now\<rparr>]" for c now by (simp add: RankResultsAt_def)
  have merge: "\<exists>q. mergeResults [c] [] [] ov fm f = [q]" for c ov fm f
    by (simp add: mergeResults_def merge_walk_def merge_seen_def List.map_filter_simps fuse_def PassesSemanticGate_def Let_def)
  have q: "QueryMemories \<lparr>qf_project = ''p'', qf_keywords = [], qf_types = [], qf_topk = 1, qf_overfetch = True\<rparr> ?w =
      (Inr [plain_ctx 1 (toModel \<lparr>r_mem = sample_memory 1 ''semantic'' ''x'', r_hash = []\<rparr>)], ?w)"
    by (simp add: QueryMemories_def rows_idle sample_world_def filter_cond_def candidate_limit_def candidatePoolFactor_def
        maxCandidatePool_def sample_memory_def)
  have "\<exists>r w'. Retrieve ?E [] ''p'' [] 1 ?w = (Inr [r], w')"
    using merge by (auto simp: Retrieve_def retrieve_def Let_def kw ParseQuery_def maxTopK_def keyword_stage_def
        keyword_fallback_def age_reader_def age_reads_def SearchByText_def SearchByKeywords_def hydrate_def q
        vector_stage_def draw_def and_then_def return_op_def one split: prod.split) (metis one)
  then obtain r w' where r: "Retrieve ?E [] ''p'' [] 1 ?w = (Inr [r], w')" by blast
  moreover have "world_inv (owned (\<lambda>i. ''p'')) ?w" by (simp add: world_inv_def owned_def sample_world_def sample_memory_def)
  ultimately show ?thesis using Retrieve_stays_in_project [OF _ _ r, of "\<lambda>i. ''p''" r] by simp
qed

text \<open>No comparison refuses NaN, so a NaN weight is accepted.\<close>

lemma SetFusion_accepts_NaN: "SetFusion (DefaultFusion\<lparr>fu_keyword := NaN\<rparr>) = Inr (DefaultFusion\<lparr>fu_keyword := NaN\<rparr>)"
  by (simp add: SetFusion_def DefaultFusion_def DefaultFusionWeights_def defaultCoverage_def weight_defs f64_consts)

end
