(* ===== verification/Service.thy ===== *)
theory Service
  imports Ingest Retrieval
begin

text \<open>
  \<^verbatim>\<open>internal/service/memory.go\<close> and \<^verbatim>\<open>session.go\<close>: the handlers of the gRPC services, protobuf in and
  protobuf out, on the world of the repository and the gauge of active sessions.  A status is its
  code and its message, less the text of an error it wraps.  The text form of a UUID is that of
  \<open>genv\<close> and \<open>uuid.Parse\<close> is a parameter; an enum is its number on the wire.  \<open>server\<close> is the state
  behind all handlers, \<open>serve\<close> one request, \<open>server_run\<close> the runs of the server.
\<close>

section \<open>Wire types\<close>

datatype code =
    OK | Canceled | Unknown | InvalidArgument | DeadlineExceeded | NotFound | AlreadyExists | PermissionDenied
  | ResourceExhausted | FailedPrecondition | Aborted | OutOfRange | Unimplemented | Internal | Unavailable | DataLoss
  | Unauthenticated

record status =
  st_code :: code
  st_message :: string

definition status_of :: "code \<Rightarrow> string \<Rightarrow> status" where
  "status_of c msg = \<lparr>st_code = c, st_message = msg\<rparr>"

type_synonym ('s, 'a) rpc = "'s \<Rightarrow> (status + 'a) \<times> 's"
type_synonym pb_enum = int

definition MEMORY_TYPE_UNSPECIFIED :: pb_enum where "MEMORY_TYPE_UNSPECIFIED = 0"
definition MEMORY_TYPE_EPISODIC :: pb_enum where "MEMORY_TYPE_EPISODIC = 1"
definition MEMORY_TYPE_SEMANTIC :: pb_enum where "MEMORY_TYPE_SEMANTIC = 2"
definition MEMORY_TYPE_PROCEDURAL :: pb_enum where "MEMORY_TYPE_PROCEDURAL = 3"

definition RELATIONSHIP_TYPE_UNSPECIFIED :: pb_enum where "RELATIONSHIP_TYPE_UNSPECIFIED = 0"
definition RELATIONSHIP_TYPE_RELATES_TO :: pb_enum where "RELATIONSHIP_TYPE_RELATES_TO = 1"
definition RELATIONSHIP_TYPE_SUPERSEDES :: pb_enum where "RELATIONSHIP_TYPE_SUPERSEDES = 2"
definition RELATIONSHIP_TYPE_CAUSED_BY :: pb_enum where "RELATIONSHIP_TYPE_CAUSED_BY = 3"

lemmas pb_enum_defs = MEMORY_TYPE_UNSPECIFIED_def MEMORY_TYPE_EPISODIC_def MEMORY_TYPE_SEMANTIC_def
  MEMORY_TYPE_PROCEDURAL_def RELATIONSHIP_TYPE_UNSPECIFIED_def RELATIONSHIP_TYPE_RELATES_TO_def
  RELATIONSHIP_TYPE_SUPERSEDES_def RELATIONSHIP_TYPE_CAUSED_BY_def

record timestamp =
  ts_seconds :: int
  ts_nanos :: int

record pb_memory =
  pm_id :: string
  pm_content :: string
  pm_type :: pb_enum
  pm_project :: string
  pm_tags :: "string list"
  pm_created :: timestamp
  pm_access :: int
  pm_decay :: f64

record pb_context_edge =
  pc_relationship :: pb_enum
  pc_target :: string
  pc_content :: string
  pc_weight :: f64

record pb_memory_ctx =
  pw_memory :: pb_memory
  pw_context :: "pb_context_edge list"
  pw_score :: f64

record pb_edge =
  pe_id :: string
  pe_from :: string
  pe_to :: string
  pe_relationship :: pb_enum
  pe_weight :: f64
  pe_created :: timestamp

record pb_session =
  ps_id :: string
  ps_project :: string
  ps_agent :: string
  ps_started :: timestamp
  ps_ended :: "timestamp option"

record profile_fact =
  pf_content :: string
  pf_type :: pb_enum
  pf_confidence :: f64
  pf_tags :: "string list"

record profile =
  pr_static :: "profile_fact list"
  pr_dynamic :: "profile_fact list"
  pr_total :: int

record store_request =
  sr_content :: string
  sr_type :: pb_enum
  sr_project :: string
  sr_tags :: "string list"
  sr_session :: string

record query_request =
  qr_query :: string
  qr_project :: string
  qr_topk :: int
  qr_types :: "pb_enum list"

record connect_request =
  cr_from :: string
  cr_to :: string
  cr_relationship :: pb_enum
  cr_weight :: f64

record extract_request =
  xr_conversation :: string
  xr_project :: string
  xr_session :: string

record profile_request =
  gr_project :: string
  gr_max :: int
  gr_recency :: int

record start_request =
  tr_project :: string
  tr_agent :: string

section \<open>Converters\<close>

definition memoryTypeToProto :: "memory_type \<Rightarrow> pb_enum" where
  "memoryTypeToProto t =
     (if t = MemoryTypeEpisodic then MEMORY_TYPE_EPISODIC
      else if t = MemoryTypeSemantic then MEMORY_TYPE_SEMANTIC
      else if t = MemoryTypeProcedural then MEMORY_TYPE_PROCEDURAL
      else MEMORY_TYPE_UNSPECIFIED)"

definition protoToMemoryType :: "pb_enum \<Rightarrow> memory_type option" where
  "protoToMemoryType t =
     (if t = MEMORY_TYPE_EPISODIC then Some MemoryTypeEpisodic
      else if t = MEMORY_TYPE_SEMANTIC then Some MemoryTypeSemantic
      else if t = MEMORY_TYPE_PROCEDURAL then Some MemoryTypeProcedural
      else None)"

definition relTypeToProto :: "relationship_type \<Rightarrow> pb_enum" where
  "relTypeToProto r =
     (if r = RelRelatesTo then RELATIONSHIP_TYPE_RELATES_TO
      else if r = RelSupersedes then RELATIONSHIP_TYPE_SUPERSEDES
      else if r = RelCausedBy then RELATIONSHIP_TYPE_CAUSED_BY
      else RELATIONSHIP_TYPE_UNSPECIFIED)"

definition protoToRelType :: "pb_enum \<Rightarrow> relationship_type option" where
  "protoToRelType r =
     (if r = RELATIONSHIP_TYPE_RELATES_TO then Some RelRelatesTo
      else if r = RELATIONSHIP_TYPE_SUPERSEDES then Some RelSupersedes
      else if r = RELATIONSHIP_TYPE_CAUSED_BY then Some RelCausedBy
      else None)"

text \<open>\<open>timestamppb.New\<close>: whole seconds, and the nanoseconds after them.\<close>

definition timestamp_of :: "gtime \<Rightarrow> timestamp" where
  "timestamp_of t = \<lparr>ts_seconds = t div 1000000000, ts_nanos = t mod 1000000000\<rparr>"

definition memoryToProto :: "genv \<Rightarrow> memory \<Rightarrow> pb_memory" where
  "memoryToProto G m =
     \<lparr>pm_id = ge_ustr G (m_id m), pm_content = m_content m, pm_type = memoryTypeToProto (m_type m),
      pm_project = m_project m, pm_tags = m_tags m, pm_created = timestamp_of (m_created m),
      pm_access = m_access m, pm_decay = m_decay m\<rparr>"

definition memoryWithContextToProto :: "genv \<Rightarrow> memory_ctx \<Rightarrow> pb_memory_ctx" where
  "memoryWithContextToProto G m =
     \<lparr>pw_memory = memoryToProto G (mc_memory m),
      pw_context = map (\<lambda>e. \<lparr>pc_relationship = relTypeToProto (ce_rel e), pc_target = ge_ustr G (ce_target e),
        pc_content = ce_content e, pc_weight = ce_weight e\<rparr>) (mc_context m),
      pw_score = mc_score m\<rparr>"

definition edgeToProto :: "genv \<Rightarrow> edge \<Rightarrow> pb_edge" where
  "edgeToProto G e =
     \<lparr>pe_id = ge_ustr G (e_id e), pe_from = ge_ustr G (e_from e), pe_to = ge_ustr G (e_to e),
      pe_relationship = relTypeToProto (e_rel e), pe_weight = e_weight e, pe_created = timestamp_of (e_created e)\<rparr>"

definition sessionToProto :: "genv \<Rightarrow> session \<Rightarrow> pb_session" where
  "sessionToProto G s =
     \<lparr>ps_id = ge_ustr G (s_id s), ps_project = s_project s, ps_agent = s_agent s,
      ps_started = timestamp_of (s_started s), ps_ended = map_option timestamp_of (s_ended s)\<rparr>"

section \<open>The service\<close>

record service =
  ms_env :: genv
  ms_parse :: "string \<Rightarrow> uuid option"
  ms_embedder :: "embedder option"
  ms_net :: "nat \<Rightarrow> string \<Rightarrow> string \<Rightarrow> json \<Rightarrow> http_reply"
  ms_unicode :: "string \<Rightarrow> bool"
  ms_provider :: "nat \<Rightarrow> provider"
  ms_extractor :: extractor
  ms_fusion :: fusion
  ms_off :: bool

definition ingest_of :: "service \<Rightarrow> world engine" where
  "ingest_of S = age_engine (ms_env S) (ms_embedder S) (ms_net S) (ms_unicode S) (ms_provider S) (ms_extractor S)"

definition retrieval_of :: "service \<Rightarrow> world rengine" where
  "retrieval_of S = age_reader (ms_env S) (ms_embedder S) (ms_net S) (ms_unicode S) (ms_fusion S) (ms_off S)"

definition svc_DisableGraphSignals :: "service \<Rightarrow> service" where
  "svc_DisableGraphSignals S = S\<lparr>ms_off := True\<rparr>"

definition reply :: "'a \<Rightarrow> ('s, 'a) rpc" where "reply x = (\<lambda>s. (Inr x, s))"

definition refuse :: "code \<Rightarrow> string \<Rightarrow> ('s, 'a) rpc" where
  "refuse c msg = (\<lambda>s. (Inl (status_of c msg), s))"

text \<open>\<open>x, err := m; if err != nil { return nil, err'(err) }; k(x)\<close>\<close>

definition call :: "('s, 'a) op \<Rightarrow> (gerror \<Rightarrow> status) \<Rightarrow> ('a \<Rightarrow> ('s, 'b) rpc) \<Rightarrow> ('s, 'b) rpc" where
  "call m err k = (\<lambda>s. case m s of (Inl e, s') \<Rightarrow> (Inl (err e), s') | (Inr x, s') \<Rightarrow> k x s')"

text \<open>A step whose error is only logged.\<close>

definition best_effort :: "('s, 'a) op \<Rightarrow> ('a option \<Rightarrow> ('s, 'b) rpc) \<Rightarrow> ('s, 'b) rpc" where
  "best_effort m k = (\<lambda>s. case m s of (Inl e, s') \<Rightarrow> k None s' | (Inr x, s') \<Rightarrow> k (Some x) s')"

definition internal :: "string \<Rightarrow> gerror \<Rightarrow> status" where "internal msg e = status_of Internal msg"

definition fresh_id :: "service \<Rightarrow> world \<Rightarrow> uuid \<times> world" where
  "fresh_id S w = (ge_uuid (ms_env S) (w_tick w), w\<lparr>w_tick := Suc (w_tick w)\<rparr>)"

definition wall_clock :: "service \<Rightarrow> world \<Rightarrow> gtime \<times> world" where
  "wall_clock S w = (ge_clock (ms_env S) (w_tick w), w\<lparr>w_tick := Suc (w_tick w)\<rparr>)"

section \<open>Memory handlers\<close>

definition svc_Store :: "service \<Rightarrow> store_request \<Rightarrow> (world, pb_memory) rpc" where
  "svc_Store S req =
     (if sr_content req = [] then refuse InvalidArgument ''content is required''
      else if sr_project req = [] then refuse InvalidArgument ''project_id is required''
      else case protoToMemoryType (sr_type req) of
        None \<Rightarrow> refuse InvalidArgument ''invalid type''
      | Some memType \<Rightarrow>
          draw (fresh_id S) (\<lambda>i. draw (wall_clock S) (\<lambda>now.
            let mem = \<lparr>m_id = i, m_content = sr_content req, m_type = memType, m_project = sr_project req,
                       m_tags = sr_tags req, m_created = now, m_access = 0, m_decay = 1\<rparr>;
                store = (\<lambda>sessionID. call (Store (ingest_of S) mem sessionID) (internal ''failed to store memory'')
                          (\<lambda>_. reply (memoryToProto (ms_env S) mem)))
            in if sr_session req = [] then store nil_uuid
               else case ms_parse S (sr_session req) of
                 None \<Rightarrow> refuse InvalidArgument ''invalid session_id''
               | Some parsed \<Rightarrow> store parsed)))"

definition svc_Query :: "service \<Rightarrow> query_request \<Rightarrow> (world, pb_memory_ctx list) rpc" where
  "svc_Query S req =
     call (Retrieve (retrieval_of S) (qr_query req) (qr_project req)
             (List.map_filter protoToMemoryType (qr_types req)) (qr_topk req))
       (internal ''retrieval failed'') (\<lambda>results.
     let ids = map (\<lambda>r. m_id (mc_memory r)) results in
     best_effort (GetContextEdges (ms_env S) ids) (\<lambda>contextEdges.
     let results = map (\<lambda>r. r\<lparr>mc_context := (case contextEdges of None \<Rightarrow> [] | Some f \<Rightarrow> f (m_id (mc_memory r)))\<rparr>) results in
     best_effort (IncrementAccessCounts (ms_env S) ids) (\<lambda>_.
     reply (map (memoryWithContextToProto (ms_env S)) results))))"

definition svc_Connect :: "service \<Rightarrow> connect_request \<Rightarrow> (world, pb_edge) rpc" where
  "svc_Connect S req =
     (if cr_from req = [] \<or> cr_to req = [] then refuse InvalidArgument ''from_id and to_id are required''
      else case ms_parse S (cr_from req) of
        None \<Rightarrow> refuse InvalidArgument ''invalid from_id''
      | Some fromID \<Rightarrow> (case ms_parse S (cr_to req) of
          None \<Rightarrow> refuse InvalidArgument ''invalid to_id''
        | Some toID \<Rightarrow>
            call (GetMemory fromID) (\<lambda>e. status_of NotFound ''from memory not found'') (\<lambda>_.
            call (GetMemory toID) (\<lambda>e. status_of NotFound ''to memory not found'') (\<lambda>_.
            case protoToRelType (cr_relationship req) of
              None \<Rightarrow> refuse InvalidArgument ''invalid relationship''
            | Some relType \<Rightarrow>
                let weight = (if cr_weight req \<le> 0 then 1 else cr_weight req) in
                draw (fresh_id S) (\<lambda>i. draw (wall_clock S) (\<lambda>now.
                call (CreateEdge \<lparr>e_id = i, e_from = fromID, e_to = toID, e_rel = relType, e_weight = weight,
                        e_created = now\<rparr>)
                  (internal ''failed to create edge'')
                  (\<lambda>effective. reply (edgeToProto (ms_env S) effective))))))))"

definition svc_Delete :: "service \<Rightarrow> string \<Rightarrow> (world, unit) rpc" where
  "svc_Delete S ident =
     (if ident = [] then refuse InvalidArgument ''id is required''
      else case ms_parse S ident of
        None \<Rightarrow> refuse InvalidArgument ''invalid id''
      | Some i \<Rightarrow> call (DeleteMemory (ms_env S) i) (internal ''failed to delete memory'') (\<lambda>_. reply ()))"

definition svc_GetGraph :: "service \<Rightarrow> string \<Rightarrow> (world, pb_memory list \<times> pb_edge list) rpc" where
  "svc_GetGraph S center =
     (if center = [] then refuse InvalidArgument ''center_id is required''
      else case ms_parse S center of
        None \<Rightarrow> refuse InvalidArgument ''invalid center_id''
      | Some centerID \<Rightarrow>
          call (GetSubgraph centerID) (internal ''failed to get subgraph'') (\<lambda>(nodes, edges).
          reply (map (memoryToProto (ms_env S)) nodes, map (edgeToProto (ms_env S)) edges)))"

definition MaxInt32 :: int where "MaxInt32 = 2 ^ 31 - 1"

definition clamp_relationships :: "int \<Rightarrow> int" where
  "clamp_relationships relCount =
     (if relCount < 0 then 0 else if relCount > MaxInt32 then MaxInt32 else relCount)"

definition svc_Extract :: "service \<Rightarrow> extract_request \<Rightarrow> (world, pb_memory list \<times> int) rpc" where
  "svc_Extract S req =
     (if xr_conversation req = [] then refuse InvalidArgument ''conversation is required''
      else if xr_project req = [] then refuse InvalidArgument ''project_id is required''
      else
        let sessionID = (if xr_session req = [] then nil_uuid
                         else case ms_parse S (xr_session req) of None \<Rightarrow> nil_uuid | Some parsed \<Rightarrow> parsed)
        in call (engine_Extract (ingest_of S) (xr_conversation req) (xr_project req) sessionID)
             (internal ''extraction failed'') (\<lambda>(stored, relCount).
           reply (map (memoryToProto (ms_env S)) stored, clamp_relationships (int relCount))))"

definition defaultProfileMemories :: int where "defaultProfileMemories = 200"
definition maxProfileMemories :: int where "maxProfileMemories = 1000"
definition defaultProfileRecencyDays :: int where "defaultProfileRecencyDays = 7"
definition maxProfileRecencyDays :: int where "maxProfileRecencyDays = 365"

definition profileMemoryBudget :: "int \<Rightarrow> int" where
  "profileMemoryBudget requested =
     (if requested \<le> 0 then defaultProfileMemories
      else if requested > maxProfileMemories then maxProfileMemories else requested)"

definition profileRecencyDays :: "int \<Rightarrow> int" where
  "profileRecencyDays requested =
     (if requested \<le> 0 then defaultProfileRecencyDays
      else if requested > maxProfileRecencyDays then maxProfileRecencyDays else requested)"

text \<open>\<open>AddDate\<close> of days, in UTC, where a day is 24 hours.\<close>

definition days_before :: "int \<Rightarrow> gtime \<Rightarrow> gtime" where
  "days_before n t = t - n * 86400000000000"

definition profile_fact_of :: "memory \<Rightarrow> profile_fact" where
  "profile_fact_of m = \<lparr>pf_content = m_content m, pf_type = memoryTypeToProto (m_type m), pf_confidence = m_decay m,
     pf_tags = m_tags m\<rparr>"

definition svc_GetProfile :: "service \<Rightarrow> profile_request \<Rightarrow> (world, profile) rpc" where
  "svc_GetProfile S req =
     (if gr_project req = [] then refuse InvalidArgument ''project_id is required''
      else
        call (QueryMemories \<lparr>qf_project = gr_project req, qf_keywords = [], qf_types = [],
                qf_topk = profileMemoryBudget (gr_max req), qf_overfetch = False\<rparr>)
          (internal ''query failed'') (\<lambda>results.
        draw (wall_clock S) (\<lambda>now.
        let dynamicCutoff = days_before (profileRecencyDays (gr_recency req)) now;
            ms = map mc_memory results
        in reply
          \<lparr>pr_static = map profile_fact_of
             (filter (\<lambda>m. m_type m = MemoryTypeSemantic \<or> m_type m = MemoryTypeProcedural) ms),
           pr_dynamic = map profile_fact_of
             (filter (\<lambda>m. m_type m = MemoryTypeEpisodic \<and> m_created m > dynamicCutoff) ms),
           pr_total = int (length results)\<rparr>)))"

section \<open>The server\<close>

record server =
  sv_world :: world
  sv_active :: int

text \<open>A handler that works on the world alone.\<close>

definition on_world :: "(world, 'a) rpc \<Rightarrow> (server, 'a) rpc" where
  "on_world h s = (case h (sv_world s) of (r, w) \<Rightarrow> (r, s\<lparr>sv_world := w\<rparr>))"

text \<open>The session \<open>StartSession\<close> makes up and stores.\<close>

definition session_call :: "service \<Rightarrow> start_request \<Rightarrow> (world, session) rpc" where
  "session_call S req = draw (fresh_id S) (\<lambda>i. draw (wall_clock S) (\<lambda>now.
     let sess = \<lparr>s_id = i, s_project = tr_project req, s_agent = tr_agent req, s_started = now, s_ended = None\<rparr> in
     call (CreateSession (ms_env S) sess) (internal ''failed to create session'') (\<lambda>_. reply sess)))"

definition svc_StartSession :: "service \<Rightarrow> start_request \<Rightarrow> (server, pb_session) rpc" where
  "svc_StartSession S req s =
     (if tr_project req = [] then refuse InvalidArgument ''project_id is required'' s
      else if tr_agent req = [] then refuse InvalidArgument ''agent_id is required'' s
      else case on_world (session_call S req) s of
        (Inl st, s) \<Rightarrow> (Inl st, s)
      | (Inr sess, s) \<Rightarrow> (Inr (sessionToProto (ms_env S) sess), s\<lparr>sv_active := sv_active s + 1\<rparr>))"

definition end_status :: "string \<Rightarrow> gerror \<Rightarrow> status" where
  "end_status ident e =
     (if e = SessionAlreadyEnded then status_of Aborted (''session already ended: '' @ ident)
      else if e = SessionNotFound then status_of NotFound (''session not found: '' @ ident)
      else status_of Internal ''failed to end session'')"

definition svc_EndSession :: "service \<Rightarrow> string \<Rightarrow> (server, pb_session) rpc" where
  "svc_EndSession S ident s =
     (if ident = [] then refuse InvalidArgument ''id is required'' s
      else case ms_parse S ident of
        None \<Rightarrow> refuse InvalidArgument ''invalid session id'' s
      | Some i \<Rightarrow> (case on_world (call (EndSession (ms_env S) i) (end_status ident) reply) s of
          (Inl st, s) \<Rightarrow> (Inl st, s)
        | (Inr sess, s) \<Rightarrow> (Inr (sessionToProto (ms_env S) sess), s\<lparr>sv_active := sv_active s - 1\<rparr>)))"

datatype request =
    StoreRPC store_request | QueryRPC query_request | ConnectRPC connect_request | DeleteRPC string
  | GetGraphRPC string | ExtractRPC extract_request | GetProfileRPC profile_request
  | StartSessionRPC start_request | EndSessionRPC string

datatype response =
    Stored pb_memory | Found "pb_memory_ctx list" | Connected pb_edge | Deleted
  | Graph "pb_memory list" "pb_edge list" | Extracted "pb_memory list" int | Profile profile
  | Started pb_session | Ended pb_session

definition answer :: "('a \<Rightarrow> response) \<Rightarrow> (server, 'a) rpc \<Rightarrow> (server, response) rpc" where
  "answer f h s = (case h s of (Inl st, s') \<Rightarrow> (Inl st, s') | (Inr x, s') \<Rightarrow> (Inr (f x), s'))"

fun serve :: "service \<Rightarrow> request \<Rightarrow> (server, response) rpc" where
  "serve S (StoreRPC r) = answer Stored (on_world (svc_Store S r))"
| "serve S (QueryRPC r) = answer Found (on_world (svc_Query S r))"
| "serve S (ConnectRPC r) = answer Connected (on_world (svc_Connect S r))"
| "serve S (DeleteRPC i) = answer (\<lambda>_. Deleted) (on_world (svc_Delete S i))"
| "serve S (GetGraphRPC i) = answer (\<lambda>(ns, es). Graph ns es) (on_world (svc_GetGraph S i))"
| "serve S (ExtractRPC r) = answer (\<lambda>(ms, n). Extracted ms n) (on_world (svc_Extract S r))"
| "serve S (GetProfileRPC r) = answer Profile (on_world (svc_GetProfile S r))"
| "serve S (StartSessionRPC r) = answer Started (svc_StartSession S r)"
| "serve S (EndSessionRPC i) = answer Ended (svc_EndSession S i)"

text \<open>The runs of the server: from a state, after a sequence of requests and the answers they got.\<close>

inductive server_run :: "service \<Rightarrow> server \<Rightarrow> (request \<times> (status + response)) list \<Rightarrow> server \<Rightarrow> bool" where
  start: "server_run S s [] s"
| request: "server_run S s hist s1 \<Longrightarrow> serve S req s1 = (r, s2) \<Longrightarrow> server_run S s (hist @ [(req, r)]) s2"

inductive_cases server_run_snoc: "server_run S s (hist @ [x]) s2"
inductive_simps server_run_nil: "server_run S s [] s2"

section \<open>Steps of the handlers\<close>

lemma keeps_call [keeps_intros]:
  "keeps I holds m \<Longrightarrow> (\<And>x. keeps I holds (k x)) \<Longrightarrow> keeps I holds (call m err k)"
  unfolding keeps_def call_def by (fastforce split: prod.splits sum.splits)

lemma keeps_best_effort [keeps_intros]:
  "keeps I holds m \<Longrightarrow> (\<And>x. keeps I holds (k x)) \<Longrightarrow> keeps I holds (best_effort m k)"
  unfolding keeps_def best_effort_def by (fastforce split: prod.splits sum.splits)

lemma keeps_reply [keeps_intros]: "keeps I holds (reply x)" "keeps I holds (refuse c msg)"
  by (simp_all add: keeps_def reply_def refuse_def)

text \<open>A property of the world that time passing and statements that only read keep.\<close>

locale steady =
  fixes J :: "world \<Rightarrow> bool"
  assumes ticks: "J w \<Longrightarrow> J (w\<lparr>w_tick := Suc (w_tick w)\<rparr>)"
    and look: "keeps J any_row (exec (\<lambda>d. d))"
begin

lemma rows_keep: "keeps J any_row (rows f)"
proof -
  have "snd (rows f w) = snd (exec (\<lambda>d. d) w)" for w
    by (simp add: rows_def exec_def stmt_def Let_def split: list.split fault.split)
  then show ?thesis using look by (simp add: keeps_def any_row_def)
qed

lemma tickless: "tickless J any_row"
  by (simp add: tickless_def ticks any_row_def)

lemma sources_keep: "keeps J any_row (fresh_id S)" "keeps J any_row (wall_clock S)" "keeps J any_row (tick_net N u k b)"
  by (simp_all add: keeps_def fresh_id_def wall_clock_def tick_net_def ticks any_row_def)

lemmas steady_intros = keeps_intros rows_keep sources_keep tickless

lemma reads_keep:
  "keeps J any_row (FindByContentHash p hs)" "keeps J any_row (QueryMemories f)" "keeps J any_row (SearchByVector G v p k)"
  "keeps J any_row (SearchByText G p kws n)" "keeps J any_row (KeywordsAreSearchable G kws)"
  "keeps J any_row (FindMemoriesByEntities p names k)" "keeps J any_row (CountEntityMatches G ids names)"
  "keeps J any_row (SupersededCandidates G ids)" "keeps J any_row (GetMemory i)" "keeps J any_row (GetSubgraph i)"
  "keeps J any_row (GetContextEdges G ids)"
  by (auto simp: FindByContentHash_def QueryMemories_def SearchByVector_def hydrate_def Let_def SearchByText_def
      SearchByKeywords_def KeywordsAreSearchable_def FindMemoriesByEntities_def CountEntityMatches_def
      SupersededCandidates_def GetMemory_def GetSubgraph_def getEdgesAround_def GetContextEdges_def
      intro!: steady_intros split: option.split list.split)

lemma Retrieve_keeps: "keeps J any_row (Retrieve (retrieval_of S) q p types k)"
proof -
  have e: "keeps J any_row (Embed (tick_net N) e q)" for e N by (rule keeps_Embed) (rule sources_keep)
  have k: "keeps J any_row (keyword_stage (retrieval_of S) f)" for f
    by (auto simp: keyword_stage_def keyword_fallback_def retrieval_of_def age_reader_def age_reads_def Let_def
        intro!: steady_intros reads_keep)
  have v: "keeps J any_row (vector_stage (retrieval_of S) q f)" for f
    by (auto simp: vector_stage_def retrieval_of_def age_reader_def age_reads_def
        intro!: steady_intros reads_keep e split: option.split)
  have m: "keeps J any_row (entityMatches (retrieval_of S) p q n graph vs)" for n graph vs
    by (auto simp: entityMatches_def retrieval_of_def age_reader_def age_reads_def Let_def
        intro!: steady_intros reads_keep)
  have s: "keeps J any_row (flagSuperseded (retrieval_of S) rs)" for rs
    by (auto simp: flagSuperseded_def retrieval_of_def age_reader_def age_reads_def Let_def
        intro!: steady_intros reads_keep)
  have t: "keeps J any_row (re_now (retrieval_of S))"
    by (simp add: retrieval_of_def age_reader_def keeps_def ticks any_row_def)
  show ?thesis
    unfolding Retrieve_def retrieve_def Let_def by (intro steady_intros k v m s t)
qed

end

text \<open>And the writing methods the memory handlers reach keep it too.\<close>

locale memory_writes = steady +
  assumes create_keeps: "keeps J any_row (CreateMemory mem)"
    and edges_keep: "keeps J any_row (CreateEdges G es)" "keeps J any_row (CreateEdge e)"
    and embed_keeps: "keeps J any_row (StoreEmbedding i p v)"
    and link_keeps: "keeps J any_row (LinkMemoryToSession G i j)"
    and entities_keep: "keeps J any_row (LinkEntities G mem names)"
    and update_keeps: "keeps J any_row (UpdateMemoryContent i h c)"
    and bump_keeps: "keeps J any_row (IncrementAccessCounts G ids)"
    and delete_keeps: "keeps J any_row (DeleteMemory G i)"

sublocale memory_writes \<subseteq> ingest: ingest_engine "age_repo G" J any_row "age_engine G emb N uni P x" for G emb N uni P x
  by unfold_locales
    (simp_all add: age_repo_def age_engine_def create_keeps edges_keep embed_keeps link_keeps entities_keep
      update_keeps bump_keeps reads_keep sources_keep, simp_all add: keeps_def ticks any_row_def)

context memory_writes
begin

lemma handlers_keep:
  "keeps J any_row (svc_Store S a)" "keeps J any_row (svc_Query S b)" "keeps J any_row (svc_Connect S c)"
  "keeps J any_row (svc_Delete S d)" "keeps J any_row (svc_GetGraph S e)" "keeps J any_row (svc_Extract S f)"
  "keeps J any_row (svc_GetProfile S g)"
  unfolding svc_Store_def svc_Query_def svc_Connect_def svc_Delete_def svc_GetGraph_def svc_Extract_def
    svc_GetProfile_def ingest_of_def Let_def
  by (auto intro!: steady_intros reads_keep Retrieve_keeps ingest.Store_keeps ingest.engine_Extract_keeps
      edges_keep delete_keeps bump_keeps split: option.split)

end

interpretation db: memory_writes "world_inv db_inv"
  by unfold_locales
    (simp_all add: keeps_preserves writes_preserve preserves_exec world_inv_def)

section \<open>What the server keeps\<close>

lemma session_ops_keep: "preserves db_inv (CreateSession G sess)" "preserves db_inv (EndSession G i)"
  by (simp_all add: writes_preserve)

text \<open>A request that is not about sessions is served on the world alone, and keeps what the handlers keep.\<close>

definition on_sessions :: "request \<Rightarrow> bool" where
  "on_sessions req = (case req of StartSessionRPC r \<Rightarrow> True | EndSessionRPC i \<Rightarrow> True | _ \<Rightarrow> False)"

lemma serve_on_world:
  assumes "keeps J any_row h" "J (sv_world s)" "answer f (on_world h) s = (r, s')"
  shows "J (sv_world s') \<and> sv_active s' = sv_active s"
proof -
  obtain x w where h: "h (sv_world s) = (x, w)" by fastforce
  with keepsD [OF assms(1,2) h] assms(3) show ?thesis
    by (cases x) (auto simp: answer_def on_world_def)
qed

context memory_writes
begin

lemma serve_memory:
  assumes "\<not> on_sessions req" "J (sv_world s)" "serve S req s = (r, s')"
  shows "J (sv_world s') \<and> sv_active s' = sv_active s"
proof -
  note w = handlers_keep [THEN serve_on_world [where J = J], OF assms(2)]
  show ?thesis using assms(1,3) by (cases req) (simp_all add: on_sessions_def w)
qed

end

lemma StartSession_cases:
  assumes "serve S (StartSessionRPC req) s = (r, s')"
  obtains (refused) st where "s' = s" "r = Inl st" "st_code st = InvalidArgument"
  | (failed) st w where "session_call S req (sv_world s) = (Inl st, w)" "s' = s\<lparr>sv_world := w\<rparr>" "r = Inl st" "st_code st = Internal"
  | (started) sess w where "session_call S req (sv_world s) = (Inr sess, w)"
      "s' = s\<lparr>sv_world := w, sv_active := sv_active s + 1\<rparr>" "r = Inr (Started (sessionToProto (ms_env S) sess))"
proof (cases "tr_project req = [] \<or> tr_agent req = []")
  case True
  then show ?thesis using assms refused
    by (auto simp: answer_def svc_StartSession_def refuse_def status_of_def split: if_splits)
next
  case False
  obtain x w where c: "session_call S req (sv_world s) = (x, w)" by fastforce
  have i: "st_code st = Internal" if "x = Inl st" for st
    using c that by (auto simp: session_call_def draw_def call_def reply_def internal_def status_of_def Let_def
        fresh_id_def wall_clock_def split: prod.splits sum.splits)
  show ?thesis
    using assms False c i failed started
    by (cases x) (auto simp: answer_def svc_StartSession_def on_world_def)
qed

lemma EndSession_cases:
  assumes "serve S (EndSessionRPC ident) s = (r, s')"
  obtains (refused) st where "s' = s" "r = Inl st" "st_code st = InvalidArgument"
  | (failed) i e w where "EndSession (ms_env S) i (sv_world s) = (Inl e, w)" "s' = s\<lparr>sv_world := w\<rparr>"
      "r = Inl (end_status ident e)"
  | (ended) i sess w where "EndSession (ms_env S) i (sv_world s) = (Inr sess, w)"
      "s' = s\<lparr>sv_world := w, sv_active := sv_active s - 1\<rparr>" "r = Inr (Ended (sessionToProto (ms_env S) sess))"
proof (cases "ident = [] \<or> ms_parse S ident = None")
  case True
  then show ?thesis using assms refused
    by (auto simp: answer_def svc_EndSession_def refuse_def status_of_def split: if_splits)
next
  case False
  then obtain i where i: "ident \<noteq> []" "ms_parse S ident = Some i" by auto
  obtain x w where c: "EndSession (ms_env S) i (sv_world s) = (x, w)" by fastforce
  show ?thesis
    using assms i c failed ended
    by (cases x) (auto simp: answer_def svc_EndSession_def on_world_def call_def reply_def)
qed


section \<open>The gauge of active sessions\<close>

text \<open>No other writers and no failures; the sessions are \<open>X\<close> and the tick is at least \<open>n\<close>.\<close>

definition calm :: "session list \<Rightarrow> nat \<Rightarrow> world \<Rightarrow> bool" where
  "calm X n w = (idle w \<and> d_sessions (w_db w) = X \<and> n \<le> w_tick w)"

lemma calm_stmt: "(\<And>d. d_sessions (fst (f d)) = d_sessions d) \<Longrightarrow> keeps (calm X n) any_row (stmt f)"
  by (auto simp: keeps_def calm_def idle_def stmt_idle any_row_def)

lemma calm_exec: "(\<And>d. d_sessions (f d) = d_sessions d) \<Longrightarrow> keeps (calm X n) any_row (exec f)"
  unfolding exec_def by (rule calm_stmt) simp

lemma calm_rows: "keeps (calm X n) any_row (rows f)"
  unfolding rows_def by (rule calm_stmt) simp

lemma calm_tickless: "tickless (calm X n) any_row"
  by (simp add: tickless_def calm_def idle_def any_row_def)

lemma d_sessions_steps [simp]: "d_sessions (assert_edge e d) = d_sessions d"
  "d_sessions (link_entity mem a b i j t d) = d_sessions d" "d_sessions (map_rows P f d) = d_sessions d"
  "d_sessions (detach_delete i d) = d_sessions d"
  by (simp_all add: assert_edge_def link_entity_def map_rows_def detach_delete_def Let_def split: option.split)

lemma calm_delete: "keeps (calm X n) any_row (DeleteMemory G i)"
proof -
  have g: "keeps (calm X n) any_row (GetMemoryEntities G ids)" for ids
    unfolding GetMemoryEntities_def by (intro keeps_intros calm_rows calm_tickless)
  have o: "keeps (calm X n) any_row (deleteOrphanedEntities es)" for es
  proof -
    let ?f = "\<lambda>d. d\<lparr>d_entities := filter (\<lambda>n. \<not> (en_normalized n \<in> set es \<and> en_normalized n \<noteq> [] \<and> orphaned d n)) (d_entities d)\<rparr>"
    have "keeps (calm X n) any_row (exec ?f)" by (rule calm_exec) simp
    then show ?thesis by (auto simp: deleteOrphanedEntities_def keeps_def return_op_def)
  qed
  have "DeleteMemory G i = and_then (exec (\<lambda>d. d\<lparr>d_vecs := filter (\<lambda>v. v_id v \<noteq> i) (d_vecs d)\<rparr>)) (\<lambda>_.
      attempt (GetMemoryEntities G [i]) (\<lambda>r.
      let entities = (case r of None \<Rightarrow> [] | Some m \<Rightarrow> m i) in
      and_then (exec (detach_delete i)) (\<lambda>_. if length entities > 0 then deleteOrphanedEntities entities else return_op ())))"
    by (simp add: DeleteMemory_def attempt_def Let_def fun_eq_iff and_then_def split: prod.split sum.split)
  then show ?thesis unfolding Let_def by (simp only:) (intro keeps_intros calm_exec g o; simp)
qed

interpretation calm: memory_writes "calm X n"
proof unfold_locales
  fix G e es i j p v mem names h c ids
  note c = calm_stmt calm_exec calm_rows calm_tickless
  show "calm X n w \<Longrightarrow> calm X n (w\<lparr>w_tick := Suc (w_tick w)\<rparr>)" for w by (simp add: calm_def idle_def)
  show "keeps (calm X n) any_row (exec (\<lambda>d. d))" by (rule calm_exec) simp
  show "keeps (calm X n) any_row (CreateMemory mem)" unfolding CreateMemory_def by (rule calm_exec) simp
  show "keeps (calm X n) any_row (CreateEdges G es)"
    unfolding CreateEdges_def by (intro keeps_intros keeps_create_groups calm_exec) simp
  show "keeps (calm X n) any_row (CreateEdge e)"
    unfolding CreateEdge_def Let_def by (intro keeps_intros calm_stmt) simp
  show "keeps (calm X n) any_row (StoreEmbedding i p v)"
    unfolding StoreEmbedding_def by (intro keeps_intros calm_exec) simp
  show "keeps (calm X n) any_row (LinkMemoryToSession G i j)"
    unfolding LinkMemoryToSession_def by (intro keeps_intros calm_exec calm_tickless) simp
  show "keeps (calm X n) any_row (LinkEntities G mem names)"
    unfolding LinkEntities_def by (intro keeps_intros keeps_link_names calm_exec calm_rows calm_tickless) simp
  show "keeps (calm X n) any_row (UpdateMemoryContent i h c)"
    unfolding UpdateMemoryContent_def Let_def by (intro keeps_intros calm_stmt) simp
  show "keeps (calm X n) any_row (IncrementAccessCounts G ids)"
    unfolding IncrementAccessCounts_def by (intro keeps_intros calm_exec) simp
  show "keeps (calm X n) any_row (DeleteMemory G i)" by (rule calm_delete)
qed

definition open_sessions :: "db \<Rightarrow> session list" where
  "open_sessions d = filter (\<lambda>s. s_ended s = None) (d_sessions d)"

text \<open>The gauge counts the open sessions, and session identifiers are distinct and drawn in the past.\<close>

definition gauge_ok :: "service \<Rightarrow> server \<Rightarrow> bool" where
  "gauge_ok S s = (idle (sv_world s) \<and> sv_active s = int (length (open_sessions (w_db (sv_world s)))) \<and>
     distinct (map s_id (d_sessions (w_db (sv_world s)))) \<and>
     s_id ` set (d_sessions (w_db (sv_world s))) \<subseteq> ge_uuid (ms_env S) ` {..<w_tick (sv_world s)})"

lemma session_call_idle:
  assumes "idle w"
  shows "\<exists>sess w'. session_call S req w = (Inr sess, w') \<and> idle w' \<and> w_tick w' = w_tick w + 3 \<and>
    (\<exists>x. s_id x = ge_uuid (ms_env S) (w_tick w) \<and> s_ended x = None \<and> d_sessions (w_db w') = d_sessions (w_db w) @ [x])"
  using assms
  by (auto simp: session_call_def draw_def call_def CreateSession_def and_then_def exec_idle idle_def new_uuid_def
      fresh_id_def wall_clock_def reply_def Let_def)

lemma count_ended:
  assumes "distinct (map s_id xs)" "find (open_session i) xs = Some x"
  shows "length (filter (\<lambda>s. s_ended s = None) xs) =
    Suc (length (filter (\<lambda>s. s_ended s = None) (map (\<lambda>s. if open_session i s then s\<lparr>s_ended := Some t\<rparr> else s) xs)))"
  using assms
proof (induction xs)
  case (Cons a xs)
  show ?case
  proof (cases "open_session i a")
    case True
    then have "\<not> open_session i s" if "s \<in> set xs" for s using Cons.prems(1) True that
      by (auto simp: open_session_def) (metis image_eqI)
    then have "map (\<lambda>s. if open_session i s then s\<lparr>s_ended := Some t\<rparr> else s) xs = xs" by (simp add: map_idI)
    then show ?thesis using True by (simp add: open_session_def)
  qed (use Cons in auto)
qed simp

lemma EndSession_idle:
  assumes "idle w"
  shows "case find (open_session i) (d_sessions (w_db w)) of
     Some x \<Rightarrow> \<exists>sess t w'. EndSession G i w = (Inr sess, w') \<and> idle w' \<and> w_tick w' = w_tick w + 1 \<and> w_db w' = end_rows i t (w_db w)
   | None \<Rightarrow> \<exists>e w'. EndSession G i w = (Inl e, w') \<and> idle w' \<and> w_tick w' = w_tick w + 1 \<and> w_db w' = w_db w"
proof -
  have n: "end_rows i t (w_db w) = w_db w" if "find (open_session i) (d_sessions (w_db w)) = None" for t
    using that unfolding end_rows_def find_None_iff by (simp add: map_idI)
  show ?thesis
    using assms n by (auto simp: EndSession_def time_now_def idle_def and_then_def stmt_idle return_op_def sessionExists_def
        rows_idle split: option.split bool.split)
qed

lemma serve_gauge:
  assumes i: "idle (sv_world s)" and r: "serve S req s = (r, s')"
  shows "idle (sv_world s') \<and> w_tick (sv_world s) \<le> w_tick (sv_world s') \<and>
    (gauge_ok S s \<longrightarrow> inj_on (ge_uuid (ms_env S)) {..<w_tick (sv_world s')} \<longrightarrow> gauge_ok S s')"
proof (cases "on_sessions req")
  case False
  let ?w = "sv_world s"
  have "calm (d_sessions (w_db ?w)) (w_tick ?w) ?w" using i by (simp add: calm_def)
  from calm.serve_memory [OF False this r] show ?thesis
    by (auto simp: calm_def gauge_ok_def open_sessions_def)
next
  case True
  then consider q where "req = StartSessionRPC q" | i where "req = EndSessionRPC i"
    by (auto simp: on_sessions_def split: request.splits)
  then show ?thesis
  proof cases
    case (1 q)
    from r [unfolded 1] show ?thesis
    proof (cases rule: StartSession_cases)
      case (started sess w)
      let ?n = "w_tick (sv_world s)"
      obtain x where x: "idle w" "w_tick w = ?n + 3" "s_id x = ge_uuid (ms_env S) ?n" "s_ended x = None"
          "d_sessions (w_db w) = d_sessions (w_db (sv_world s)) @ [x]"
        using session_call_idle [OF i, of S q] started(1) by auto
      have "ge_uuid (ms_env S) ?n \<notin> ge_uuid (ms_env S) ` {..<?n}" if "inj_on (ge_uuid (ms_env S)) {..<?n + 3}"
        using that by (force simp: inj_on_def)
      then show ?thesis
        using x started(2) by (auto simp: gauge_ok_def open_sessions_def)
    qed (use i session_call_idle [OF i, of S q] in auto)
  next
    case (2 j)
    from r [unfolded 2] show ?thesis
    proof (cases rule: EndSession_cases)
      case (ended k sess w)
      obtain x where f: "find (open_session k) (d_sessions (w_db (sv_world s))) = Some x"
        using EndSession_idle [OF i, where i = k and G = "ms_env S"] ended(1) by (auto split: option.splits)
      then obtain t where t: "idle w" "w_tick w = w_tick (sv_world s) + 1" "w_db w = end_rows k t (w_db (sv_world s))"
        using EndSession_idle [OF i, where i = k and G = "ms_env S"] ended(1) by auto
      have "map s_id (d_sessions (w_db w)) = map s_id (d_sessions (w_db (sv_world s)))"
        by (simp add: t(3) end_rows_def)
      moreover from this have "s_id ` set (d_sessions (w_db w)) = s_id ` set (d_sessions (w_db (sv_world s)))"
        by (metis set_map)
      moreover have "distinct (map s_id (d_sessions (w_db (sv_world s)))) \<Longrightarrow>
          length (open_sessions (w_db (sv_world s))) = Suc (length (open_sessions (w_db w)))"
        using count_ended [OF _ f, of t] by (simp add: open_sessions_def t(3) end_rows_def)
      ultimately show ?thesis
        using t(1,2) ended(2) by (auto simp: gauge_ok_def)
    next
      case (failed k e w)
      then show ?thesis using EndSession_idle [OF i, where i = k and G = "ms_env S"]
        by (auto simp: gauge_ok_def split: option.splits)
    qed (use i in auto)
  qed
qed

text \<open>
  C12: \<open>kora_active_sessions\<close> counts the open sessions.  Without failures and other writers, from an
  empty store and a zero gauge, after every sequence of requests (sessions ended twice, unknown or
  malformed identifiers, and all the memory traffic in between) the gauge is the number of sessions
  stored and not ended, as long as the identifiers drawn were distinct; so it is never negative.
\<close>

theorem active_sessions_gauge:
  assumes "server_run S s hist s'" "idle (sv_world s)" "d_sessions (w_db (sv_world s)) = []" "sv_active s = 0"
    and "inj_on (ge_uuid (ms_env S)) {..<w_tick (sv_world s')}"
  shows "sv_active s' = int (length (open_sessions (w_db (sv_world s'))))"
proof -
  have "idle (sv_world s') \<and> (inj_on (ge_uuid (ms_env S)) {..<w_tick (sv_world s')} \<longrightarrow> gauge_ok S s')"
    using assms(1-4)
  proof (induction rule: server_run.induct)
    case (start S s)
    then show ?case by (simp add: gauge_ok_def open_sessions_def)
  next
    case (request S s hist s1 req r s2)
    then have i: "idle (sv_world s1)" "inj_on (ge_uuid (ms_env S)) {..<w_tick (sv_world s1)} \<longrightarrow> gauge_ok S s1" by auto
    note g = serve_gauge [OF i(1) request.hyps(2)]
    from g have "{..<w_tick (sv_world s1)} \<subseteq> {..<w_tick (sv_world s2)}" by auto
    then show ?case using g i(2) inj_on_subset by blast
  qed
  then show ?thesis using assms(5) by (simp add: gauge_ok_def)
qed

definition sample_service :: service where
  "sample_service = \<lparr>ms_env = sample_genv, ms_parse = (\<lambda>s. Some 1000), ms_embedder = None,
     ms_net = (\<lambda>n u a b. Unreachable), ms_unicode = (\<lambda>s. False), ms_provider = (\<lambda>n. sample_provider),
     ms_extractor = sample_llm, ms_fusion = DefaultFusion, ms_off = False\<rparr>"

definition sample_server :: server where
  "sample_server = \<lparr>sv_world = sample_world [], sv_active = 0\<rparr>"

definition sample_start :: start_request where "sample_start = \<lparr>tr_project = ''p'', tr_agent = ''a''\<rparr>"

lemma sample_session:
  "\<exists>r1 r2 s'. server_run sample_service sample_server
     [(StartSessionRPC sample_start, r1), (EndSessionRPC ''x'', Inr (Ended r2)), (EndSessionRPC ''x'',
       Inl (status_of Aborted (''session already ended: '' @ ''x'')))] s' \<and> w_tick (sv_world s') = 5"
proof -
  define one where "one = serve sample_service (StartSessionRPC sample_start) sample_server"
  define two where "two = serve sample_service (EndSessionRPC ''x'') (snd one)"
  define three where "three = serve sample_service (EndSessionRPC ''x'') (snd two)"
  note d = sample_service_def sample_server_def sample_start_def sample_world_def sample_genv_def answer_def on_world_def
    svc_StartSession_def session_call_def draw_def fresh_id_def wall_clock_def call_def CreateSession_def and_then_def
    exec_idle stmt_idle new_uuid_def reply_def
  note e = svc_EndSession_def EndSession_def time_now_def open_session_def end_rows_def sessionExists_def rows_idle
    return_op_def is_session_def end_status_def
  obtain r1 s1 where 1: "one = (r1, s1)" by fastforce
  have "\<exists>r2. fst two = Inr (Ended r2)" by (simp add: two_def one_def d e)
  then obtain r2 s2 where 2: "two = (Inr (Ended r2), s2)" by (metis prod.collapse)
  have "fst three = Inl (status_of Aborted (''session already ended: '' @ ''x''))" "w_tick (sv_world (snd three)) = 5"
    by (simp_all add: three_def two_def one_def d e)
  then obtain s3 where 3: "three = (Inl (status_of Aborted (''session already ended: '' @ ''x'')), s3)" "w_tick (sv_world s3) = 5"
    by (metis prod.collapse snd_conv)
  have "server_run sample_service sample_server ([] @ [(StartSessionRPC sample_start, r1)]) s1"
    by (rule server_run.request [OF server_run.start]) (use 1 in \<open>simp add: one_def\<close>)
  then have "server_run sample_service sample_server (([] @ [(StartSessionRPC sample_start, r1)]) @ [(EndSessionRPC ''x'', Inr (Ended r2))]) s2"
    by (rule server_run.request) (use 1 2 in \<open>simp add: two_def\<close>)
  then have "server_run sample_service sample_server ((([] @ [(StartSessionRPC sample_start, r1)]) @ [(EndSessionRPC ''x'', Inr (Ended r2))])
      @ [(EndSessionRPC ''x'', Inl (status_of Aborted (''session already ended: '' @ ''x'')))]) s3"
    by (rule server_run.request) (use 2 3 in \<open>simp add: three_def\<close>)
  then show ?thesis using 3(2) by auto
qed


lemma active_sessions_gauge_witness:
  "\<exists>hist s'. length hist = 3 \<and> server_run sample_service sample_server hist s' \<and>
     sv_active s' = int (length (open_sessions (w_db (sv_world s'))))"
proof -
  obtain h1 h2 h3 s' where r: "server_run sample_service sample_server [h1, h2, h3] s'" "w_tick (sv_world s') = 5"
    using sample_session by blast
  have u: "inj_on (ge_uuid (ms_env sample_service)) {..<w_tick (sv_world s')}"
  proof -
    have "{..<5::nat} = {0, 1, 2, 3, 4}" by auto
    then show ?thesis unfolding r(2) by (simp add: sample_service_def sample_genv_def)
  qed
  have "idle (sv_world sample_server)" "d_sessions (w_db (sv_world sample_server)) = []" "sv_active sample_server = 0"
    by (simp_all add: sample_server_def sample_world_def idle_def)
  from active_sessions_gauge [OF r(1) this u] show ?thesis using r(1) by (intro exI [of _ "[h1, h2, h3]"]) auto
qed

section \<open>Refusals\<close>

text \<open>Handlers whose only errors are internal ones, and handlers that write nothing when they refuse.\<close>

definition mild :: "(world, 'a) rpc \<Rightarrow> bool" where
  "mild h = (\<forall>w st w'. h w = (Inl st, w') \<longrightarrow> st_code st = Internal)"

definition clean :: "(world, 'a) rpc \<Rightarrow> bool" where
  "clean h = (\<forall>w st w'. quiet w \<longrightarrow> h w = (Inl st, w') \<longrightarrow> st_code st \<noteq> Internal \<longrightarrow> w_db w' = w_db w)"

lemma mild_rules: "mild (reply x)" "(\<And>x. mild (k x)) \<Longrightarrow> mild (call m (internal msg) k)"
  "(\<And>x. mild (l x)) \<Longrightarrow> mild (best_effort n l)" "(\<And>x. mild (j x)) \<Longrightarrow> mild (draw src j)"
  by (auto simp: mild_def reply_def call_def internal_def status_of_def best_effort_def draw_def split: prod.splits sum.splits)

lemma clean_mild: "mild h \<Longrightarrow> clean h"
  by (auto simp: mild_def clean_def)

lemma clean_refuse: "clean (refuse c msg)"
  by (simp add: clean_def refuse_def)

lemma clean_tick:
  "clean h \<Longrightarrow> quiet w \<Longrightarrow> h (w\<lparr>w_tick := n\<rparr>) = (Inl st, w') \<Longrightarrow> st_code st \<noteq> Internal \<Longrightarrow> w_db w' = w_db w"
  unfolding clean_def by (metis quiet_tick world.select_convs(1) world.surjective world.update_convs(3))

lemma clean_draw:
  assumes "\<And>x. clean (k x)" "\<And>x. clean (l x)"
  shows "clean (draw (fresh_id S) k)" "clean (draw (wall_clock S) l)"
proof -
  show "clean (draw (fresh_id S) k)"
    by (subst clean_def) (auto simp: draw_def fresh_id_def dest: clean_tick [OF assms(1)])
  show "clean (draw (wall_clock S) l)"
    by (subst clean_def) (auto simp: draw_def wall_clock_def dest: clean_tick [OF assms(2)])
qed

lemma clean_get:
  assumes "\<And>x. clean (k x)"
  shows "clean (call (GetMemory i) err k)"
  unfolding clean_def
proof (intro allI impI)
  fix w st w' assume q: "quiet w" and r: "call (GetMemory i) err k w = (Inl st, w')" and c: "st_code st \<noteq> Internal"
  obtain rs w1 where g: "rows (\<lambda>d. mem_rows d i) w = (rs, w1)" by fastforce
  note w1 = rows_quiet [OF q g]
  have "\<exists>m. GetMemory i w = (m, w1)"
    by (cases rs) (auto simp: GetMemory_def and_then_def g return_op_def fail_op_def split: list.split)
  then obtain m where m: "GetMemory i w = (m, w1)" ..
  show "w_db w' = w_db w"
  proof (cases m)
    case (Inr x)
    then have "k x w1 = (Inl st, w')" using r m by (simp add: call_def)
    then show ?thesis using assms [of x] w1 c unfolding clean_def by metis
  qed (use r m w1 in \<open>auto simp: call_def\<close>)
qed

lemma handlers_clean:
  "clean (svc_Store S a)" "clean (svc_Query S b)" "clean (svc_Connect S c)" "clean (svc_Delete S d)"
  "clean (svc_GetGraph S e)" "clean (svc_Extract S f)" "clean (svc_GetProfile S g)"
  unfolding svc_Store_def svc_Query_def svc_Connect_def svc_Delete_def svc_GetGraph_def svc_Extract_def
    svc_GetProfile_def Let_def
  by (auto intro!: clean_refuse clean_get clean_draw clean_mild [OF mild_rules(2)] mild_rules split: option.split prod.split)

lemma serve_clean:
  assumes "clean h" "quiet (sv_world s)" "answer f (on_world h) s = (Inl st, s')" "st_code st \<noteq> Internal"
  shows "w_db (sv_world s') = w_db (sv_world s) \<and> sv_active s' = sv_active s"
proof -
  obtain x w where h: "h (sv_world s) = (x, w)" by fastforce
  then have s: "s' = s\<lparr>sv_world := w\<rparr>" "h (sv_world s) = (Inl st, w)"
    using assms(3) by (cases x; simp add: answer_def on_world_def)+
  from assms(1) [unfolded clean_def, rule_format, OF assms(2) s(2) assms(4)] s(1) show ?thesis by simp
qed

lemma EndSession_refused:
  assumes "quiet w" "EndSession G i w = (Inl e, w')" "e = SessionAlreadyEnded \<or> e = SessionNotFound"
  shows "w_db w' = w_db w"
proof -
  let ?f = "\<lambda>t d. (end_rows i t d, map_option (\<lambda>s. s\<lparr>s_ended := Some t\<rparr>) (find (open_session i) (d_sessions d)))"
  let ?w = "w\<lparr>w_tick := Suc (w_tick w)\<rparr>" and ?t = "sec_time (ge_clock G (w_tick w))"
  obtain x w1 where x: "stmt (?f ?t) ?w = (x, w1)" by fastforce
  have q: "quiet ?w" using assms(1) by simp
  have n: "end_rows i t d = d" if "find (open_session i) (d_sessions d) = None" for t d
    using that unfolding end_rows_def find_None_iff by (simp add: map_idI)
  have err: "x \<noteq> Inl e"
    using x assms(3) by (auto simp: stmt_def Let_def split: list.splits fault.splits)
  have "x = Inr None"
    using assms(2) x err by (auto simp: EndSession_def time_now_def and_then_def return_op_def split: sum.splits option.splits)
  moreover from this have "w_db w1 = w_db w" "quiet w1" using stmt_quiet [OF q x] n by auto
  ultimately show ?thesis
    using assms(2) x rows_quiet [of w1 "\<lambda>d. is_session d i"]
    by (auto simp: EndSession_def time_now_def and_then_def sessionExists_def split: prod.splits sum.splits bool.splits)
qed

text \<open>
  C13: a request that is refused has written nothing.  Whatever statements fail, when a handler
  answers with an argument error, a conflict or a missing memory or session (any code but
  \<open>Internal\<close>), the database and the gauge are what they were, unless other writers changed them.
\<close>

theorem refused_requests_write_nothing:
  assumes "quiet (sv_world s)" "serve S req s = (Inl st, s')" "st_code st \<noteq> Internal"
  shows "w_db (sv_world s') = w_db (sv_world s) \<and> sv_active s' = sv_active s"
proof (cases "on_sessions req")
  case False
  note w = handlers_clean [THEN serve_clean, OF assms(1) _ assms(3)]
  show ?thesis using assms(2) False by (cases req) (simp_all add: on_sessions_def w)
next
  case True
  then consider q where "req = StartSessionRPC q" | i where "req = EndSessionRPC i"
    by (auto simp: on_sessions_def split: request.splits)
  then show ?thesis
  proof cases
    case (1 q)
    from assms(2) [unfolded 1] show ?thesis by (cases rule: StartSession_cases) (use assms(3) in auto)
  next
    case (2 j)
    from assms(2) [unfolded 2] show ?thesis
    proof (cases rule: EndSession_cases)
      case (failed i e w)
      then have "e = SessionAlreadyEnded \<or> e = SessionNotFound"
        using assms(3) by (auto simp: end_status_def status_of_def split: if_splits)
      then show ?thesis using EndSession_refused [OF assms(1) failed(1)] failed(2) by simp
    qed auto
  qed
qed

lemma refused_requests_write_nothing_witness:
  "\<exists>st s'. serve sample_service (EndSessionRPC ''x'') sample_server = (Inl st, s') \<and> st_code st = NotFound \<and>
     w_db (sv_world s') = w_db (sv_world sample_server) \<and> sv_active s' = 0"
proof -
  have "\<exists>st s'. serve sample_service (EndSessionRPC ''x'') sample_server = (Inl st, s') \<and> st_code st = NotFound"
    by (simp add: sample_service_def sample_server_def sample_world_def sample_genv_def answer_def on_world_def call_def
        svc_EndSession_def EndSession_def time_now_def open_session_def end_rows_def sessionExists_def rows_idle
        and_then_def stmt_idle return_op_def is_session_def end_status_def status_of_def)
  then obtain st s' where r: "serve sample_service (EndSessionRPC ''x'') sample_server = (Inl st, s')" "st_code st = NotFound"
    by blast
  have "quiet (sv_world sample_server)" by (simp add: sample_server_def quiet_def sample_world_def)
  from refused_requests_write_nothing [OF this r(1)] r show ?thesis by (simp add: sample_server_def)
qed

section \<open>The wire\<close>

text \<open>
  Labels survive the wire.  A memory type or a relationship read from a request is the only one
  written back as that number, no number but those of the three types and the three relationships
  is accepted, and whatever else is stored (an edge the client may not create, an unknown type) is
  reported as unspecified; a timestamp loses nothing.
\<close>

lemma wire_labels_roundtrip:
  "(protoToMemoryType p = Some t \<longleftrightarrow> memoryTypeToProto t = p \<and> p \<noteq> MEMORY_TYPE_UNSPECIFIED) \<and>
   (protoToRelType q = Some r \<longleftrightarrow> relTypeToProto r = q \<and> q \<noteq> RELATIONSHIP_TYPE_UNSPECIFIED) \<and>
   (protoToMemoryType p = None \<longleftrightarrow> p \<notin> {1, 2, 3}) \<and> (protoToRelType q = None \<longleftrightarrow> q \<notin> {1, 2, 3}) \<and>
   ts_seconds (timestamp_of c) * 1000000000 + ts_nanos (timestamp_of c) = c"
proof (rule conjI5)
  show "protoToMemoryType p = Some t \<longleftrightarrow> memoryTypeToProto t = p \<and> p \<noteq> MEMORY_TYPE_UNSPECIFIED"
    by (auto simp: protoToMemoryType_def memoryTypeToProto_def pb_enum_defs memory_type_defs)
  show "protoToRelType q = Some r \<longleftrightarrow> relTypeToProto r = q \<and> q \<noteq> RELATIONSHIP_TYPE_UNSPECIFIED"
    by (auto simp: protoToRelType_def relTypeToProto_def pb_enum_defs rel_defs)
qed (auto simp: protoToMemoryType_def protoToRelType_def pb_enum_defs timestamp_of_def)

lemma QueryMemories_page:
  assumes "QueryMemories f w = (Inr rs, w')" "0 < qf_topk f" "\<not> qf_overfetch f"
  shows "int (length rs) \<le> qf_topk f"
proof -
  have "world_inv (\<lambda>d. True) w" by (simp add: world_inv_def)
  from rows_acknowledged [OF assms(1) [unfolded QueryMemories_def] this] show ?thesis
    using assms(2,3) by (auto simp: candidate_limit_def)
qed

text \<open>
  A profile is bounded and split by kind.  Whatever numbers the request asks for, at most 1000
  memories are read; the static layer holds semantic and procedural facts only, the dynamic layer
  episodes only, and together they list each memory read at most once.
\<close>

lemma GetProfile_layers:
  "case svc_GetProfile S req w of
     (Inl st, w') \<Rightarrow> st_code st \<in> {InvalidArgument, Internal}
   | (Inr p, w') \<Rightarrow>
       list_all (\<lambda>f. pf_type f \<in> {MEMORY_TYPE_SEMANTIC, MEMORY_TYPE_PROCEDURAL}) (pr_static p) \<and>
       list_all (\<lambda>f. pf_type f = MEMORY_TYPE_EPISODIC) (pr_dynamic p) \<and>
       int (length (pr_static p) + length (pr_dynamic p)) \<le> pr_total p \<and>
       pr_total p \<le> profileMemoryBudget (gr_max req) \<and> profileMemoryBudget (gr_max req) \<le> 1000"
proof (cases "gr_project req = []")
  case False
  let ?f = "\<lparr>qf_project = gr_project req, qf_keywords = [], qf_types = [], qf_topk = profileMemoryBudget (gr_max req),
    qf_overfetch = False\<rparr>"
  have b: "0 < profileMemoryBudget (gr_max req)" "profileMemoryBudget (gr_max req) \<le> 1000"
    by (auto simp: profileMemoryBudget_def defaultProfileMemories_def maxProfileMemories_def)
  obtain r w1 where q: "QueryMemories ?f w = (r, w1)" by fastforce
  show ?thesis
  proof (cases r)
    case (Inr rs)
    have n: "int (length rs) \<le> profileMemoryBudget (gr_max req)"
      using QueryMemories_page [OF q [unfolded Inr]] b by simp
    let ?c = "days_before (profileRecencyDays (gr_recency req)) (ge_clock (ms_env S) (w_tick w1))"
    have "length (filter (\<lambda>m. m_type m = MemoryTypeSemantic \<or> m_type m = MemoryTypeProcedural) ms) +
        length (filter (\<lambda>m. m_type m = MemoryTypeEpisodic \<and> ?c < m_created m) ms) \<le> length ms" for ms
      by (induction ms) (auto simp: memory_type_defs)
    note split = this [of "map mc_memory rs"]
    have e: "\<exists>w2. svc_GetProfile S req w = (Inr
        \<lparr>pr_static = map profile_fact_of
           (filter (\<lambda>m. m_type m = MemoryTypeSemantic \<or> m_type m = MemoryTypeProcedural) (map mc_memory rs)),
         pr_dynamic = map profile_fact_of
           (filter (\<lambda>m. m_type m = MemoryTypeEpisodic \<and> ?c < m_created m) (map mc_memory rs)),
         pr_total = int (length rs)\<rparr>, w2)"
      using False q Inr by (simp add: svc_GetProfile_def call_def draw_def wall_clock_def reply_def Let_def)
    show ?thesis
      using split n b e by (auto simp: list_all_iff profile_fact_of_def memoryTypeToProto_def memory_type_defs)
  qed (use False q in \<open>simp add: svc_GetProfile_def call_def internal_def status_of_def\<close>)
qed (simp add: svc_GetProfile_def refuse_def status_of_def)

end
