(* ===== verification/Consolidation.thy ===== *)
theory Consolidation
  imports Effects Ranking
begin

text \<open>
  \<^verbatim>\<open>internal/service/consolidate.go\<close>: the maintenance job.  Its repository is a record of four
  operations with the clock and the source of identifiers; the counters are unbounded.  Go walks
  the map of duplicate groups in any order; here the groups come in the order of their first
  member, which only decides the order of the edges.  A run returns its counters even when it
  fails, so its result is a pair.
\<close>

section \<open>Configuration and result\<close>

record consolidation_config =
  cc_halflife :: f64
  cc_stale :: f64
  cc_prune_days :: int

definition DefaultConsolidationConfig :: consolidation_config where
  "DefaultConsolidationConfig = \<lparr>cc_halflife = Fin 30, cc_stale = Fin 0.1, cc_prune_days = 30\<rparr>"

record consolidation_result =
  cr_decayed :: nat
  cr_pruned :: nat
  cr_merged :: nat
  cr_merge_failures :: nat
  cr_decay_failures :: nat
  cr_prune_failures :: nat

definition empty_result :: consolidation_result where
  "empty_result = \<lparr>cr_decayed = 0, cr_pruned = 0, cr_merged = 0, cr_merge_failures = 0, cr_decay_failures = 0,
     cr_prune_failures = 0\<rparr>"

definition Failures :: "consolidation_result \<Rightarrow> nat" where
  "Failures r = cr_merge_failures r + cr_decay_failures r + cr_prune_failures r"

definition Attempted :: "consolidation_result \<Rightarrow> nat" where
  "Attempted r = cr_decayed r + cr_pruned r + cr_merged r + Failures r"

definition maxFailureRatio :: f64 where "maxFailureRatio = Fin 0.1"

text \<open>True is the non-nil error.\<close>

definition degradedErr :: "consolidation_result \<Rightarrow> bool" where
  "degradedErr r =
     (let attempted = Attempted r; failures = Failures r in
      if attempted = 0 then False
      else if f_of_nat failures / f_of_nat attempted \<le> maxFailureRatio then False
      else True)"

section \<open>The phases\<close>

record 's crepo =
  cn_query :: "query_filter \<Rightarrow> ('s, memory_ctx list) op"
  cn_edge :: "edge \<Rightarrow> ('s, edge) op"
  cn_decay :: "uuid \<Rightarrow> f64 \<Rightarrow> ('s, unit) op"
  cn_delete :: "uuid \<Rightarrow> ('s, unit) op"
  cn_uuid :: "'s \<Rightarrow> uuid \<times> 's"
  cn_now :: "'s \<Rightarrow> gtime \<times> 's"

definition sweep_filter :: "memory_type list \<Rightarrow> int \<Rightarrow> query_filter" where
  "sweep_filter types k = \<lparr>qf_project = [], qf_keywords = [], qf_types = types, qf_topk = k, qf_overfetch = False\<rparr>"

definition mem_key :: "memory \<Rightarrow> string \<times> string" where "mem_key m = (m_project m, m_content m)"

definition groups :: "memory list \<Rightarrow> memory list list" where
  "groups ms = map (\<lambda>k. filter (\<lambda>m. mem_key m = k) ms) (remdups (map mem_key ms))"

definition newest_of :: "memory list \<Rightarrow> memory" where
  "newest_of mems = fold (\<lambda>m newest. if m_created m > m_created newest then m else newest) (tl mems) (hd mems)"

text \<open>The pairs the two inner loops supersede: the newest memory of a group and each other one.\<close>

definition merge_pairs :: "memory list \<Rightarrow> (memory \<times> memory) list" where
  "merge_pairs ms = concat (map (\<lambda>mems.
     if length mems < 2 then []
     else map (\<lambda>m. (newest_of mems, m)) (filter (\<lambda>m. m_id m \<noteq> m_id (newest_of mems)) mems)) (groups ms))"

fun merge_edges :: "'s crepo \<Rightarrow> (memory \<times> memory) list \<Rightarrow> nat \<Rightarrow> nat \<Rightarrow> ('s, nat \<times> nat) op" where
  "merge_edges R [] merged failed = return_op (merged, failed)"
| "merge_edges R ((newest, m) # ps) merged failed =
     draw (cn_uuid R) (\<lambda>i. draw (cn_now R) (\<lambda>t.
       attempt (cn_edge R \<lparr>e_id = i, e_from = m_id newest, e_to = m_id m, e_rel = RelSupersedes, e_weight = 1,
           e_created = t\<rparr>)
         (\<lambda>r. case r of
            None \<Rightarrow> merge_edges R ps merged (Suc failed)
          | Some e \<Rightarrow> merge_edges R ps (Suc merged) failed)))"

definition phaseMerge :: "'s crepo \<Rightarrow> ('s, nat \<times> nat) op" where
  "phaseMerge R =
     and_then (cn_query R (sweep_filter [MemoryTypeSemantic] 100)) (\<lambda>results.
       merge_edges R (merge_pairs (map mc_memory results)) 0 0)"

definition decay_score :: "f64 \<Rightarrow> gtime \<Rightarrow> memory \<Rightarrow> f64" where
  "decay_score halfLifeDays now m =
     (let halfLifeHours = halfLifeDays * Fin 24;
          hoursSince = dur_hours (time_sub now (m_created m));
          hoursSince = (if hoursSince < 0 then 0 else hoursSince);
          baseDecay = math_exp (Fin (- 0.693) * hoursSince / halfLifeHours);
          frequencyBoost = math_log1p (f_of_int (m_access m)) / Fin 5;
          frequencyBoost = (if frequencyBoost > 1 then 1 else frequencyBoost);
          newScore = baseDecay * (1 + frequencyBoost)
      in if newScore > 1 then 1 else newScore)"

text \<open>A loop over the listed memories whose per-item failures are counted.\<close>

fun count_items :: "('a \<Rightarrow> ('s, unit) op) \<Rightarrow> 'a list \<Rightarrow> nat \<Rightarrow> nat \<Rightarrow> ('s, nat \<times> nat) op" where
  "count_items f [] done failed = return_op (done, failed)"
| "count_items f (x # xs) done failed =
     attempt (f x) (\<lambda>r. case r of
        None \<Rightarrow> count_items f xs done (Suc failed)
      | Some u \<Rightarrow> count_items f xs (Suc done) failed)"

definition phaseDecay :: "'s crepo \<Rightarrow> consolidation_config \<Rightarrow> ('s, nat \<times> nat) op" where
  "phaseDecay R cfg =
     and_then (cn_query R (sweep_filter [] 1000)) (\<lambda>results.
     draw (cn_now R) (\<lambda>now.
       count_items (\<lambda>m. cn_decay R (m_id m) (decay_score (cc_halflife cfg) now m)) (map mc_memory results) 0 0))"

definition prunable :: "consolidation_config \<Rightarrow> gtime \<Rightarrow> memory \<Rightarrow> bool" where
  "prunable cfg now m =
     (let ageDays = dur_hours (time_sub now (m_created m)) / Fin 24 in
      m_decay m < cc_stale cfg \<and> m_access m = 0 \<and> ageDays > f_of_int (cc_prune_days cfg))"

definition phasePrune :: "'s crepo \<Rightarrow> consolidation_config \<Rightarrow> ('s, nat \<times> nat) op" where
  "phasePrune R cfg =
     and_then (cn_query R (sweep_filter [] 1000)) (\<lambda>results.
     draw (cn_now R) (\<lambda>now.
       count_items (\<lambda>m. cn_delete R (m_id m)) (filter (prunable cfg now) (map mc_memory results)) 0 0))"

datatype phase = MergePhase | DecayPhase | PrunePhase
datatype run_error = PhaseFailed phase gerror | Degraded

definition RunConsolidation ::
  "'s crepo \<Rightarrow> consolidation_config \<Rightarrow> 's \<Rightarrow> (consolidation_result \<times> run_error option) \<times> 's" where
  "RunConsolidation R cfg s =
     (case phaseMerge R s of
        (Inl e, s) \<Rightarrow> ((empty_result, Some (PhaseFailed MergePhase e)), s)
      | (Inr (merged, mergeFailed), s) \<Rightarrow>
        let result = empty_result\<lparr>cr_merged := merged, cr_merge_failures := mergeFailed\<rparr> in
        (case phaseDecay R cfg s of
           (Inl e, s) \<Rightarrow> ((result, Some (PhaseFailed DecayPhase e)), s)
         | (Inr (decayed, decayFailed), s) \<Rightarrow>
           let result = result\<lparr>cr_decayed := decayed, cr_decay_failures := decayFailed\<rparr> in
           (case phasePrune R cfg s of
              (Inl e, s) \<Rightarrow> ((result, Some (PhaseFailed PrunePhase e)), s)
            | (Inr (pruned, pruneFailed), s) \<Rightarrow>
              let result = result\<lparr>cr_pruned := pruned, cr_prune_failures := pruneFailed\<rparr> in
              ((result, if degradedErr result then Some Degraded else None), s))))"

section \<open>Duplicates\<close>

lemma newest_of_props:
  assumes "mems \<noteq> []"
  shows "newest_of mems \<in> set mems \<and> (\<forall>m \<in> set mems. m_created m \<le> m_created (newest_of mems))"
proof -
  have "fold (\<lambda>m newest. if m_created m > m_created newest then m else newest) xs b \<in> insert b (set xs) \<and>
    (\<forall>m \<in> insert b (set xs). m_created m \<le>
       m_created (fold (\<lambda>m newest. if m_created m > m_created newest then m else newest) xs b))"
    for xs :: "memory list" and b
  proof (induction xs arbitrary: b)
    case (Cons x xs)
    show ?case using Cons.IH [of b] Cons.IH [of x] by (auto intro: order_trans)
  qed simp
  from this [of "tl mems" "hd mems"] assms show ?thesis by (cases mems) (auto simp: newest_of_def)
qed

lemma groups_key: "mems \<in> set (groups ms) \<longleftrightarrow> (\<exists>m \<in> set ms. mems = filter (\<lambda>x. mem_key x = mem_key m) ms)"
  by (auto simp: groups_def)

lemma group_nonempty: "m \<in> set ms \<Longrightarrow> filter (\<lambda>x. mem_key x = mem_key m) ms \<noteq> []"
  by (auto simp: filter_empty_conv)

lemma merge_pairs_iff:
  "(a, b) \<in> set (merge_pairs ms) \<longleftrightarrow>
     b \<in> set ms \<and> a = newest_of (filter (\<lambda>x. mem_key x = mem_key b) ms) \<and> m_id b \<noteq> m_id a"
proof
  assume "(a, b) \<in> set (merge_pairs ms)"
  then obtain m where m: "m \<in> set ms" "b \<in> set (filter (\<lambda>x. mem_key x = mem_key m) ms)"
      "a = newest_of (filter (\<lambda>x. mem_key x = mem_key m) ms)" "m_id b \<noteq> m_id a"
    by (auto simp: merge_pairs_def groups_key split: if_splits)
  then have "mem_key m = mem_key b" by simp
  with m show "b \<in> set ms \<and> a = newest_of (filter (\<lambda>x. mem_key x = mem_key b) ms) \<and> m_id b \<noteq> m_id a" by simp
next
  assume b: "b \<in> set ms \<and> a = newest_of (filter (\<lambda>x. mem_key x = mem_key b) ms) \<and> m_id b \<noteq> m_id a"
  let ?g = "filter (\<lambda>x. mem_key x = mem_key b) ms"
  have g: "?g \<in> set (groups ms)" "b \<in> set ?g" using b by (auto simp: groups_key)
  have "a \<in> set ?g" using b newest_of_props [of ?g] group_nonempty by blast
  then have "\<not> length ?g < 2"
    using g(2) b by (cases ?g rule: list.exhaust; cases "tl ?g") (auto simp: less_Suc_eq numeral_2_eq_2 dest: sym)
  then show "(a, b) \<in> set (merge_pairs ms)"
    unfolding merge_pairs_def set_concat set_map using g b
    by (intro UN_I [of "_", OF imageI [OF g(1)]]) auto
qed

definition twins :: "memory list" where
  "twins = [sample_memory 1 ''semantic'' ''x'', sample_memory 2 ''semantic'' ''x'', sample_memory 3 ''semantic'' ''y'']"



section \<open>Decay\<close>

lemma decay_score_eq:
  assumes "0 < h" "0 \<le> m_access m"
  shows "decay_score (Fin h) now m = Fin (min 1 (exp (- 0.693 * age_hours (m_created m) now / (h * 24)) *
    (1 + min 1 (ln (1 + real_of_int (m_access m)) / 5))))"
proof -
  have "0 \<le> ln (1 + real_of_int (m_access m))" using assms(2) by simp
  then show ?thesis using assms
    by (simp add: decay_score_def dur_hours_def age_hours_def f_of_int_def f64_consts Let_def min_def max_def not_less)
qed

lemma decay_unit: "0 < h \<Longrightarrow> 0 \<le> m_access m \<Longrightarrow> in_unit (decay_score (Fin h) now m)"
  by (simp add: decay_score_eq)

text \<open>Of two memories used equally often the older one never scores higher.\<close>

lemma decay_score_mono:
  assumes "0 < h" "0 \<le> m_access m" "m_access m' = m_access m" "m_created m \<le> m_created m'"
  shows "decay_score (Fin h) now m \<le> decay_score (Fin h) now m'"
proof -
  let ?x = "\<lambda>q. exp (- 0.693 * age_hours (m_created q) now / (h * 24))" and ?b = "1 + min 1 (ln (1 + real_of_int (m_access m)) / 5)"
  have "age_hours (m_created m') now \<le> age_hours (m_created m) now"
    using time_sub_mono [OF assms(4), of now] by (simp add: age_hours_def max.mono divide_right_mono)
  then have "?x m \<le> ?x m'" using assms(1) by (simp add: divide_right_mono)
  then have "?x m * ?b \<le> ?x m' * ?b" using assms(2) by (intro mult_right_mono) simp_all
  then have "min 1 (?x m * ?b) \<le> min 1 (?x m' * ?b)" by (rule min.mono [OF order_refl])
  then show ?thesis using assms by (simp add: decay_score_eq)
qed

section \<open>What pruning spares\<close>

text \<open>The repository of \<^verbatim>\<open>internal/graph\<close> behind the job.\<close>

definition age_cons :: "genv \<Rightarrow> world crepo" where
  "age_cons G = \<lparr>cn_query = QueryMemories, cn_edge = CreateEdge, cn_decay = UpdateDecayScore, cn_delete = DeleteMemory G,
     cn_uuid = (\<lambda>w. (ge_uuid G (w_tick w), w\<lparr>w_tick := Suc (w_tick w)\<rparr>)),
     cn_now = (\<lambda>w. (ge_clock G (w_tick w), w\<lparr>w_tick := Suc (w_tick w)\<rparr>))\<rparr>"

text \<open>The row is stored, and is the only one under its identifier.\<close>

definition only_row :: "mem_row \<Rightarrow> db \<Rightarrow> bool" where
  "only_row r d = (r \<in> set (d_mems d) \<and> list_all (\<lambda>x. m_id (r_mem x) = m_id (r_mem r) \<longrightarrow> x = r) (d_mems d))"

lemmas preserves_attempt = keeps_attempt [where I = "world_inv I" and holds = any_row for I, unfolded keeps_preserves]

lemma preserves_count_items:
  "(\<And>x. x \<in> set xs \<Longrightarrow> preserves I (f x)) \<Longrightarrow> preserves I (count_items f xs done failed)"
  by (induction xs arbitrary: "done" failed)
    (auto simp: preserves_return split: option.split intro!: preserves_attempt)

lemma DeleteMemory_other: "i \<noteq> m_id (r_mem r) \<Longrightarrow> preserves (only_row r) (DeleteMemory G i)"
  by (rule DeleteMemory_preserves) (auto simp: only_row_def detach_delete_def list_all_iff)

text \<open>
  C11: the prune phase never takes a memory that is not stale.  However other writers interleave and
  whichever statements fail, a stored memory that was accessed, or whose decay score is not below the
  threshold, or that no reading of the clock finds older than the limit, is still stored, unchanged,
  afterwards, provided the other writers leave it alone.
\<close>

theorem phasePrune_spares:
  assumes "\<not> m_decay (toModel r) < cc_stale cfg \<or> m_access (toModel r) \<noteq> 0 \<or>
    (\<forall>n. \<not> dur_hours (time_sub (ge_clock G n) (m_created (toModel r))) / Fin 24 > f_of_int (cc_prune_days cfg))"
  shows "preserves (only_row r) (phasePrune (age_cons G) cfg)"
  unfolding preserves_def
proof (intro allI impI)
  have spared: "\<not> prunable cfg (ge_clock G n) (toModel r)" for n
    using assms by (auto simp: prunable_def Let_def)
  fix w assume w: "world_inv (only_row r) w"
  let ?f = "\<lambda>d. map (\<lambda>r. plain_ctx 1 (toModel r)) (take (nat (candidate_limit (sweep_filter [] 1000)))
     (sort_stable (candidate_less []) (filter (filter_cond (sweep_filter [] 1000)) (d_mems d))))"
  have q: "cn_query (age_cons G) (sweep_filter [] 1000) = rows ?f"
    by (simp add: age_cons_def QueryMemories_def sweep_filter_def)
  obtain x w1 where r: "rows ?f w = (x, w1)" by fastforce
  note w1 = rows_keeps_inv [OF r w]
  show "world_inv (only_row r) (snd (phasePrune (age_cons G) cfg w))"
  proof (cases x)
    case (Inr ctxs)
    obtain d where d: "only_row r d" "ctxs = ?f d" using rows_acknowledged [OF r [unfolded Inr] w] by (elim exE conjE)
    have other: "m_id m \<noteq> m_id (r_mem r)" if "m \<in> mc_memory ` set ctxs" "prunable cfg (ge_clock G n) m" for m n
    proof
      note mem = that
      assume i: "m_id m = m_id (r_mem r)"
      have "set ctxs \<subseteq> (\<lambda>r. plain_ctx 1 (toModel r)) ` set (d_mems d)"
        unfolding d(2) by (auto dest: in_set_takeD)
      then have "mc_memory ` set ctxs \<subseteq> mc_memory ` (\<lambda>r. plain_ctx 1 (toModel r)) ` set (d_mems d)" by (rule image_mono)
      then have "mc_memory ` set ctxs \<subseteq> toModel ` set (d_mems d)" by (simp add: image_image plain_ctx_def)
      then obtain r' where r': "r' \<in> set (d_mems d)" "m = toModel r'" using mem(1) by blast
      then have "r' = r" using d(1) i by (auto simp: only_row_def list_all_iff)
      then show False using spared [of n] that(2) r'(2) by simp
    qed
    have c: "preserves (only_row r) (count_items (\<lambda>m. cn_delete (age_cons G) (m_id m))
       (filter (prunable cfg (ge_clock G n)) (map mc_memory ctxs)) 0 0)" for n
    proof (rule preserves_count_items)
      fix m assume "m \<in> set (filter (prunable cfg (ge_clock G n)) (map mc_memory ctxs))"
      then have "m_id m \<noteq> m_id (r_mem r)" using other [of m n] by simp
      then show "preserves (only_row r) (cn_delete (age_cons G) (m_id m))"
        unfolding age_cons_def by (simp add: DeleteMemory_other)
    qed
    have t: "world_inv (only_row r) (w1\<lparr>w_tick := Suc (w_tick w1)\<rparr>)" using w1 by (simp add: world_inv_def)
    have "phasePrune (age_cons G) cfg w = count_items (\<lambda>m. cn_delete (age_cons G) (m_id m))
       (filter (prunable cfg (ge_clock G (w_tick w1))) (map mc_memory ctxs)) 0 0 (w1\<lparr>w_tick := Suc (w_tick w1)\<rparr>)"
      using r Inr by (simp add: phasePrune_def q draw_def) (simp add: age_cons_def)
    then show ?thesis using preservesD [OF c t] by simp
  qed (use r w1 in \<open>simp add: phasePrune_def q and_then_def\<close>)
qed

lemma phasePrune_spares_witness:
  "preserves (only_row \<lparr>r_mem = sample_memory 1 ''semantic'' ''x''\<lparr>m_access := 1\<rparr>, r_hash = ContentHash ''x''\<rparr>)
     (phasePrune (age_cons sample_genv) DefaultConsolidationConfig)"
  by (rule phasePrune_spares) (simp add: toModel_def sample_memory_def)

section \<open>How a run ends\<close>

definition phase_filter :: "phase \<Rightarrow> query_filter" where
  "phase_filter p = (case p of MergePhase \<Rightarrow> sweep_filter [MemoryTypeSemantic] 100 | _ \<Rightarrow> sweep_filter [] 1000)"

lemma answers_merge_edges: "answers (merge_edges R ps merged failed)"
  by (induction ps arbitrary: merged failed) (auto intro!: answers_intros)

lemma answers_count_items: "answers (count_items f xs done failed)"
  by (induction xs arbitrary: "done" failed) (auto intro!: answers_intros)

lemma and_then_answers_Inl:
  assumes "and_then m k s = (Inl e, s')" "\<And>x. answers (k x)"
  shows "m s = (Inl e, s')"
proof (cases "m s")
  case (Pair r s1)
  show ?thesis
  proof (cases r)
    case (Inr x)
    obtain y s2 where "k x s1 = (Inr y, s2)" using assms(2) by (rule answersE)
    then show ?thesis using assms(1) Pair Inr by simp
  qed (use assms(1) Pair in simp)
qed

lemma phase_fails:
  "phaseMerge R s = (Inl e, s') \<Longrightarrow> cn_query R (phase_filter MergePhase) s = (Inl e, s')"
  "phaseDecay R cfg s = (Inl e, s') \<Longrightarrow> cn_query R (phase_filter DecayPhase) s = (Inl e, s')"
  "phasePrune R cfg s = (Inl e, s') \<Longrightarrow> cn_query R (phase_filter PrunePhase) s = (Inl e, s')"
  by (auto simp: phaseMerge_def phaseDecay_def phasePrune_def phase_filter_def
      intro: and_then_answers_Inl answers_intros answers_merge_edges answers_count_items)

lemma degradedErr_iff: "degradedErr r \<longleftrightarrow> Attempted r < 10 * Failures r"
proof (cases "Attempted r = 0")
  case False
  then show ?thesis
    by (simp add: degradedErr_def maxFailureRatio_def f_of_nat_def f64_consts Let_def field_simps not_le)
qed (simp add: degradedErr_def Attempted_def)


end
