(* ===== verification/Abstract.thy ===== *)
theory Abstract
  imports Service Consolidation
begin

text \<open>
  Abstract specifications: the graph a client of the repository sees, which the statements of
  \<^verbatim>\<open>internal/graph\<close> implement, and the number of requests the write path sends to its embedding
  provider.
\<close>

section \<open>The graph behind the repository\<close>

text \<open>Labelled nodes under identifiers, and arrows, at most one per pair of nodes and relationship.\<close>

record agraph =
  ag_node :: "uuid \<rightharpoonup> string \<times> memory_type \<times> string \<times> string list"
  ag_arrows :: "(uuid \<times> relationship_type \<times> uuid) set"

definition node_label :: "memory \<Rightarrow> string \<times> memory_type \<times> string \<times> string list" where
  "node_label m = (m_content m, m_type m, m_project m, m_tags m)"

definition ag_create :: "memory \<Rightarrow> agraph \<Rightarrow> agraph" where
  "ag_create m g = (if ag_node g (m_id m) = None then g\<lparr>ag_node := (ag_node g)(m_id m \<mapsto> node_label m)\<rparr> else g)"

definition ag_connect :: "edge \<Rightarrow> agraph \<Rightarrow> agraph option" where
  "ag_connect e g =
     (if rel_valid (e_rel e) \<and> json_number (e_weight e) \<and> ag_node g (e_from e) \<noteq> None \<and> ag_node g (e_to e) \<noteq> None
      then Some (g\<lparr>ag_arrows := insert (triple_of e) (ag_arrows g)\<rparr>) else None)"

definition ag_delete :: "uuid \<Rightarrow> agraph \<Rightarrow> agraph" where
  "ag_delete i g =
     (if ag_node g i = None then g
      else \<lparr>ag_node = (ag_node g)(i := None), ag_arrows = {(a, r, b) \<in> ag_arrows g. a \<noteq> i \<and> b \<noteq> i}\<rparr>)"

text \<open>The abstraction: the first row under an identifier, the edges as triples.\<close>

definition graph_of :: "db \<Rightarrow> agraph" where
  "graph_of d =
     \<lparr>ag_node = (\<lambda>i. map_option (\<lambda>r. node_label (r_mem r)) (find (\<lambda>r. m_id (r_mem r) = i) (d_mems d))),
      ag_arrows = triple_of ` set (d_edges d)\<rparr>"

lemma graph_of_node: "ag_node (graph_of d) i = None \<longleftrightarrow> \<not> is_mem d i"
  by (auto simp: graph_of_def is_mem_def list_ex_iff find_None_iff)

lemma graph_of_entities [simp]: "graph_of (d\<lparr>d_entities := ns\<rparr>) = graph_of d" "graph_of (d\<lparr>d_vecs := vs\<rparr>) = graph_of d"
  by (simp_all add: graph_of_def)

lemma find_filter_other: "find (\<lambda>r. f r = i) (filter (\<lambda>r. f r \<noteq> j) xs) = (if i = j then None else find (\<lambda>r. f r = i) xs)"
  by (induction xs) auto

lemma graph_of_detach: "graph_of (detach_delete i d) = ag_delete i (graph_of d)"
proof (cases "is_mem d i")
  case True
  then have "ag_node (graph_of d) i \<noteq> None" by (simp add: graph_of_node)
  then show ?thesis using True
    by (auto simp: ag_delete_def graph_of_def detach_delete_def find_filter_other triple_of_def fun_eq_iff)
next
  case False
  then have "filter (\<lambda>r. m_id (r_mem r) \<noteq> i) (d_mems d) = d_mems d"
    by (auto simp: is_mem_def list_ex_iff filter_id_conv)
  moreover have "ag_node (graph_of d) i = None" using False by (simp add: graph_of_node)
  ultimately show ?thesis using False by (simp add: ag_delete_def detach_delete_def graph_of_def)
qed

lemma find_append: "find P (xs @ ys) = (case find P xs of None \<Rightarrow> find P ys | Some x \<Rightarrow> Some x)"
  by (induction xs) auto

lemma graph_of_create:
  "m_id (r_mem r) = m_id m \<Longrightarrow> node_label (r_mem r) = node_label m \<Longrightarrow>
     graph_of (d\<lparr>d_mems := d_mems d @ [r]\<rparr>) = ag_create m (graph_of d)"
  by (auto simp: ag_create_def graph_of_def find_append fun_eq_iff split: option.split)

lemma same_triple_iff: "same_triple e f \<longleftrightarrow> triple_of e = triple_of f"
  by (simp add: same_triple_def triple_of_def)

lemma merge_edge_triples: "triple_of ` set (merge_edge e es) = insert (triple_of e) (triple_of ` set es)"
proof (cases "list_ex (same_triple e) es")
  case True
  then show ?thesis by (auto simp: merge_edge_def list_ex_iff same_triple_iff intro: rev_image_eqI)
qed (simp add: merge_edge_def, simp add: triple_of_def)

lemma DeleteMemory_graph:
  assumes "w_sched w = []"
  shows "graph_of (w_db (snd (DeleteMemory G i w))) = ag_delete i (graph_of (w_db w))"
proof -
  let ?w = "w\<lparr>w_db := (w_db w)\<lparr>d_vecs := filter (\<lambda>v. v_id v \<noteq> i) (d_vecs (w_db w))\<rparr>\<rparr>"
  have s: "w_sched ?w = []" using assms by simp
  have "\<exists>r. GetMemoryEntities G [i] ?w = (r, ?w)"
    using s by (cases "uuidLiteralList G [i]") (simp_all add: GetMemoryEntities_def with_ids_def rows_idle fail_op_def)
  then obtain r where g: "GetMemoryEntities G [i] ?w = (r, ?w)" ..
  have o: "graph_of (w_db (snd (deleteOrphanedEntities es v))) = graph_of (w_db v)" if "w_sched v = []" for es v
    using that by (simp add: deleteOrphanedEntities_def return_op_def exec_idle)
  have "graph_of (detach_delete i (w_db ?w)) = ag_delete i (graph_of (w_db w))"
    by (simp add: graph_of_detach)
  then show ?thesis
    using assms s o by (simp add: DeleteMemory_def exec_idle and_then_def g Let_def return_op_def)
qed


section \<open>Requests to the embedding provider\<close>

text \<open>A network that answers as it likes and counts its requests.\<close>

definition counting :: "(nat \<Rightarrow> string \<Rightarrow> string \<Rightarrow> json \<Rightarrow> http_reply) \<Rightarrow> nat net" where
  "counting N url key body n = (N n url key body, Suc n)"

definition chunks :: "nat \<Rightarrow> nat \<Rightarrow> nat" where "chunks n k = (n + (k - 1)) div k"

lemma post_counts: "snd (post (counting N) url auth body dec k) = Suc k"
  by (simp add: post_def counting_def split: http_reply.split option.split)

lemma and_then_snd: "snd (and_then m k s) = (case m s of (Inl e, s') \<Rightarrow> s' | (Inr x, s') \<Rightarrow> snd (k x s'))"
  by (simp add: and_then_def split: prod.split sum.split)

lemma Embed_counts: "snd (Embed (counting N) e t k) = k + (case e of BagOfWords w \<Rightarrow> 0 | _ \<Rightarrow> 1)"
  by (simp add: Embed_def http_Embed_def post_counts return_op_def split: embedder.split)

lemma counts_and_then:
  assumes "\<And>k. snd (m k) = Suc k" "\<And>x k. snd (f x k) = k"
  shows "snd (and_then m f k) = Suc k"
proof (cases "m k")
  case (Pair r s)
  then show ?thesis using assms(1) [of k] assms(2) by (cases r) (simp_all add: and_then_snd)
qed

lemma one_chunk:
  assumes "texts \<noteq> []" "length texts \<le> maxBatchSize"
  shows "snd (EmbedBatch (counting N) (Batch b) texts k) = Suc k"
proof -
  have c: "embed_chunks (counting N) b [] = return_op []" by (simp add: embed_chunks.simps)
  have e: "snd (embedChunk (counting N) b texts k) = Suc k" for k
    unfolding embedChunk_def by (rule counts_and_then) (simp_all add: post_counts return_op_def fail_op_def)
  have "snd (embed_chunks (counting N) b texts k) = Suc k"
    unfolding embed_chunks.simps [of "counting N" b texts] using assms
    by (simp only: if_False drop_all take_all c) (rule counts_and_then [OF e], simp add: and_then_def return_op_def)
  then show ?thesis using assms(1) by (simp add: EmbedBatch_def batch_EmbedBatch_def)
qed

text \<open>The requests for one batch of the loop, and for the whole loop.\<close>

definition batch_of :: "embedder \<Rightarrow> nat" where "batch_of e = (if is_batch e then embedBatchSize else 1)"

definition requests :: "embedder \<Rightarrow> nat \<Rightarrow> nat" where
  "requests e n = (case e of BagOfWords w \<Rightarrow> 0 | Http h \<Rightarrow> n | Batch b \<Rightarrow> chunks n embedBatchSize)"

lemma batch_counts:
  assumes "texts \<noteq> []" "length texts \<le> batch_of e"
  shows "snd (EmbedBatch (counting N) e texts k) = k + (case e of BagOfWords w \<Rightarrow> 0 | _ \<Rightarrow> 1)"
proof (cases e)
  case (Batch b)
  then show ?thesis using one_chunk [OF assms(1), of N b k] assms(2)
    by (simp add: batch_of_def is_batch_def embedBatchSize_def maxBatchSize_def)
next
  case (BagOfWords w)
  then obtain t where t: "texts = [t]" using assms by (cases texts) (auto simp: batch_of_def is_batch_def)
  show ?thesis by (simp add: t BagOfWords EmbedBatch_def and_then_snd Embed_def return_op_def)
next
  case (Http h)
  then obtain t where t: "texts = [t]" using assms by (cases texts) (auto simp: batch_of_def is_batch_def)
  have "snd (embed_each (counting N) e [t] k) = Suc k"
    unfolding embed_each.simps by (rule counts_and_then) (simp_all add: Embed_counts Http and_then_def return_op_def)
  then show ?thesis by (simp add: t Http EmbedBatch_def)
qed

lemma attempt_snd: "(\<And>x s. snd (f x s) = g s) \<Longrightarrow> snd (attempt m f k) = g (snd (m k))"
  by (simp add: attempt_def split: prod.split sum.split)

lemma requests_step: "0 < n \<Longrightarrow> requests e n = (case e of BagOfWords w \<Rightarrow> 0 | _ \<Rightarrow> 1) + requests e (n - batch_of e)"
proof -
  assume "0 < n"
  then have "(n + 31) div 32 = Suc ((n - 32 + 31) div 32)"
    using div_add_self2 [of 32 "n - 1"] by (cases "n < 32") (simp_all add: div_nat_eqI)
  then show ?thesis using \<open>0 < n\<close>
    by (cases e) (auto simp: requests_def batch_of_def is_batch_def chunks_def embedBatchSize_def)
qed

lemma embed_loop_counts:
  assumes "eg_net E = counting N"
  shows "snd (embed_loop E e (batch_of e) ms f k) = k + requests e (length ms)"
proof (induction ms arbitrary: f k rule: length_induct)
  case (1 ms)
  have n: "0 < batch_of e" by (simp add: batch_of_def embedBatchSize_def)
  show ?case
  proof (cases "ms = []")
    case True
    then show ?thesis
      by (subst embed_loop.simps) (simp add: return_op_def requests_def chunks_def embedBatchSize_def split: embedder.split)
  next
    case False
    let ?rest = "drop (batch_of e) ms"
    have IH: "snd (embed_loop E e (batch_of e) ?rest g j) = j + requests e (length ?rest)" for g j
      using 1 False n by auto
    have "snd (EmbedBatch (counting N) e (map m_content (take (batch_of e) ms)) k) = k + (case e of BagOfWords w \<Rightarrow> 0 | _ \<Rightarrow> 1)"
      using False n by (intro batch_counts) auto
    moreover have "requests e (length ms) = (case e of BagOfWords w \<Rightarrow> 0 | _ \<Rightarrow> 1) + requests e (length ?rest)"
      using requests_step [of "length ms" e] False by simp
    ultimately show ?thesis using False n
      by (subst embed_loop.simps) (simp add: assms, subst attempt_snd [where g = "\<lambda>j. j + requests e (length ?rest)"],
        simp_all add: IH)
  qed
qed

text \<open>
  Embedding a conversation stops after a known number of requests.  For \<open>n\<close> memories the
  built-in embedder sends none, a provider without a batch endpoint gets exactly \<open>n\<close>, and one with
  a batch endpoint exactly one per 32, rounded up, however many of them fail: no failure is retried
  and none stops the loop.
\<close>

lemma embedExtracted_requests:
  "snd (embedExtracted (E\<lparr>eg_net := counting N, eg_embedder := emb\<rparr>) ms k) =
     k + (case emb of
            None \<Rightarrow> 0
          | Some (BagOfWords w) \<Rightarrow> 0
          | Some (Http h) \<Rightarrow> length ms
          | Some (Batch b) \<Rightarrow> (length ms + 31) div 32)"
proof (cases emb)
  case (Some e)
  have "(if is_batch e then embedBatchSize else 1) = batch_of e" by (simp add: batch_of_def)
  then show ?thesis
    using embed_loop_counts [of "E\<lparr>eg_net := counting N, eg_embedder := Some e\<rparr>" N e ms Map.empty k] Some
    by (simp add: embedExtracted_def return_op_def requests_def chunks_def embedBatchSize_def split: embedder.split)
qed (simp add: embedExtracted_def return_op_def)

end
