(* ===== verification/Auth.thy ===== *)
theory Auth
  imports DomainModel "HOL-Library.AList"
begin

text \<open>
  \<^verbatim>\<open>internal/auth\<close>: API keys (\<open>keys.go\<close>), their verification, the per-key token buckets and the two
  layers that enforce them (\<open>apikey.go\<close>).  A Go map is an association list in the order this
  iteration visits it, so a result proved for every list holds for every iteration order.  The
  mutex makes \<open>allowRequest\<close> one atomic step; concurrent requests are a sequence of such steps.
  \<open>crypto/rand\<close> supplies bytes, which are arguments; the gateway between the layers is a parameter.
\<close>

section \<open>keys.go\<close>

definition KeyPrefix :: string where "KeyPrefix = ''ctx0''"
definition secretBytes :: nat where "secretBytes = 32"
definition underscore :: char where "underscore = CHR ''_''"

record key =
  k_id :: string
  k_secret :: string

definition key_String :: "key \<Rightarrow> string" where
  "key_String k = KeyPrefix @ [underscore] @ k_id k @ [underscore] @ k_secret k"

definition Redacted :: "key \<Rightarrow> string" where
  "Redacted k = KeyPrefix @ [underscore] @ k_id k @ ''_...''"

text \<open>\<open>base64.RawURLEncoding\<close>: three bytes are four digits; a rest of one or two bytes is two or three.\<close>

definition b64_digit :: "nat \<Rightarrow> char" where
  "b64_digit n = (''ABCDEFGHIJKLMNOPQRSTUVWXYZabcdefghijklmnopqrstuvwxyz0123456789-_'' ! n)"

fun b64url :: "nat list \<Rightarrow> string" where
  "b64url (a # b # c # rest) =
     [b64_digit (a div 4), b64_digit (a mod 4 * 16 + b div 16), b64_digit (b mod 16 * 4 + c div 64),
      b64_digit (c mod 64)] @ b64url rest"
| "b64url [a, b] = [b64_digit (a div 4), b64_digit (a mod 4 * 16 + b div 16), b64_digit (b mod 16 * 4)]"
| "b64url [a] = [b64_digit (a div 4), b64_digit (a mod 4 * 16)]"
| "b64url [] = []"

text \<open>The two draws of \<open>rand.Read\<close>: \<open>None\<close> where the read fails, else that many bytes.\<close>

definition GenerateKey :: "nat list option \<Rightarrow> nat list option \<Rightarrow> key option" where
  "GenerateKey id_draw secret_draw =
     (case id_draw of None \<Rightarrow> None
      | Some i \<Rightarrow> (case secret_draw of None \<Rightarrow> None
          | Some s \<Rightarrow> Some \<lparr>k_id = hex_encode i, k_secret = b64url s\<rparr>))"

text \<open>\<open>strings.SplitN(s, sep, n)\<close> for a positive \<open>n\<close>.\<close>

fun str_splitn :: "char \<Rightarrow> nat \<Rightarrow> string \<Rightarrow> string list" where
  "str_splitn sep (Suc (Suc n)) s =
     (if sep \<in> set s
      then takeWhile (\<lambda>c. c \<noteq> sep) s # str_splitn sep (Suc n) (tl (dropWhile (\<lambda>c. c \<noteq> sep) s))
      else [s])"
| "str_splitn sep n s = [s]"

definition ParseKey :: "string \<Rightarrow> key option" where
  "ParseKey s =
     (let parts = str_splitn underscore 3 s in
      if length parts \<noteq> 3 \<or> parts ! 0 \<noteq> KeyPrefix \<or> parts ! 1 = [] \<or> parts ! 2 = [] then None
      else Some \<lparr>k_id = parts ! 1, k_secret = parts ! 2\<rparr>)"

definition HashKey :: "string \<Rightarrow> string" where "HashKey presented = hex_encode (sha256 presented)"

definition hashesEqual :: "string \<Rightarrow> string \<Rightarrow> bool" where "hashesEqual a b = (a = b)"

section \<open>The token bucket\<close>

record tokenBucket =
  b_tokens :: f64
  b_max :: f64
  b_rate :: f64
  b_last :: gtime

definition newTokenBucket :: "int \<Rightarrow> gtime \<Rightarrow> tokenBucket" where
  "newTokenBucket perMinute now =
     (let mx = f_of_int perMinute
      in \<lparr>b_tokens = mx, b_max = mx, b_rate = mx / Fin 60, b_last = now\<rparr>)"

definition allow :: "tokenBucket \<Rightarrow> gtime \<Rightarrow> bool \<times> tokenBucket" where
  "allow b now =
     (let elapsed = dur_seconds (time_sub now (b_last b));
          tokens = b_tokens b + elapsed * b_rate b;
          tokens = (if tokens > b_max b then b_max b else tokens)
      in if tokens < 1 then (False, b\<lparr>b_last := now, b_tokens := tokens\<rparr>)
         else (True, b\<lparr>b_last := now, b_tokens := tokens - 1\<rparr>))"

section \<open>The authenticator\<close>

definition defaultRateLimit :: int where "defaultRateLimit = 6000"
definition maxBuckets :: nat where "maxBuckets = 4096"

record auth =
  validKeys :: "(string \<times> string) list"
  rateLimit :: int
  buckets :: "(string \<times> tokenBucket) list"

definition key_identity :: "string \<Rightarrow> string" where
  "key_identity k =
     (case ParseKey k of Some parsed \<Rightarrow> k_id parsed | None \<Rightarrow> ''legacy-'' @ take 8 (HashKey k))"

definition add_key :: "string \<Rightarrow> (string \<times> string) list \<Rightarrow> (string \<times> string) list" where
  "add_key k valid =
     (let k = trim_space k in
      if k = [] then valid else AList.update (HashKey k) (key_identity k) valid)"

definition NewAPIKeyAuth :: "string list \<Rightarrow> int \<Rightarrow> auth" where
  "NewAPIKeyAuth keys limit =
     \<lparr>validKeys = fold add_key keys [],
      rateLimit = (if limit \<le> 0 then defaultRateLimit else limit), buckets = []\<rparr>"

definition verify :: "auth \<Rightarrow> string \<Rightarrow> string option" where
  "verify a presented =
     (if presented = [] then None
      else map_option snd (find (\<lambda>(stored, i). hashesEqual stored (HashKey presented)) (validKeys a)))"

text \<open>The scan for the idlest bucket: the first, in iteration order, of those with the least time.\<close>

fun idlest :: "(string \<times> tokenBucket) list \<Rightarrow> string \<Rightarrow> gtime \<Rightarrow> string" where
  "idlest [] oldestKey oldest = oldestKey"
| "idlest ((k, b) # bs) oldestKey oldest =
     (if oldestKey = [] \<or> b_last b < oldest then idlest bs k (b_last b) else idlest bs oldestKey oldest)"

definition evictIdlestLocked :: "(string \<times> tokenBucket) list \<Rightarrow> (string \<times> tokenBucket) list" where
  "evictIdlestLocked bs =
     (let oldestKey = idlest bs [] 0 in if oldestKey \<noteq> [] then AList.delete oldestKey bs else bs)"

text \<open>\<open>created\<close> is the clock read when a bucket is made, \<open>now\<close> the one read by \<open>allow\<close>.\<close>

definition allowRequest :: "auth \<Rightarrow> string \<Rightarrow> gtime \<Rightarrow> gtime \<Rightarrow> bool \<times> auth" where
  "allowRequest a k created now =
     (let (bs, bucket) =
        (case map_of (buckets a) k of
           Some b \<Rightarrow> (buckets a, b)
         | None \<Rightarrow>
             (if length (buckets a) \<ge> maxBuckets then evictIdlestLocked (buckets a) else buckets a,
              newTokenBucket (rateLimit a) created));
        (ok, bucket) = allow bucket now
      in (ok, a\<lparr>buckets := AList.update k bucket bs\<rparr>))"

definition retryAfterSeconds :: "auth \<Rightarrow> int" where
  "retryAfterSeconds a =
     (if rateLimit a \<le> 0 then 1
      else let secs = \<lceil>60 / real_of_int (rateLimit a)\<rceil> in if secs < 1 then 1 else secs)"

section \<open>The HTTP and the gRPC layer\<close>

definition publicPaths :: "string list" where
  "publicPaths = [''/livez'', ''/readyz'', ''/startupz'', ''/v1/health'', ''/metrics'']"

record http_request =
  h_path :: string
  h_key :: string
  h_marker :: "string option"
  h_authed :: bool

record grpc_request =
  g_method :: string
  g_keys :: "string list"
  g_gateway_keys :: "string list"
  g_markers :: "string list"
  g_authed :: bool

datatype http_outcome = Served http_request | Unauthorized | TooMany int

datatype grpc_outcome = Handled grpc_request | Unauthenticated | ResourceExhausted

text \<open>\<open>tok\<close> is \<open>rateLimitToken\<close>, drawn once per process; it is empty when the draw failed.\<close>

definition HTTPMiddleware :: "string \<Rightarrow> auth \<Rightarrow> gtime \<Rightarrow> gtime \<Rightarrow> http_request \<Rightarrow> http_outcome \<times> auth" where
  "HTTPMiddleware tok a created now r =
     (if h_path r \<in> set publicPaths then
        (case verify a (h_key r) of
           None \<Rightarrow> (Served r, a)
         | Some keyID \<Rightarrow>
             let (ok, a) = allowRequest a keyID created now
             in (Served (if ok then r\<lparr>h_authed := True, h_marker := Some tok\<rparr> else r), a))
      else if length (validKeys a) = 0 then (Served r, a)
      else case verify a (h_key r) of
        None \<Rightarrow> (Unauthorized, a)
      | Some keyID \<Rightarrow>
          let (ok, a) = allowRequest a keyID created now
          in if \<not> ok then (TooMany (retryAfterSeconds a), a)
             else (Served (r\<lparr>h_marker := Some tok\<rparr>), a))"

definition alreadyRateLimited :: "string \<Rightarrow> grpc_request \<Rightarrow> bool" where
  "alreadyRateLimited tok g =
     (if length (g_markers g) = 0 \<or> tok = [] then False else g_markers g ! 0 = tok)"

definition apiKeyFromMetadata :: "grpc_request \<Rightarrow> string" where
  "apiKeyFromMetadata g =
     (let keys = (if length (g_keys g) = 0 then g_gateway_keys g else g_keys g)
      in if length keys = 0 then [] else keys ! 0)"

definition healthMethod :: string where "healthMethod = ''/kora.v1.HealthService/Health''"

definition UnaryInterceptor :: "string \<Rightarrow> auth \<Rightarrow> gtime \<Rightarrow> gtime \<Rightarrow> grpc_request \<Rightarrow> grpc_outcome \<times> auth" where
  "UnaryInterceptor tok a created now g =
     (if g_method g = healthMethod then
        (case verify a (apiKeyFromMetadata g) of
           None \<Rightarrow> (Handled g, a)
         | Some keyID \<Rightarrow>
             if alreadyRateLimited tok g then (Handled (g\<lparr>g_authed := True\<rparr>), a)
             else let (ok, a) = allowRequest a keyID created now
                  in (Handled (if ok then g\<lparr>g_authed := True\<rparr> else g), a))
      else if length (validKeys a) = 0 then (Handled g, a)
      else
        let presented = apiKeyFromMetadata g in
        if presented = [] then (Unauthenticated, a)
        else case verify a presented of
          None \<Rightarrow> (Unauthenticated, a)
        | Some keyID \<Rightarrow>
            if alreadyRateLimited tok g then (Handled g, a)
            else let (ok, a) = allowRequest a keyID created now
                 in if ok then (Handled g, a) else (ResourceExhausted, a))"

section \<open>Keys: round trip\<close>

lemma takeWhile_dropWhile_sep:
  "x \<notin> set xs \<Longrightarrow> takeWhile (\<lambda>c. c \<noteq> x) (xs @ x # ys) = xs"
  "x \<notin> set xs \<Longrightarrow> dropWhile (\<lambda>c. c \<noteq> x) (xs @ x # ys) = x # ys"
  by (induction xs) auto

lemma splitn_key:
  "underscore \<notin> set i \<Longrightarrow> str_splitn underscore 3 (key_String \<lparr>k_id = i, k_secret = s\<rparr>) = [KeyPrefix, i, s]"
  using takeWhile_dropWhile_sep [of underscore i s] takeWhile_dropWhile_sep [of underscore KeyPrefix "i @ underscore # s"]
  by (simp add: key_String_def eval_nat_numeral) (simp add: KeyPrefix_def underscore_def)

lemma hex_encode_no_underscore: "\<forall>b \<in> set bs. b < 256 \<Longrightarrow> underscore \<notin> set (hex_encode bs)"
  using hex_encode_hex [of bs underscore] by (auto simp: is_hex_lower_def is_digit_def underscore_def code_of_def)

lemma b64url_eq_Nil: "b64url bs = [] \<longleftrightarrow> bs = []"
  by (induction bs rule: b64url.induct) auto

text \<open>
  C27: a generated key survives its wire format.  Whatever bytes the two draws return (the id's and
  the secret's, neither empty), parsing the rendered key gives the key back, although the secret's
  alphabet contains the separator; and a failed draw gives no key.
\<close>

theorem ParseKey_GenerateKey:
  shows "(GenerateKey d e = Some k \<and> d = Some i \<and> e = Some s \<and> (\<forall>b \<in> set i. b < 256) \<and> i \<noteq> [] \<and> s \<noteq> [] \<longrightarrow>
      ParseKey (key_String k) = Some k) \<and>
      (GenerateKey d e = None \<longleftrightarrow> d = None \<or> e = None)"
proof (rule conjI)
  show "GenerateKey d e = Some k \<and> d = Some i \<and> e = Some s \<and> (\<forall>b \<in> set i. b < 256) \<and> i \<noteq> [] \<and> s \<noteq> [] \<longrightarrow>
      ParseKey (key_String k) = Some k"
  proof (intro impI, elim conjE)
    assume k: "GenerateKey d e = Some k" "d = Some i" "e = Some s" "\<forall>b \<in> set i. b < 256" "i \<noteq> []" "s \<noteq> []"
    then have "k = \<lparr>k_id = hex_encode i, k_secret = b64url s\<rparr>" by (simp add: GenerateKey_def)
    moreover have "hex_encode i \<noteq> []"
      using k(5) length_hex_encode [of i] by (metis length_0_conv mult_is_0 zero_neq_numeral)
    ultimately show "ParseKey (key_String k) = Some k"
      using k splitn_key [OF hex_encode_no_underscore [OF k(4)], of "b64url s"]
      by (simp add: ParseKey_def b64url_eq_Nil)
  qed
  show "GenerateKey d e = None \<longleftrightarrow> d = None \<or> e = None"
    by (auto simp: GenerateKey_def split: option.splits)
qed

lemma ParseKey_GenerateKey_witness:
  "ParseKey (key_String \<lparr>k_id = hex_encode [1, 171], k_secret = b64url [255, 255, 255]\<rparr>) =
     Some \<lparr>k_id = hex_encode [1, 171], k_secret = b64url [255, 255, 255]\<rparr>"
  by (rule ParseKey_GenerateKey [THEN conjunct1, rule_format, where d = "Some [1, 171]" and e = "Some [255, 255, 255]"
        and i = "[1, 171]" and s = "[255, 255, 255]"]) (simp add: GenerateKey_def)

section \<open>Verification\<close>

lemma add_key_keys: "fst ` set (add_key k valid) =
    (if trim_space k = [] then {} else {HashKey (trim_space k)}) \<union> fst ` set valid"
  by (auto simp: add_key_def Let_def update_keys dom_update [simplified]) 

lemma fold_add_key_keys:
  "fst ` set (fold add_key keys valid) = {HashKey (trim_space k) | k. k \<in> set keys \<and> trim_space k \<noteq> []} \<union> fst ` set valid"
proof (induction keys arbitrary: valid)
  case (Cons k keys)
  show ?case unfolding fold_simps comp_def Cons add_key_keys by auto
qed simp

text \<open>
  A presented key is accepted exactly when it is not empty and hashes like one of the
  configured keys, trimmed and not blank: every configured key is accepted, and a string is
  accepted only with a configured key's hash.
\<close>

lemma verify_configured:
  "verify (NewAPIKeyAuth keys limit) presented \<noteq> None \<longleftrightarrow>
     presented \<noteq> [] \<and> (\<exists>k \<in> set keys. trim_space k \<noteq> [] \<and> HashKey presented = HashKey (trim_space k))"
proof -
  let ?v = "fold add_key keys []"
  have "find (\<lambda>(stored, i). hashesEqual stored (HashKey presented)) ?v \<noteq> None \<longleftrightarrow> HashKey presented \<in> fst ` set ?v"
    by (force simp: find_None_iff hashesEqual_def)
  also have "\<dots> \<longleftrightarrow> (\<exists>k \<in> set keys. trim_space k \<noteq> [] \<and> HashKey presented = HashKey (trim_space k))"
    unfolding fold_add_key_keys by auto
  finally show ?thesis by (auto simp: verify_def NewAPIKeyAuth_def)
qed

section \<open>The token bucket\<close>

text \<open>What a bucket of \<open>M\<close> requests per minute satisfies, and how many tokens it has at a time.\<close>

definition wf_bucket :: "real \<Rightarrow> tokenBucket \<Rightarrow> bool" where
  "wf_bucket M b = (b_max b = Fin M \<and> b_rate b = Fin (M / 60) \<and>
     (\<exists>x. b_tokens b = Fin x \<and> 0 \<le> x \<and> x \<le> M))"

definition refill :: "real \<Rightarrow> gtime \<Rightarrow> gtime \<Rightarrow> real" where
  "refill M t now = M / 60 * (real_of_int (now - t) / 1000000000)"

definition tokens_at :: "real \<Rightarrow> tokenBucket \<Rightarrow> gtime \<Rightarrow> real" where
  "tokens_at M b t = min M (the_fin (b_tokens b) + refill M (b_last b) t)"

lemma refill_nonneg: "0 \<le> M \<Longrightarrow> t \<le> now \<Longrightarrow> 0 \<le> refill M t now"
  by (simp add: refill_def)

lemma refill_add: "refill M t u + refill M u v = refill M t v"
  by (simp add: refill_def field_simps)

lemma refill_same [simp]: "refill M t t = 0"
  by (simp add: refill_def)

lemma tokens_at_bounds: "wf_bucket M b \<Longrightarrow> b_last b \<le> t \<Longrightarrow> 0 \<le> tokens_at M b t"
  "tokens_at M b t \<le> M"
  by (auto simp: tokens_at_def wf_bucket_def intro!: add_nonneg_nonneg refill_nonneg)

lemma tokens_at_later: "0 \<le> M \<Longrightarrow> t \<le> u \<Longrightarrow> tokens_at M b u \<le> tokens_at M b t + refill M t u"
  using refill_add [of M "b_last b" t u] refill_nonneg [of M t u] by (simp add: tokens_at_def min_def)

lemma wf_newTokenBucket: "0 \<le> n \<Longrightarrow> wf_bucket (real_of_int n) (newTokenBucket n now)"
  by (simp add: wf_bucket_def newTokenBucket_def Let_def f_of_int_def)

lemma newTokenBucket_last [simp]: "b_last (newTokenBucket n now) = now"
  by (simp add: newTokenBucket_def Let_def)

lemma dur_seconds_le:
  "t \<le> now \<Longrightarrow> \<exists>e. dur_seconds (time_sub now t) = Fin e \<and> 0 \<le> e \<and> e \<le> real_of_int (now - t) / 1000000000"
proof -
  assume "t \<le> now"
  then have "0 \<le> time_sub now t" "time_sub now t \<le> now - t"
    by (auto simp: time_sub_def max_duration_def)
  then show ?thesis
    by (intro exI [of _ "real_of_int (time_sub now t) / 1000000000"])
      (auto simp: dur_seconds_def divide_right_mono simp flip: of_int_diff)
qed

lemma dur_seconds_exact:
  "\<bar>now - t\<bar> \<le> max_duration \<Longrightarrow> dur_seconds (time_sub now t) = Fin (real_of_int (now - t) / 1000000000)"
  by (simp add: dur_seconds_def time_sub_small)

text \<open>One request: the bucket stays well formed, pays for an admission, and never gains more than the refill.\<close>

lemma allow_step:
  assumes wf: "wf_bucket M b" and t: "b_last b \<le> now" and r: "allow b now = (ok, b')"
  shows "wf_bucket M b'" "b_last b' = now"
    "(if ok then 1 else 0) + the_fin (b_tokens b') \<le> tokens_at M b now"
proof -
  obtain x where x: "b_tokens b = Fin x" "0 \<le> x" "x \<le> M" and mx: "b_max b = Fin M" "b_rate b = Fin (M / 60)"
    using wf by (auto simp: wf_bucket_def)
  obtain e where e: "dur_seconds (time_sub now (b_last b)) = Fin e" "0 \<le> e"
    "e \<le> real_of_int (now - b_last b) / 1000000000" using dur_seconds_le [OF t] by blast
  define y where "y = min M (x + e * (M / 60))"
  have M0: "0 \<le> M" using x by linarith
  have y: "0 \<le> y" "y \<le> M" using x e M0 by (auto simp: y_def)
  have al: "allow b now = (if y < 1 then (False, b\<lparr>b_last := now, b_tokens := Fin y\<rparr>)
      else (True, b\<lparr>b_last := now, b_tokens := Fin (y - 1)\<rparr>))"
    by (simp add: allow_def Let_def e(1) x(1) mx y_def f64_consts min_def)
  have "e * (M / 60) \<le> refill M (b_last b) now"
    using mult_left_mono [OF e(3), of "M / 60"] M0 by (simp add: refill_def mult.commute)
  then have y_le: "y \<le> tokens_at M b now" by (simp add: y_def tokens_at_def x(1) min_def)
  show "wf_bucket M b'" "b_last b' = now"
    using r y mx unfolding al by (auto simp: wf_bucket_def split: if_splits)
  show "(if ok then 1 else 0) + the_fin (b_tokens b') \<le> tokens_at M b now"
    using r y_le unfolding al by (auto split: if_splits)
qed

lemma allow_refilled:
  assumes "wf_bucket M b" "b_last b \<le> now" "now - b_last b \<le> max_duration" "1 \<le> M"
    "1 \<le> refill M (b_last b) now"
  shows "fst (allow b now)"
proof -
  obtain x where x: "b_tokens b = Fin x" "0 \<le> x" "x \<le> M" and mx: "b_max b = Fin M" "b_rate b = Fin (M / 60)"
    using assms(1) by (auto simp: wf_bucket_def)
  have "\<bar>now - b_last b\<bar> \<le> max_duration" using assms(2,3) by simp
  then have e: "dur_seconds (time_sub now (b_last b)) = Fin (real_of_int (now - b_last b) / 1000000000)"
    by (rule dur_seconds_exact)
  have "1 \<le> x + real_of_int (now - b_last b) / 1000000000 * (M / 60)"
    using assms(5) x(2) by (simp add: refill_def mult.commute)
  then show ?thesis using assms(4) x(1) mx unfolding allow_def Let_def e by (auto simp: f64_consts)
qed

section \<open>Sequences of requests\<close>

text \<open>An event is a key identity with the two clock readings of its \<open>allowRequest\<close>.\<close>

type_synonym rl_event = "string \<times> gtime \<times> gtime"

fun serve :: "auth \<Rightarrow> rl_event list \<Rightarrow> bool list \<times> auth" where
  "serve a [] = ([], a)"
| "serve a ((k, created, now) # evs) =
     (let (ok, a) = allowRequest a k created now; (oks, a) = serve a evs in (ok # oks, a))"

text \<open>The clock never runs backwards.\<close>

fun clocked :: "gtime \<Rightarrow> rl_event list \<Rightarrow> bool" where
  "clocked t [] = True"
| "clocked t ((k, created, now) # evs) = (t \<le> created \<and> created \<le> now \<and> clocked now evs)"

fun end_time :: "gtime \<Rightarrow> rl_event list \<Rightarrow> gtime" where
  "end_time t [] = t"
| "end_time t ((k, created, now) # evs) = end_time now evs"

definition admitted :: "string \<Rightarrow> rl_event list \<Rightarrow> bool list \<Rightarrow> nat" where
  "admitted k evs oks = length (filter (\<lambda>(e, ok). ok \<and> fst e = k) (zip evs oks))"

definition auth_inv :: "gtime \<Rightarrow> auth \<Rightarrow> bool" where
  "auth_inv t a = (0 < rateLimit a \<and> distinct (map fst (buckets a)) \<and> length (buckets a) \<le> maxBuckets \<and>
     (\<forall>k b. map_of (buckets a) k = Some b \<longrightarrow>
        k \<noteq> [] \<and> wf_bucket (real_of_int (rateLimit a)) b \<and> b_last b \<le> t))"

lemma auth_inv_new: "auth_inv t (NewAPIKeyAuth keys limit)"
  by (simp add: auth_inv_def NewAPIKeyAuth_def defaultRateLimit_def)

lemma auth_inv_mono: "auth_inv t a \<Longrightarrow> t \<le> u \<Longrightarrow> auth_inv u a"
  unfolding auth_inv_def by fastforce

lemma length_update: "length (AList.update k v al) = (if k \<in> fst ` set al then length al else Suc (length al))"
  by (induction al) auto

lemma idlest_mem: "idlest bs k t = k \<or> idlest bs k t \<in> fst ` set bs"
proof (induction bs arbitrary: k t)
  case (Cons x bs)
  obtain k' b where x: "x = (k', b)" by (cases x)
  show ?case using Cons.IH [of k' "b_last b"] Cons.IH [of k t] unfolding x by auto
qed simp

lemma length_delete_key: "k \<in> fst ` set al \<Longrightarrow> length (AList.delete k al) < length al"
proof -
  assume "k \<in> fst ` set al"
  then obtain b where "(k, b) \<in> set al" by auto
  then show ?thesis unfolding AList.delete_eq by (rule length_filter_less) auto
qed

lemma evict_distinct: "distinct (map fst bs) \<Longrightarrow> distinct (map fst (evictIdlestLocked bs))"
  by (simp add: evictIdlestLocked_def Let_def distinct_delete)

lemma evict_map_of: "distinct (map fst bs) \<Longrightarrow> map_of (evictIdlestLocked bs) k = Some b \<Longrightarrow> map_of bs k = Some b"
  by (auto simp: evictIdlestLocked_def Let_def delete_conv' split: if_splits)

lemma idlest_le:
  "\<forall>(k, b) \<in> set bs. k \<noteq> [] \<Longrightarrow> k \<noteq> [] \<Longrightarrow>
     (idlest bs k t, b) \<in> insert (k, b0) (set bs) \<Longrightarrow> b_last b0 = t \<Longrightarrow> distinct (k # map fst bs) \<Longrightarrow>
     b_last b \<le> t \<and> (\<forall>(k', b') \<in> set bs. b_last b \<le> b_last b')"
proof (induction bs arbitrary: k t b0)
  case (Cons x bs)
  obtain k' b' where x: "x = (k', b')" by (cases x)
  show ?case
  proof (cases "b_last b' < t")
    case True
    then have i: "idlest (x # bs) k t = idlest bs k' (b_last b')" using Cons.prems x by simp
    have "idlest bs k' (b_last b') \<noteq> k"
      using idlest_mem [of bs k' "b_last b'"] Cons.prems(5) x by auto
    then have "(idlest bs k' (b_last b'), b) \<in> insert (k', b') (set bs)"
      using Cons.prems(3) x i by auto
    then have "b_last b \<le> b_last b' \<and> (\<forall>(k', b') \<in> set bs. b_last b \<le> b_last b')"
      by (intro Cons.IH [of k' "b_last b'" b']) (use Cons.prems x in auto)
    then show ?thesis using True x by auto
  next
    case False
    then have i: "idlest (x # bs) k t = idlest bs k t" using Cons.prems x by simp
    have "idlest bs k t \<noteq> k'"
      using idlest_mem [of bs k t] Cons.prems(5) x by auto
    then have "(idlest bs k t, b) \<in> insert (k, b0) (set bs)" using Cons.prems(3) x i by auto
    then have "b_last b \<le> t \<and> (\<forall>(k', b') \<in> set bs. b_last b \<le> b_last b')"
      by (intro Cons.IH [of k t b0]) (use Cons.prems x in auto)
    then show ?thesis using False x by auto
  qed
qed auto

text \<open>A full table loses exactly one bucket, the one idle longest.\<close>

lemma evict_idlest:
  assumes "bs \<noteq> []" "\<forall>(k, b) \<in> set bs. k \<noteq> []" "distinct (map fst bs)"
  shows "\<exists>k b. (k, b) \<in> set bs \<and> evictIdlestLocked bs = AList.delete k bs \<and>
    (\<forall>(k', b') \<in> set bs. b_last b \<le> b_last b') \<and> length (evictIdlestLocked bs) < length bs"
proof -
  obtain k0 b0 rest where bs: "bs = (k0, b0) # rest" using assms(1) by (cases bs) auto
  have i: "idlest bs [] 0 = idlest rest k0 (b_last b0)" by (simp add: bs)
  have mem: "idlest bs [] 0 \<in> fst ` set bs" using idlest_mem [of rest k0 "b_last b0"] by (auto simp: i bs)
  then obtain b where b: "(idlest bs [] 0, b) \<in> set bs" by auto
  then have "b_last b \<le> b_last b0 \<and> (\<forall>(k', b') \<in> set rest. b_last b \<le> b_last b')"
    by (intro idlest_le [of rest k0 "b_last b0" b b0]) (use assms i bs in auto)
  moreover have "idlest bs [] 0 \<noteq> []" using b assms(2) by auto
  ultimately show ?thesis
    using b mem length_delete_key [OF mem] by (auto simp: evictIdlestLocked_def Let_def bs)
qed

section \<open>The table of buckets over a sequence of requests\<close>

definition avail :: "string \<Rightarrow> auth \<Rightarrow> gtime \<Rightarrow> real" where
  "avail k a t =
     (let M = real_of_int (rateLimit a) in
      case map_of (buckets a) k of None \<Rightarrow> M | Some b \<Rightarrow> tokens_at M b t)"

lemma avail_bounds: "auth_inv t a \<Longrightarrow> 0 \<le> avail k a t" "avail k a t \<le> real_of_int (rateLimit a)"
  using tokens_at_bounds by (fastforce simp: avail_def Let_def auth_inv_def split: option.splits)+

text \<open>The bucket a request is charged to, and the table it is written back to.\<close>

lemma allowRequest_split:
  assumes inv: "auth_inv t a" and t: "t \<le> created" "created \<le> now" and k: "k \<noteq> []"
    and r: "allowRequest a k created now = (ok, a')"
  shows "\<exists>bs b b'. allow b now = (ok, b') \<and> a' = a\<lparr>buckets := AList.update k b' bs\<rparr> \<and>
    wf_bucket (real_of_int (rateLimit a)) b \<and> b_last b \<le> now \<and>
    (map_of (buckets a) k = Some b \<and> bs = buckets a \<or>
     map_of (buckets a) k = None \<and> b = newTokenBucket (rateLimit a) created \<and>
     bs = (if length (buckets a) \<ge> maxBuckets then evictIdlestLocked (buckets a) else buckets a))"
proof (cases "map_of (buckets a) k")
  case None
  let ?b = "newTokenBucket (rateLimit a) created"
  have "wf_bucket (real_of_int (rateLimit a)) ?b"
    using inv by (intro wf_newTokenBucket) (simp add: auth_inv_def)
  then show ?thesis using None r t by (auto simp: allowRequest_def Let_def split: prod.splits)
next
  case (Some b)
  then have "wf_bucket (real_of_int (rateLimit a)) b" "b_last b \<le> now"
    using inv t by (force simp: auth_inv_def)+
  then show ?thesis using Some r by (auto simp: allowRequest_def Let_def split: prod.splits)
qed

lemma auth_inv_step:
  assumes inv: "auth_inv t a" and t: "t \<le> created" "created \<le> now" and k: "k \<noteq> []"
    and r: "allowRequest a k created now = (ok, a')"
  shows "auth_inv now a'" "rateLimit a' = rateLimit a"
proof -
  obtain bs b b' where s: "allow b now = (ok, b')" "a' = a\<lparr>buckets := AList.update k b' bs\<rparr>"
      "wf_bucket (real_of_int (rateLimit a)) b" "b_last b \<le> now"
    and c: "map_of (buckets a) k = Some b \<and> bs = buckets a \<or> map_of (buckets a) k = None \<and>
      bs = (if length (buckets a) \<ge> maxBuckets then evictIdlestLocked (buckets a) else buckets a)"
    using allowRequest_split [OF assms] by blast
  have b': "wf_bucket (real_of_int (rateLimit a)) b'" "b_last b' = now" using allow_step s by blast+
  have d: "distinct (map fst (buckets a))" using inv by (simp add: auth_inv_def)
  have old: "map_of bs j = Some c \<Longrightarrow> map_of (buckets a) j = Some c" for j c
    using c evict_map_of [OF d] by (auto split: if_splits)
  have dist: "distinct (map fst bs)" using c d evict_distinct by (auto split: if_splits)
  have "length (evictIdlestLocked (buckets a)) < maxBuckets" if "length (buckets a) \<ge> maxBuckets"
  proof -
    have "length (buckets a) = maxBuckets" "buckets a \<noteq> []"
      using that inv by (auto simp: auth_inv_def maxBuckets_def)
    moreover have "\<forall>(k, b) \<in> set (buckets a). k \<noteq> []"
      using inv d by (auto simp: auth_inv_def)
    ultimately show ?thesis using evict_idlest [of "buckets a"] d by fastforce
  qed
  then have len: "length (AList.update k b' bs) \<le> maxBuckets"
    using c inv by (auto simp: length_update auth_inv_def map_of_eq_None_iff not_le split: if_splits
        dest!: map_of_SomeD) force+
  have "t \<le> now" using t by linarith
  then show "auth_inv now a'"
    using inv k b' len dist old unfolding s(2) auth_inv_def
    by (fastforce simp: update_conv' distinct_update split: if_splits)
  show "rateLimit a' = rateLimit a" by (simp add: s(2))
qed

text \<open>With room in the table, a request pays for its admission out of its own key's allowance.\<close>

lemma avail_step:
  assumes inv: "auth_inv t a" and t: "t \<le> created" "created \<le> now" and k: "k \<noteq> []"
    and room: "k \<in> fst ` set (buckets a) \<or> length (buckets a) < maxBuckets"
    and r: "allowRequest a k created now = (ok, a')"
  shows "(if ok \<and> k = j then 1 else 0) + avail j a' now \<le>
      avail j a t + refill (real_of_int (rateLimit a)) t now"
    "fst ` set (buckets a') = insert k (fst ` set (buckets a))"
proof -
  let ?M = "real_of_int (rateLimit a)"
  have M: "0 \<le> ?M" and tn: "t \<le> now" using inv t by (auto simp: auth_inv_def)
  obtain bs b b' where s: "allow b now = (ok, b')" "a' = a\<lparr>buckets := AList.update k b' bs\<rparr>"
      "wf_bucket ?M b" "b_last b \<le> now"
    and c: "map_of (buckets a) k = Some b \<and> bs = buckets a \<or> map_of (buckets a) k = None \<and>
      bs = (if length (buckets a) \<ge> maxBuckets then evictIdlestLocked (buckets a) else buckets a)"
    using allowRequest_split [OF inv t k r] by blast
  have bs: "bs = buckets a" using c room by (auto simp: map_of_eq_None_iff)
  then show "fst ` set (buckets a') = insert k (fst ` set (buckets a))"
    by (simp add: s(2) dom_update [simplified] update_keys)
  have st: "wf_bucket ?M b'" "b_last b' = now" "(if ok then 1 else 0) + the_fin (b_tokens b') \<le> tokens_at ?M b now"
    using allow_step [OF s(3,4,1)] by blast+
  show "(if ok \<and> k = j then 1 else 0) + avail j a' now \<le> avail j a t + refill ?M t now"
  proof (cases "k = j")
    case True
    have "avail j a' now \<le> the_fin (b_tokens b')"
      using True st(2) by (simp add: avail_def Let_def s(2) update_conv' tokens_at_def)
    moreover have "tokens_at ?M b now \<le> avail j a t + refill ?M t now"
      using c True tokens_at_later [OF M tn] tokens_at_bounds(2) [of ?M b now] refill_nonneg [OF M tn]
      by (auto simp: avail_def Let_def)
    ultimately show ?thesis using True st(3) by auto
  next
    case False
    then have "avail j a' now = avail j a now" by (simp add: avail_def Let_def s(2) bs update_conv')
    moreover have "avail j a now \<le> avail j a t + refill ?M t now"
      using tokens_at_later [OF M tn] refill_nonneg [OF M tn]
      by (auto simp: avail_def Let_def split: option.splits)
    ultimately show ?thesis using False by simp
  qed
qed

lemma serve_length: "length (fst (serve a evs)) = length evs"
  by (induction a evs rule: serve.induct) (auto simp: Let_def split: prod.splits)

lemma serve_inv:
  "auth_inv t a \<Longrightarrow> clocked t evs \<Longrightarrow> \<forall>e \<in> set evs. fst e \<noteq> [] \<Longrightarrow>
     auth_inv (end_time t evs) (snd (serve a evs)) \<and> rateLimit (snd (serve a evs)) = rateLimit a"
proof (induction a evs arbitrary: t rule: serve.induct)
  case (2 a k created now evs)
  obtain ok a' where r: "allowRequest a k created now = (ok, a')" by fastforce
  have "auth_inv now a'" "rateLimit a' = rateLimit a" using auth_inv_step [of t a] "2.prems" r by auto
  then show ?case using "2.IH" [OF r [symmetric] refl, of now] "2.prems" r by (auto simp: Let_def split: prod.splits)
qed simp

lemma serve_room:
  assumes "auth_inv t a" "clocked t evs" "finite K" "card K \<le> maxBuckets" "[] \<notin> K"
    and "\<forall>e \<in> set evs. fst e \<in> K" "fst ` set (buckets a) \<subseteq> K"
  shows "real (admitted j evs (fst (serve a evs))) + avail j (snd (serve a evs)) (end_time t evs) \<le>
      avail j a t + refill (real_of_int (rateLimit a)) t (end_time t evs) \<and>
    fst ` set (buckets (snd (serve a evs))) \<subseteq> K"
  using assms
proof (induction a evs arbitrary: t rule: serve.induct)
  case (1 a)
  then show ?case by (simp add: admitted_def)
next
  case (2 a k created now evs)
  obtain ok a' where r: "allowRequest a k created now = (ok, a')" by fastforce
  have kK: "k \<in> K" "k \<noteq> []" and tt: "t \<le> created" "created \<le> now" "clocked now evs"
    using "2.prems" by auto
  have "length (buckets a) = card (fst ` set (buckets a))"
    using "2.prems"(1) distinct_card [of "map fst (buckets a)"] by (simp add: auth_inv_def)
  moreover have "card (fst ` set (buckets a)) < card K" if "k \<notin> fst ` set (buckets a)"
    using that kK "2.prems"(3,7) by (intro psubset_card_mono) auto
  ultimately have room: "k \<in> fst ` set (buckets a) \<or> length (buckets a) < maxBuckets"
    using "2.prems"(4) by (cases "k \<in> fst ` set (buckets a)") auto
  note step = avail_step [OF "2.prems"(1) tt(1,2) kK(2) room r]
  have inv': "auth_inv now a'" "rateLimit a' = rateLimit a"
    using auth_inv_step [OF "2.prems"(1) tt(1,2) kK(2) r] by auto
  have "fst ` set (buckets a') \<subseteq> K" using step(2) kK "2.prems"(7) by simp
  then have ih: "real (admitted j evs (fst (serve a' evs))) + avail j (snd (serve a' evs)) (end_time now evs) \<le>
      avail j a' now + refill (real_of_int (rateLimit a')) now (end_time now evs) \<and>
      fst ` set (buckets (snd (serve a' evs))) \<subseteq> K"
    using "2.IH" [OF r [symmetric] refl inv'(1) tt(3)] "2.prems" by auto
  have e: "fst (serve a ((k, created, now) # evs)) = ok # fst (serve a' evs)"
    "snd (serve a ((k, created, now) # evs)) = snd (serve a' evs)"
    using r by (auto simp: Let_def split: prod.splits)
  have "admitted j ((k, created, now) # evs) (ok # fst (serve a' evs)) =
      (if ok \<and> k = j then 1 else 0) + admitted j evs (fst (serve a' evs))"
    by (simp add: admitted_def)
  then show ?case
    using ih step(1) [of j] inv'(2) refill_add [of "real_of_int (rateLimit a)" t now "end_time now evs"]
    unfolding e by (auto split: if_splits)
qed

section \<open>Properties of the limiter\<close>

lemma serve_from_new_inv:
  assumes "clocked t pre" "\<forall>e \<in> set pre. fst e \<noteq> []"
  shows "auth_inv (end_time t pre) (snd (serve (NewAPIKeyAuth keys limit) pre))"
    "rateLimit (snd (serve (NewAPIKeyAuth keys limit) pre)) = (if limit \<le> 0 then 6000 else limit)"
  using serve_inv [OF auth_inv_new assms, of keys limit] by (auto simp: NewAPIKeyAuth_def defaultRateLimit_def)

text \<open>
  C8: the rate limit holds in every window.  With at most 4096 key identities in use, from any state
  the limiter reaches, and however the requests of the keys interleave, the number of requests of
  one key admitted over a window of \<open>T\<close> seconds is at most the per-minute limit (the burst) plus
  limit/60 per second of the window.
\<close>

theorem rate_limit_window:
  fixes keys :: "string list" and limit start :: int and pre win :: "rl_event list"
  assumes "clocked start (pre @ win)" "finite K" "card K \<le> 4096" "[] \<notin> K" "\<forall>e \<in> set (pre @ win). fst e \<in> K"
  defines "a \<equiv> snd (serve (NewAPIKeyAuth keys limit) pre)"
    and "L \<equiv> real_of_int (if limit \<le> 0 then 6000 else limit)"
    and "T \<equiv> real_of_int (end_time (end_time start pre) win - end_time start pre) / 1000000000"
  shows "real (admitted k win (fst (serve a win))) \<le> L + L / 60 * T"
proof -
  have cl: "clocked start pre \<and> clocked (end_time start pre) win"
    using assms(1) by (induction start pre rule: clocked.induct) auto
  have "\<forall>e \<in> set (pre @ win). fst e \<noteq> []" using assms(4,5) by metis
  then have ne: "\<forall>e \<in> set pre. fst e \<noteq> []" "\<forall>e \<in> set win. fst e \<noteq> []" by simp_all
  note inv = serve_from_new_inv [of start pre keys limit, OF conjunct1 [OF cl] ne(1), folded a_def]
  have "fst ` set (buckets a) \<subseteq> K"
    using serve_room [OF auth_inv_new [of start keys limit] conjunct1 [OF cl] assms(2) _ assms(4)] assms(3,5)
    unfolding a_def by (auto simp: NewAPIKeyAuth_def maxBuckets_def)
  then have "real (admitted k win (fst (serve a win))) + avail k (snd (serve a win)) (end_time (end_time start pre) win)
      \<le> avail k a (end_time start pre) + refill (real_of_int (rateLimit a)) (end_time start pre) (end_time (end_time start pre) win)"
    using serve_room [OF inv(1) conjunct2 [OF cl] assms(2) _ assms(4), of k] assms(3,5)
    by (auto simp: maxBuckets_def)
  moreover have "0 \<le> avail k (snd (serve a win)) (end_time (end_time start pre) win)"
    using serve_inv [OF inv(1) conjunct2 [OF cl] ne(2)] by (intro avail_bounds(1)) auto
  ultimately show ?thesis
    using avail_bounds(2) [of k a "end_time start pre"] inv(2) by (simp add: refill_def L_def T_def)
qed

lemma rate_limit_window_witness:
  "real (admitted ''k1'' [(''k1'', 0, 0), (''k2'', 0, 0), (''k1'', 1, 1)]
     (fst (serve (NewAPIKeyAuth [''a''] 60) [(''k1'', 0, 0), (''k2'', 0, 0), (''k1'', 1, 1)])))
   \<le> 60 + 60 / 60 * (1 / 1000000000)"
  using rate_limit_window [of 0 "[]" "[(''k1'', 0, 0), (''k2'', 0, 0), (''k1'', 1, 1)]" "{''k1'', ''k2''}"
      "''k1''" "[''a'']" 60] by simp

text \<open>
  The table of buckets never holds more than 4096 entries, one per key, whatever sequence of
  requests arrives; and when a new key finds it full, exactly one entry is dropped first, one with
  the least recent request.
\<close>

lemma bucket_table_bounded:
  fixes keys :: "string list" and limit start :: int and evs :: "rl_event list"
  assumes "clocked start evs" "\<forall>e \<in> set evs. fst e \<noteq> []"
  defines "a \<equiv> snd (serve (NewAPIKeyAuth keys limit) evs)"
  shows "(length (buckets a) \<le> 4096) \<and>
      (distinct (map fst (buckets a))) \<and>
      (length (buckets a) = 4096 \<longrightarrow> (\<exists>v b. (v, b) \<in> set (buckets a) \<and>
      evictIdlestLocked (buckets a) = AList.delete v (buckets a) \<and> (\<forall>(k, c) \<in> set (buckets a). b_last b \<le> b_last c)))"
proof (rule conjI3)
  note inv = serve_from_new_inv(1) [OF assms(1,2), of keys limit, folded a_def]
  then show "length (buckets a) \<le> 4096" "distinct (map fst (buckets a))"
    by (simp_all add: auth_inv_def maxBuckets_def)
  have "\<forall>(k, b) \<in> set (buckets a). k \<noteq> []" using inv by (fastforce simp: auth_inv_def)
  then show "length (buckets a) = 4096 \<longrightarrow> (\<exists>v b. (v, b) \<in> set (buckets a) \<and>
      evictIdlestLocked (buckets a) = AList.delete v (buckets a) \<and> (\<forall>(k, c) \<in> set (buckets a). b_last b \<le> b_last c))"
    using evict_idlest [of "buckets a"] inv by (fastforce simp: auth_inv_def)
qed

text \<open>
  The advertised wait is enough.  A key whose last request was seen \<open>retryAfterSeconds\<close> ago or
  earlier is admitted, in every state the limiter reaches: a client that honours Retry-After is not
  rejected twice in a row.
\<close>

lemma retry_after_sufficient:
  fixes keys :: "string list" and limit start :: int and evs :: "rl_event list"
  assumes "clocked start evs" "\<forall>e \<in> set evs. fst e \<noteq> []" "k \<noteq> []"
  defines "a \<equiv> snd (serve (NewAPIKeyAuth keys limit) evs)"
  assumes "end_time start evs \<le> created" "created \<le> now"
    and "map_of (buckets a) k = Some b" "now - b_last b \<ge> retryAfterSeconds a * 1000000000"
    and "now - b_last b < 2 ^ 63"
  shows "fst (allowRequest a k created now)"
proof -
  note inv = serve_from_new_inv(1) [OF assms(1,2), of keys limit, folded a_def]
  let ?M = "real_of_int (rateLimit a)"
  have M: "1 \<le> ?M" "wf_bucket ?M b" "b_last b \<le> now"
    using inv assms(5-7) by (force simp: auth_inv_def)+
  have "60 / ?M \<le> real_of_int (retryAfterSeconds a)"
    using M(1) by (auto simp: retryAfterSeconds_def Let_def)
  also have "\<dots> \<le> real_of_int (now - b_last b) / 1000000000"
    using assms(8) by (simp add: le_divide_eq flip: of_int_mult of_int_diff)
  finally have "?M / 60 * (60 / ?M) \<le> refill ?M (b_last b) now"
    using M(1) unfolding refill_def by (intro mult_left_mono) auto
  then have "1 \<le> refill ?M (b_last b) now" using M(1) by simp
  then have "fst (allow b now)"
    using allow_refilled [of ?M b now] M assms(9) by (simp add: max_duration_def)
  then show ?thesis using assms(7) by (auto simp: allowRequest_def split: prod.splits)
qed

section \<open>Properties of the two layers\<close>

lemma allowRequest_validKeys: "allowRequest a k c n = (ok, a') \<Longrightarrow> validKeys a' = validKeys a"
  by (cases "map_of (buckets a) k") (auto simp: allowRequest_def Let_def split: prod.splits)

text \<open>
  C9: deny by default.  With at least one key configured, a request for a path outside the public
  list is passed on only when it presents a configured key and a token of that key's bucket was
  spent on it; without one it is refused and the state of the limiter does not change.
\<close>

theorem HTTPMiddleware_denies_by_default:
  assumes "validKeys a \<noteq> []" "h_path r \<notin> {''/livez'', ''/readyz'', ''/startupz'', ''/v1/health'', ''/metrics''}"
  shows "(verify a (h_key r) = None \<longrightarrow> HTTPMiddleware tok a created now r = (Unauthorized, a)) \<and>
      (HTTPMiddleware tok a created now r = (Served r', a') \<longrightarrow>
      (\<exists>i. verify a (h_key r) = Some i \<and> allowRequest a i created now = (True, a')) \<and> h_marker r' = Some tok)"
  using assms by (auto simp: HTTPMiddleware_def publicPaths_def Let_def split: option.splits prod.splits if_splits)

lemma HTTPMiddleware_denies_by_default_witness:
  "HTTPMiddleware ''t'' \<lparr>validKeys = [(''h'', ''i'')], rateLimit = 1, buckets = []\<rparr> 0 0
     \<lparr>h_path = ''/v2/admin'', h_key = [], h_marker = Some ''x'', h_authed = False\<rparr> =
   (Unauthorized, \<lparr>validKeys = [(''h'', ''i'')], rateLimit = 1, buckets = []\<rparr>)"
  by (rule HTTPMiddleware_denies_by_default [THEN conjunct1, rule_format]) (simp_all add: verify_def)

text \<open>
  A REST request spends exactly one token.  Take a process whose marker token was drawn, and a
  gateway that forwards the marker header and the API key of the request it is given to some method
  other than Health.  When the HTTP layer serves a request on a protected path, the interceptor
  handles the forwarded call and leaves the buckets as the HTTP layer left them; and a call with no
  marker, or with any other value in it, is charged.
\<close>

lemma rest_request_one_token:
  fixes gateway :: "http_request \<Rightarrow> grpc_request"
  assumes forwards: "\<And>r. g_markers (gateway r) = (case h_marker r of None \<Rightarrow> [] | Some m \<Rightarrow> [m])"
      "\<And>r. apiKeyFromMetadata (gateway r) = h_key r" "\<And>r. g_method (gateway r) \<noteq> healthMethod"
    and "tok \<noteq> []" "validKeys a \<noteq> []" "h_path r \<notin> set publicPaths"
    and served: "HTTPMiddleware tok a c n r = (Served r', a')"
  shows "(UnaryInterceptor tok a' c' n' (gateway r') = (Handled (gateway r'), a')) \<and>
      (\<exists>i. verify a (h_key r) = Some i \<and> allowRequest a i c n = (True, a')) \<and>
      ((g_markers g = [] \<or> hd (g_markers g) \<noteq> tok) \<and> g_method g \<noteq> healthMethod \<and>
       UnaryInterceptor tok a c n g = (Handled g, a'') \<longrightarrow>
       (\<exists>i. verify a (apiKeyFromMetadata g) = Some i \<and> allowRequest a i c n = (True, a'')))"
proof (rule conjI3)
  have r': "r' = r\<lparr>h_marker := Some tok\<rparr>" and al: "\<exists>i. verify a (h_key r) = Some i \<and> allowRequest a i c n = (True, a')"
    using served assms(5,6) by (auto simp: HTTPMiddleware_def Let_def split: option.splits prod.splits if_splits)
  then show "\<exists>i. verify a (h_key r) = Some i \<and> allowRequest a i c n = (True, a')" by blast
  have v: "validKeys a' = validKeys a" using al allowRequest_validKeys by blast
  have ve: "verify a' p = verify a p" for p by (simp add: verify_def v)
  have "h_key r \<noteq> []" using al by (auto simp: verify_def)
  then show "UnaryInterceptor tok a' c' n' (gateway r') = (Handled (gateway r'), a')"
    using al assms(4,5) v by (auto simp: UnaryInterceptor_def forwards r' Let_def ve alreadyRateLimited_def)
  show "(g_markers g = [] \<or> hd (g_markers g) \<noteq> tok) \<and> g_method g \<noteq> healthMethod \<and>
       UnaryInterceptor tok a c n g = (Handled g, a'') \<longrightarrow>
       (\<exists>i. verify a (apiKeyFromMetadata g) = Some i \<and> allowRequest a i c n = (True, a''))"
    using assms(5) by (cases "g_markers g")
      (auto simp: UnaryInterceptor_def Let_def alreadyRateLimited_def split: option.splits prod.splits if_splits)
qed

definition sample_gateway :: "http_request \<Rightarrow> grpc_request" where
  "sample_gateway r = \<lparr>g_method = ''/kora.v1.MemoryService/Query'', g_keys = [], g_gateway_keys = [h_key r],
     g_markers = (case h_marker r of None \<Rightarrow> [] | Some m \<Rightarrow> [m]), g_authed = False\<rparr>"

end
