(* ===== verification/Schema.thy ===== *)
theory Schema
  imports Operations
begin

text \<open>
  The schema set-up of \<^verbatim>\<open>internal/graph\<close>: \<open>InitSchema\<close> with its parts in \<^verbatim>\<open>age.go\<close>, \<^verbatim>\<open>entity.go\<close> and
  \<^verbatim>\<open>fts.go\<close>.  The catalog of the database is the set of objects that exist and the width of the
  embedding column.  A statement creates one object, needs others to exist, and does nothing when
  its object exists (\<open>IF NOT EXISTS\<close>) or fails with an error the code ignores (\<open>already exists\<close>);
  statements that only tune or analyze change no object.  Each statement meets the next entry of
  a list of faults, as in the repository, so a run may stop anywhere, also after a statement that
  took effect.  The limits are pgvector's: 16000 dimensions for a column, 2000 for an HNSW index.
\<close>

section \<open>The catalog\<close>

datatype object = VectorExtension | EmbeddingTable | HnswIndex | ProjectIndex | AgeExtension | Graph | Label string | Index string

record catalog =
  ct_objects :: "object set"
  ct_dim :: int

datatype schema_error = SqlError string | AlreadyThere string | DimMismatch int int

record schema_state =
  su_dim :: int
  su_cat :: catalog
  su_faults :: "fault list"

type_synonym setup_step = "schema_state \<Rightarrow> schema_error option \<times> schema_state"

definition defaultEmbeddingDim :: int where "defaultEmbeddingDim = 384"

definition NewAGERepository :: "int \<Rightarrow> int" where
  "NewAGERepository embeddingDim = (if embeddingDim < 0 then 0 else embeddingDim)"

text \<open>One statement: what it makes of the catalog, or its error.\<close>

definition sql :: "string \<Rightarrow> (catalog \<Rightarrow> schema_error + catalog) \<Rightarrow> setup_step" where
  "sql msg f s =
     (let (fault, rest) = (case su_faults s of [] \<Rightarrow> (Works, []) | x # xs \<Rightarrow> (x, xs)); s = s\<lparr>su_faults := rest\<rparr> in
      case f (su_cat s) of
        Inl e \<Rightarrow> (Some (if fault = Works then e else SqlError msg), s)
      | Inr c \<Rightarrow> (case fault of
            Works \<Rightarrow> (None, s\<lparr>su_cat := c\<rparr>)
          | Unacked \<Rightarrow> (Some (SqlError msg), s\<lparr>su_cat := c\<rparr>)
          | _ \<Rightarrow> (Some (SqlError msg), s)))"

definition create :: "object \<Rightarrow> object set \<Rightarrow> (catalog \<Rightarrow> bool) \<Rightarrow> catalog \<Rightarrow> schema_error + catalog" where
  "create x needs possible c =
     (if x \<in> ct_objects c then Inr c
      else if needs \<subseteq> ct_objects c \<and> possible c then Inr (c\<lparr>ct_objects := insert x (ct_objects c)\<rparr>)
      else Inl (SqlError ''cannot create''))"

text \<open>AGE's functions have no \<open>IF NOT EXISTS\<close>.\<close>

definition create_once :: "object \<Rightarrow> object set \<Rightarrow> catalog \<Rightarrow> schema_error + catalog" where
  "create_once x needs c =
     (if x \<in> ct_objects c then Inl (AlreadyThere ''already exists'') else create x needs (\<lambda>c. True) c)"

definition tolerate :: "(schema_error \<Rightarrow> bool) \<Rightarrow> setup_step \<Rightarrow> setup_step" where
  "tolerate ok st s = (case st s of (Some e, s') \<Rightarrow> (if ok e then None else Some e, s') | (None, s') \<Rightarrow> (None, s'))"

definition already :: "schema_error \<Rightarrow> bool" where
  "already e = (case e of AlreadyThere msg \<Rightarrow> True | _ \<Rightarrow> False)"

text \<open>Each step returns on the first error.\<close>

fun run_steps :: "setup_step list \<Rightarrow> setup_step" where
  "run_steps [] s = (None, s)"
| "run_steps (st # sts) s = (case st s of (Some e, s') \<Rightarrow> (Some e, s') | (None, s') \<Rightarrow> run_steps sts s')"

definition analyze :: "object \<Rightarrow> catalog \<Rightarrow> schema_error + catalog" where
  "analyze x c = (if x \<in> ct_objects c then Inr c else Inl (SqlError ''no such relation''))"

section \<open>The steps of \<open>InitSchema\<close>\<close>

text \<open>\<open>existingEmbeddingDim\<close>: 0 when there is no table or the column has no width; the answer is passed on.\<close>

definition existingEmbeddingDim :: "(int \<Rightarrow> setup_step) \<Rightarrow> setup_step" where
  "existingEmbeddingDim k s =
     (case sql ''read embedding column dimension'' Inr s of
        (Some e, s') \<Rightarrow> (Some e, s')
      | (None, s') \<Rightarrow>
          k (if EmbeddingTable \<notin> ct_objects (su_cat s') \<or> ct_dim (su_cat s') < 0 then 0 else ct_dim (su_cat s')) s')"

definition adopt_dim :: setup_step where
  "adopt_dim s =
     (if su_dim s = 0
      then existingEmbeddingDim (\<lambda>existing s. (None, if existing > 0 then s\<lparr>su_dim := existing\<rparr> else s))
             (s\<lparr>su_dim := defaultEmbeddingDim\<rparr>)
      else (None, s))"

definition create_table :: setup_step where
  "create_table s = sql ''create public.memory_embeddings table'' (\<lambda>c.
     if EmbeddingTable \<in> ct_objects c then Inr c
     else map_sum id (\<lambda>c'. c'\<lparr>ct_dim := su_dim s\<rparr>)
       (create EmbeddingTable {VectorExtension} (\<lambda>c. 1 \<le> su_dim s \<and> su_dim s \<le> 16000) c)) s"

definition verifyEmbeddingDim :: setup_step where
  "verifyEmbeddingDim = existingEmbeddingDim (\<lambda>actual s.
     (if actual > 0 \<and> actual \<noteq> su_dim s then Some (DimMismatch actual (su_dim s)) else None, s))"

definition memoryPropertyIndexes :: "string list" where
  "memoryPropertyIndexes = [''memory_id_idx'', ''memory_project_id_idx'', ''memory_content_hash_idx'']"

definition entityPropertyIndexes :: "string list" where
  "entityPropertyIndexes = [''entity_normalized_name_idx'', ''entity_project_id_idx'']"

definition createPropertyIndexes :: "setup_step list" where
  "createPropertyIndexes =
     tolerate already (sql ''create Memory label'' (create_once (Label ''Memory'') {Graph})) #
     map (\<lambda>n. sql ''create index'' (create (Index n) {Label ''Memory''} (\<lambda>c. True))) memoryPropertyIndexes @
     [sql ''analyze Memory label'' (analyze (Label ''Memory''))]"

definition initEntitySchema :: "setup_step list" where
  "initEntitySchema =
     tolerate already (sql ''create Entity label'' (create_once (Label ''Entity'') {Graph})) #
     map (\<lambda>n. sql ''create index'' (create (Index n) {Label ''Entity''} (\<lambda>c. True))) entityPropertyIndexes @
     [sql ''analyze Entity label'' (analyze (Label ''Entity''))]"

definition initFullTextSchema :: "setup_step list" where
  "initFullTextSchema =
     [sql ''create full-text index'' (create (Index ''memory_content_fts_idx'') {Label ''Memory''} (\<lambda>c. True)),
      sql ''create project text index'' (create (Index ''memory_project_id_text_idx'') {Label ''Memory''} (\<lambda>c. True)),
      tolerate (\<lambda>e. True) (sql ''analyze Memory label'' (analyze (Label ''Memory'')))]"

definition InitSchema :: setup_step where
  "InitSchema = run_steps
     ([sql ''create vector extension'' (create VectorExtension {} (\<lambda>c. True)),
       adopt_dim,
       create_table,
       verifyEmbeddingDim,
       sql ''create vector index'' (create HnswIndex {EmbeddingTable} (\<lambda>c. ct_dim c \<le> 2000)),
       sql ''create embedding project index'' (create ProjectIndex {EmbeddingTable} (\<lambda>c. True)),
       tolerate (\<lambda>e. True) (sql ''analyze'' (analyze EmbeddingTable)),
       tolerate (\<lambda>e. True) (sql ''tune autovacuum'' (analyze EmbeddingTable)),
       sql ''create age extension'' (create AgeExtension {} (\<lambda>c. True)),
       tolerate already (sql ''create graph'' (create_once Graph {AgeExtension}))] @
      createPropertyIndexes @ initEntitySchema @ initFullTextSchema)"

section \<open>What a run establishes\<close>

definition schema_objects :: "object set" where
  "schema_objects = {VectorExtension, EmbeddingTable, HnswIndex, ProjectIndex, AgeExtension, Graph, Label ''Memory'',
     Label ''Entity''} \<union> Index ` (set memoryPropertyIndexes \<union> set entityPropertyIndexes \<union>
     {''memory_content_fts_idx'', ''memory_project_id_text_idx''})"

lemma sql_clean:
  "su_faults s = [] \<Longrightarrow> f (su_cat s) = Inr c \<Longrightarrow> sql msg f s = (None, s\<lparr>su_cat := c\<rparr>)"
  by (simp add: sql_def)

lemma create_clean:
  assumes "su_faults s = []" "needs \<subseteq> ct_objects (su_cat s)" "p (su_cat s)"
  shows "sql msg (create x needs p) s = (None, s\<lparr>su_cat := (su_cat s)\<lparr>ct_objects := insert x (ct_objects (su_cat s))\<rparr>\<rparr>)"
  using assms by (subst sql_clean) (auto simp: create_def insert_absorb)

lemma create_once_clean:
  assumes "su_faults s = []" "needs \<subseteq> ct_objects (su_cat s)"
  shows "tolerate already (sql msg (create_once x needs)) s =
    (None, s\<lparr>su_cat := (su_cat s)\<lparr>ct_objects := insert x (ct_objects (su_cat s))\<rparr>\<rparr>)"
proof (cases "x \<in> ct_objects (su_cat s)")
  case True
  then show ?thesis using assms by (simp add: tolerate_def sql_def create_once_def already_def insert_absorb)
next
  case False
  then show ?thesis using assms by (simp add: tolerate_def sql_def create_once_def create_def)
qed

lemma analyze_clean:
  "su_faults s = [] \<Longrightarrow> x \<in> ct_objects (su_cat s) \<Longrightarrow> sql msg (analyze x) s = (None, s)"
  "su_faults s = [] \<Longrightarrow> x \<in> ct_objects (su_cat s) \<Longrightarrow> tolerate ok (sql msg (analyze x)) s = (None, s)"
  by (simp_all add: sql_def analyze_def tolerate_def)

text \<open>The embedding column, if there is one, has the width \<open>d\<close>.\<close>

definition fits :: "int \<Rightarrow> catalog \<Rightarrow> bool" where
  "fits d c = (EmbeddingTable \<in> ct_objects c \<longrightarrow> ct_dim c = d)"

text \<open>A repository made for the width \<open>d\<close>, or for whatever width the database has.\<close>

definition suits :: "int \<Rightarrow> schema_state \<Rightarrow> bool" where
  "suits d s = (fits d (su_cat s) \<and>
     (su_dim s = d \<or> su_dim s = 0 \<and> (EmbeddingTable \<in> ct_objects (su_cat s) \<or> d = defaultEmbeddingDim)))"

lemma adopt_dim_clean:
  assumes "su_faults s = []" "suits d s" "1 \<le> d"
  shows "adopt_dim s = (None, s\<lparr>su_dim := d\<rparr>)"
  using assms
  by (auto simp: adopt_dim_def existingEmbeddingDim_def sql_def suits_def fits_def)

lemma create_table_clean:
  assumes "su_faults s = []" "VectorExtension \<in> ct_objects (su_cat s)" "fits (su_dim s) (su_cat s)" "1 \<le> su_dim s" "su_dim s \<le> 16000"
  shows "create_table s =
    (None, s\<lparr>su_cat := \<lparr>ct_objects = insert EmbeddingTable (ct_objects (su_cat s)), ct_dim = su_dim s\<rparr>\<rparr>)"
  using assms unfolding create_table_def
  by (subst sql_clean [where c = "\<lparr>ct_objects = insert EmbeddingTable (ct_objects (su_cat s)), ct_dim = su_dim s\<rparr>"])
    (auto simp: create_def fits_def insert_absorb)

lemma verify_clean:
  assumes "su_faults s = []" "ct_dim (su_cat s) = su_dim s" "0 \<le> su_dim s"
  shows "verifyEmbeddingDim s = (None, s)"
  using assms by (simp add: verifyEmbeddingDim_def existingEmbeddingDim_def sql_def)

text \<open>A clean run, from any state the width suits.\<close>

lemma InitSchema_clean:
  assumes "su_faults s = []" "suits d s" "1 \<le> d" "d \<le> 2000"
  shows "fst (InitSchema s) = None" "su_dim (snd (InitSchema s)) = d"
    "su_cat (snd (InitSchema s)) = \<lparr>ct_objects = ct_objects (su_cat s) \<union> schema_objects, ct_dim = d\<rparr>"
proof -
  define s1 where "s1 = s\<lparr>su_cat := (su_cat s)\<lparr>ct_objects := insert VectorExtension (ct_objects (su_cat s))\<rparr>\<rparr>"
  define s2 where "s2 = s1\<lparr>su_dim := d\<rparr>"
  have 1: "sql msg (create VectorExtension {} (\<lambda>c. True)) s = (None, s1)" for msg
    using assms(1) by (simp add: create_clean s1_def)
  have 2: "adopt_dim s1 = (None, s2)"
    using assms unfolding s2_def by (intro adopt_dim_clean) (auto simp: suits_def fits_def s1_def)
  have s2: "su_faults s2 = []" "VectorExtension \<in> ct_objects (su_cat s2)" "fits d (su_cat s2)" "su_dim s2 = d"
    using assms by (auto simp: s1_def s2_def suits_def fits_def)
  have 3: "create_table s2 = (None, s2\<lparr>su_cat := \<lparr>ct_objects = insert EmbeddingTable (ct_objects (su_cat s2)), ct_dim = d\<rparr>\<rparr>)"
    using s2 assms by (simp add: create_table_clean)
  have objs: "ct_objects (su_cat s2) = insert VectorExtension (ct_objects (su_cat s))" by (simp add: s1_def s2_def)
  note run = InitSchema_def createPropertyIndexes_def initEntitySchema_def initFullTextSchema_def
      memoryPropertyIndexes_def entityPropertyIndexes_def schema_objects_def
  show "fst (InitSchema s) = None" "su_dim (snd (InitSchema s)) = d"
    "su_cat (snd (InitSchema s)) = \<lparr>ct_objects = ct_objects (su_cat s) \<union> schema_objects, ct_dim = d\<rparr>"
    using assms s2 by (simp_all add: run 1 2 3 objs create_clean create_once_clean analyze_clean verify_clean; auto)+
qed

section \<open>Runs that fail\<close>

text \<open>What every attempt for the width \<open>d\<close> keeps of the catalog.\<close>

definition good :: "int \<Rightarrow> catalog \<Rightarrow> bool" where
  "good d c = (fits d c \<and> (HnswIndex \<in> ct_objects c \<longrightarrow> EmbeddingTable \<in> ct_objects c \<and> d \<le> 2000))"

definition keep :: "int \<Rightarrow> schema_state \<Rightarrow> bool" where
  "keep d s = (su_dim s = d \<and> good d (su_cat s))"

text \<open>A step that keeps the catalog good under any fault, drops nothing, and leaves \<open>adds\<close> when it
  returns no error.\<close>

definition step_ok :: "int \<Rightarrow> object set \<Rightarrow> setup_step \<Rightarrow> bool" where
  "step_ok d adds st = (\<forall>s. keep d s \<longrightarrow> (case st s of (e, s') \<Rightarrow> keep d s' \<and>
     ct_objects (su_cat s) \<subseteq> ct_objects (su_cat s') \<and> (e = None \<longrightarrow> adds \<subseteq> ct_objects (su_cat s'))))"

lemma step_okD:
  assumes "step_ok d adds st" "keep d s" "st s = (e, s')"
  shows "keep d s'" "ct_objects (su_cat s) \<subseteq> ct_objects (su_cat s')" "e = None \<Longrightarrow> adds \<subseteq> ct_objects (su_cat s')"
  using assms by (auto simp: step_ok_def split: prod.splits)

lemma run_steps_ok:
  assumes "list_all2 (step_ok d) adds sts"
  shows "step_ok d (\<Union> (set adds)) (run_steps sts)"
  using assms
proof (induction rule: list_all2_induct)
  case Nil
  then show ?case by (simp add: step_ok_def)
next
  case (Cons a adds st sts)
  show ?case
    unfolding step_ok_def
  proof (intro allI impI)
    fix s assume k: "keep d s"
    obtain e s1 where 1: "st s = (e, s1)" by fastforce
    note h = step_okD [OF Cons.hyps(1) k 1]
    obtain e2 s2 where 2: "run_steps sts s1 = (e2, s2)" by fastforce
    note t = step_okD [OF Cons.IH h(1) 2]
    show "case run_steps (st # sts) s of (e, s') \<Rightarrow> keep d s' \<and> ct_objects (su_cat s) \<subseteq> ct_objects (su_cat s') \<and>
        (e = None \<longrightarrow> \<Union> (set (a # adds)) \<subseteq> ct_objects (su_cat s'))"
      using h t by (cases e) (auto simp: 1 2)
  qed
qed

lemma step_ok_sql:
  assumes "\<And>c c'. good d c \<Longrightarrow> f c = Inr c' \<Longrightarrow> good d c' \<and> ct_objects c \<subseteq> ct_objects c' \<and> adds \<subseteq> ct_objects c'"
  shows "step_ok d adds (sql msg f)"
  using assms unfolding step_ok_def keep_def sql_def Let_def
  by (auto split: sum.split fault.split list.split prod.split)

lemma step_ok_create:
  "x \<notin> {EmbeddingTable, HnswIndex} \<Longrightarrow> step_ok d {x} (sql msg (create x needs p))"
  by (rule step_ok_sql) (auto simp: create_def good_def fits_def split: if_splits)

lemma step_ok_create_once:
  assumes "x \<notin> {EmbeddingTable, HnswIndex}"
  shows "step_ok d {x} (tolerate already (sql msg (create_once x needs)))"
  using assms unfolding step_ok_def keep_def sql_def Let_def
  by (auto simp: create_once_def create_def good_def fits_def tolerate_def already_def
      split: sum.split fault.split list.split prod.split if_splits)

lemma step_ok_analyze:
  "step_ok d {} (sql msg (analyze x))" "step_ok d {} (tolerate ok (sql msg (analyze x)))"
  unfolding step_ok_def keep_def sql_def Let_def
  by (auto simp: analyze_def tolerate_def split: sum.split fault.split list.split prod.split if_splits)

lemma step_ok_hnsw:
  "step_ok d {HnswIndex} (sql msg (create HnswIndex {EmbeddingTable} (\<lambda>c. ct_dim c \<le> 2000)))"
  by (rule step_ok_sql) (auto simp: create_def good_def fits_def split: if_splits)

lemma step_ok_table: "step_ok d {EmbeddingTable} create_table"
  unfolding step_ok_def keep_def create_table_def sql_def Let_def
  by (auto simp: create_def good_def fits_def split: sum.split fault.split list.split prod.split if_splits)

lemma step_ok_verify: "step_ok d {} verifyEmbeddingDim"
  unfolding step_ok_def keep_def verifyEmbeddingDim_def existingEmbeddingDim_def sql_def Let_def
  by (auto split: sum.split fault.split list.split prod.split)

lemma step_ok_adopt:
  assumes "1 \<le> d" "suits d s" "good d (su_cat s)" "adopt_dim s = (e, s')"
  shows "su_cat s' = su_cat s" "e = None \<Longrightarrow> keep d s'"
  using assms unfolding keep_def adopt_dim_def existingEmbeddingDim_def sql_def Let_def
  by (auto simp: suits_def fits_def good_def split: sum.splits fault.splits list.splits prod.splits if_splits)

lemma list_ok_indexes:
  "list_all2 (step_ok d) (map (\<lambda>n. {Index n}) ns) (map (\<lambda>n. sql msg (create (Index n) needs p)) ns)"
  by (simp add: list_all2_map1 list_all2_map2 list.rel_refl step_ok_create)

lemma createPropertyIndexes_ok:
  "list_all2 (step_ok d) ([{Label ''Memory''}] @ map (\<lambda>n. {Index n}) memoryPropertyIndexes @ [{}]) createPropertyIndexes"
  unfolding createPropertyIndexes_def by (simp add: step_ok_create_once step_ok_analyze list_all2_appendI list_ok_indexes)

lemma initEntitySchema_ok:
  "list_all2 (step_ok d) ([{Label ''Entity''}] @ map (\<lambda>n. {Index n}) entityPropertyIndexes @ [{}]) initEntitySchema"
  unfolding initEntitySchema_def by (simp add: step_ok_create_once step_ok_analyze list_all2_appendI list_ok_indexes)

lemma initFullTextSchema_ok:
  "list_all2 (step_ok d) [{Index ''memory_content_fts_idx''}, {Index ''memory_project_id_text_idx''}, {}] initFullTextSchema"
  unfolding initFullTextSchema_def by (simp add: step_ok_create step_ok_analyze)

lemma later_steps_ok:
  "step_ok d (schema_objects - {VectorExtension}) (run_steps ([create_table, verifyEmbeddingDim,
       sql ''create vector index'' (create HnswIndex {EmbeddingTable} (\<lambda>c. ct_dim c \<le> 2000)),
       sql ''create embedding project index'' (create ProjectIndex {EmbeddingTable} (\<lambda>c. True)),
       tolerate (\<lambda>e. True) (sql ''analyze'' (analyze EmbeddingTable)),
       tolerate (\<lambda>e. True) (sql ''tune autovacuum'' (analyze EmbeddingTable)),
       sql ''create age extension'' (create AgeExtension {} (\<lambda>c. True)),
       tolerate already (sql ''create graph'' (create_once Graph {AgeExtension}))] @
      createPropertyIndexes @ initEntitySchema @ initFullTextSchema))"
proof -
  let ?own = "[{EmbeddingTable}, {}, {HnswIndex}, {ProjectIndex}, {}, {}, {AgeExtension}, {Graph}]"
  let ?adds = "?own @ ([{Label ''Memory''}] @ map (\<lambda>n. {Index n}) memoryPropertyIndexes @ [{}]) @
     ([{Label ''Entity''}] @ map (\<lambda>n. {Index n}) entityPropertyIndexes @ [{}]) @
     [{Index ''memory_content_fts_idx''}, {Index ''memory_project_id_text_idx''}, {}]"
  have "schema_objects - {VectorExtension} = \<Union> (set ?adds)"
    unfolding schema_objects_def by auto
  moreover have "step_ok d (\<Union> (set ?adds)) (run_steps ([create_table, verifyEmbeddingDim,
       sql ''create vector index'' (create HnswIndex {EmbeddingTable} (\<lambda>c. ct_dim c \<le> 2000)),
       sql ''create embedding project index'' (create ProjectIndex {EmbeddingTable} (\<lambda>c. True)),
       tolerate (\<lambda>e. True) (sql ''analyze'' (analyze EmbeddingTable)),
       tolerate (\<lambda>e. True) (sql ''tune autovacuum'' (analyze EmbeddingTable)),
       sql ''create age extension'' (create AgeExtension {} (\<lambda>c. True)),
       tolerate already (sql ''create graph'' (create_once Graph {AgeExtension}))] @
      createPropertyIndexes @ initEntitySchema @ initFullTextSchema))"
    by (intro run_steps_ok list_all2_appendI createPropertyIndexes_ok initEntitySchema_ok initFullTextSchema_ok)
      (simp add: step_ok_table step_ok_verify step_ok_hnsw step_ok_create step_ok_create_once step_ok_analyze)
  ultimately show ?thesis by simp
qed

lemma vector_extension_ok:
  assumes "suits d s" "good d (su_cat s)" "sql msg (create VectorExtension {} (\<lambda>c. True)) s = (e, s')"
  shows "suits d s' \<and> good d (su_cat s') \<and> ct_objects (su_cat s) \<subseteq> ct_objects (su_cat s') \<and>
    (e = None \<longrightarrow> VectorExtension \<in> ct_objects (su_cat s'))"
proof -
  let ?c = "(su_cat s)\<lparr>ct_objects := insert VectorExtension (ct_objects (su_cat s))\<rparr>"
  have "create VectorExtension {} (\<lambda>c. True) (su_cat s) = Inr ?c"
    by (simp add: create_def insert_absorb)
  then have "su_dim s' = su_dim s" "su_cat s' = ?c \<or> e \<noteq> None \<and> su_cat s' = su_cat s"
    using assms(3) by (auto simp: sql_def Let_def split: fault.splits prod.splits)
  then show ?thesis using assms(1,2) by (auto simp: suits_def good_def fits_def)
qed

text \<open>What any run leaves, from a state the width suits.\<close>

lemma InitSchema_any:
  assumes "1 \<le> d" "suits d s" "good d (su_cat s)" "InitSchema s = (e, s')"
  shows "good d (su_cat s')" "ct_objects (su_cat s) \<subseteq> ct_objects (su_cat s')"
    "e = None \<Longrightarrow> d \<le> 2000 \<and> ct_dim (su_cat s') = d \<and> schema_objects \<subseteq> ct_objects (su_cat s')"
proof -
  let ?v = "sql ''create vector extension'' (create VectorExtension {} (\<lambda>c. True))"
  define later where "later = [create_table, verifyEmbeddingDim,
       sql ''create vector index'' (create HnswIndex {EmbeddingTable} (\<lambda>c. ct_dim c \<le> 2000)),
       sql ''create embedding project index'' (create ProjectIndex {EmbeddingTable} (\<lambda>c. True)),
       tolerate (\<lambda>e. True) (sql ''analyze'' (analyze EmbeddingTable)),
       tolerate (\<lambda>e. True) (sql ''tune autovacuum'' (analyze EmbeddingTable)),
       sql ''create age extension'' (create AgeExtension {} (\<lambda>c. True)),
       tolerate already (sql ''create graph'' (create_once Graph {AgeExtension}))] @
      createPropertyIndexes @ initEntitySchema @ initFullTextSchema"
  have split: "InitSchema s = run_steps (?v # adopt_dim # later) s"
    unfolding InitSchema_def later_def append_Cons append_Nil by (rule refl)
  note later = later_steps_ok [of d, folded later_def]
  obtain e1 s1 where 1: "?v s = (e1, s1)" by fastforce
  have s1: "suits d s1" "good d (su_cat s1)" "ct_objects (su_cat s) \<subseteq> ct_objects (su_cat s1)"
      "e1 = None \<Longrightarrow> VectorExtension \<in> ct_objects (su_cat s1)"
    using vector_extension_ok [OF assms(2,3) 1] by simp_all
  obtain e2 s2 where 2: "adopt_dim s1 = (e2, s2)" by fastforce
  note a = step_ok_adopt [OF assms(1) s1(1,2) 2]
  obtain e3 s3 where 3: "run_steps later s2 = (e3, s3)" by fastforce
  note l = step_okD [OF later _ 3]
  have "good d (su_cat s') \<and> ct_objects (su_cat s) \<subseteq> ct_objects (su_cat s') \<and>
    (e = None \<longrightarrow> d \<le> 2000 \<and> ct_dim (su_cat s') = d \<and> schema_objects \<subseteq> ct_objects (su_cat s'))"
  proof (cases "e1 = None \<and> e2 = None")
    case True
    then have r: "e = e3" "s' = s3" using assms(4) split 1 2 3 by auto
    have k: "keep d s2" using True a(2) by simp
    have all: "schema_objects \<subseteq> ct_objects (su_cat s3)" if "e3 = None"
      using l(3) [OF k that] l(2) [OF k] s1(4) True a(1) by auto
    have g: "good d (su_cat s3)" using l(1) [OF k] by (simp add: keep_def)
    have sub: "ct_objects (su_cat s) \<subseteq> ct_objects (su_cat s3)" using s1(3) a(1) l(2) [OF k] by simp
    have "HnswIndex \<in> schema_objects" by (simp add: schema_objects_def)
    then have "d \<le> 2000 \<and> ct_dim (su_cat s3) = d" if "e3 = None"
      using all [OF that] g unfolding good_def fits_def by blast
    then show ?thesis using r g sub all by simp
  next
    case False
    then show ?thesis using assms(4) split 1 2 s1 a(1) by (auto split: option.splits)
  qed
  then show "good d (su_cat s')" "ct_objects (su_cat s) \<subseteq> ct_objects (su_cat s')"
    "e = None \<Longrightarrow> d \<le> 2000 \<and> ct_dim (su_cat s') = d \<and> schema_objects \<subseteq> ct_objects (su_cat s')"
    by simp_all
qed

text \<open>The catalogs that any attempts for the width \<open>d\<close> can leave, from an empty database; a
  repository may leave the width open (0) once the table exists.\<close>

inductive attempts :: "int \<Rightarrow> catalog \<Rightarrow> bool" for d where
  empty: "attempts d \<lparr>ct_objects = {}, ct_dim = n\<rparr>"
| attempt: "attempts d c \<Longrightarrow> s = \<lparr>su_dim = NewAGERepository k, su_cat = c, su_faults = fs\<rparr> \<Longrightarrow> suits d s \<Longrightarrow>
    InitSchema s = (e, s') \<Longrightarrow> attempts d (su_cat s')"

lemma attempts_good: "attempts d c \<Longrightarrow> 1 \<le> d \<Longrightarrow> good d c"
  by (induction rule: attempts.induct) (auto simp: good_def [of _ "\<lparr>ct_objects = {}, ct_dim = _\<rparr>"] fits_def
      dest!: InitSchema_any(1))

text \<open>A run for another width than the column's.\<close>

lemma InitSchema_mismatch:
  assumes "EmbeddingTable \<in> ct_objects (su_cat s)" "ct_dim (su_cat s) = d" "1 \<le> d" "su_dim s \<noteq> d" "su_dim s \<noteq> 0"
    "InitSchema s = (e, s')"
  shows "(\<exists>err. e = Some err) \<and> ct_dim (su_cat s') = d"
proof -
  let ?v = "sql ''create vector extension'' (create VectorExtension {} (\<lambda>c. True))"
  let ?P = "\<lambda>s. EmbeddingTable \<in> ct_objects (su_cat s) \<and> ct_dim (su_cat s) = d \<and> su_dim s \<noteq> d \<and> su_dim s \<noteq> 0"
  obtain e1 s1 where 1: "?v s = (e1, s1)" by fastforce
  have p1: "?P s1" using 1 assms unfolding sql_def Let_def
    by (auto simp: create_def split: sum.splits fault.splits list.splits prod.splits if_splits)
  have a: "adopt_dim s1 = (None, s1)" using p1 by (simp add: adopt_dim_def)
  obtain e2 s2 where 2: "create_table s1 = (e2, s2)" by fastforce
  have p2: "?P s2" using 2 p1 unfolding create_table_def sql_def Let_def
    by (auto split: sum.splits fault.splits list.splits prod.splits if_splits)
  obtain e3 s3 where 3: "verifyEmbeddingDim s2 = (e3, s3)" by fastforce
  have p3: "?P s3" "\<exists>err. e3 = Some err"
    using 3 p2 assms(3) unfolding verifyEmbeddingDim_def existingEmbeddingDim_def sql_def Let_def
    by (auto split: sum.splits fault.splits list.splits prod.splits if_splits)
  show ?thesis using assms(6) p1 p2 p3 by (auto simp: InitSchema_def 1 2 3 a split: option.splits)
qed

text \<open>
  C29: the schema set-up can be interrupted at any statement and repeated.  After any attempts for
  one embedding width, failed or not, a run without faults completes the schema with the column at
  that width, if pgvector can index it (at most 2000 dimensions); a run that reports success, under
  whatever faults, has really left every object of the schema; and a run for another width is
  refused and leaves the column as it was.  A width above 2000 never gets past the vector index.
\<close>

theorem InitSchema_restartable:
  assumes "attempts d c" "1 \<le> d" "suits d \<lparr>su_dim = NewAGERepository k, su_cat = c, su_faults = fs\<rparr>"
  shows "(d \<le> 2000 \<longrightarrow> fst (InitSchema \<lparr>su_dim = NewAGERepository k, su_cat = c, su_faults = []\<rparr>) = None) \<and>
    (case InitSchema \<lparr>su_dim = NewAGERepository k, su_cat = c, su_faults = fs\<rparr> of (e, s') \<Rightarrow>
       ct_objects c \<subseteq> ct_objects (su_cat s') \<and>
       (e = None \<longrightarrow> d \<le> 2000 \<and> ct_dim (su_cat s') = d \<and> schema_objects \<subseteq> ct_objects (su_cat s'))) \<and>
    (EmbeddingTable \<in> ct_objects c \<and> j \<noteq> d \<and> 1 \<le> j \<longrightarrow>
       (case InitSchema \<lparr>su_dim = NewAGERepository j, su_cat = c, su_faults = fs\<rparr> of (e, s') \<Rightarrow>
          (\<exists>err. e = Some err) \<and> ct_dim (su_cat s') = d))"
proof -
  have g: "good d c" by (rule attempts_good [OF assms(1,2)])
  have "suits d \<lparr>su_dim = NewAGERepository k, su_cat = c, su_faults = []\<rparr>" using assms(3) by (simp add: suits_def)
  then have clean: "d \<le> 2000 \<longrightarrow> fst (InitSchema \<lparr>su_dim = NewAGERepository k, su_cat = c, su_faults = []\<rparr>) = None"
    using InitSchema_clean(1) assms(2) by simp
  have dim: "EmbeddingTable \<in> ct_objects c \<longrightarrow> ct_dim c = d" using g by (simp add: good_def fits_def)
  show ?thesis
    using clean InitSchema_any [OF assms(2,3)] g dim assms(2)
      InitSchema_mismatch [of "\<lparr>su_dim = NewAGERepository j, su_cat = c, su_faults = fs\<rparr>" d]
    by (auto simp: NewAGERepository_def split: prod.split)
qed

text \<open>A first attempt that is cut off after the table, then the repetition.\<close>

definition cut_off :: catalog where
  "cut_off = su_cat (snd (InitSchema \<lparr>su_dim = NewAGERepository 768, su_cat = \<lparr>ct_objects = {}, ct_dim = 0\<rparr>,
     su_faults = [Works, Works, Works, Lost]\<rparr>))"

lemma cut_off_value: "cut_off = \<lparr>ct_objects = {EmbeddingTable, VectorExtension}, ct_dim = 768\<rparr>"
  by (simp add: cut_off_def InitSchema_def sql_def create_def adopt_dim_def create_table_def verifyEmbeddingDim_def
      existingEmbeddingDim_def NewAGERepository_def)

lemma cut_off_attempt: "attempts 768 cut_off"
proof -
  let ?s = "\<lparr>su_dim = NewAGERepository 768, su_cat = \<lparr>ct_objects = {}, ct_dim = 0\<rparr>, su_faults = [Works, Works, Works, Lost]\<rparr>"
  have "suits 768 ?s" by (simp add: suits_def fits_def NewAGERepository_def)
  then show ?thesis
    unfolding cut_off_def by (rule attempt [OF empty refl _ prod.collapse [symmetric]])
qed

lemma InitSchema_restartable_witness:
  "fst (InitSchema \<lparr>su_dim = NewAGERepository 768, su_cat = cut_off, su_faults = []\<rparr>) = None \<and>
    (\<exists>err. fst (InitSchema \<lparr>su_dim = NewAGERepository 384, su_cat = cut_off, su_faults = []\<rparr>) = Some err)"
  using InitSchema_restartable [OF cut_off_attempt, of 768 "[]" 384]
  by (simp add: suits_def fits_def NewAGERepository_def cut_off_value split: prod.splits)

end
