(* ===== verification/Gateway.thy ===== *)
theory Gateway
  imports Operations
begin

text \<open>
  The server as \<^verbatim>\<open>cmd/server/main.go\<close> assembles it.  A process is the state behind all endpoints: the
  handlers' server, the cache of statistics, the authenticator, the probes and the log.  A gRPC
  request passes the key check (\<open>UnaryInterceptor\<close>), then the logging interceptor, then its handler;
  an HTTP request passes \<open>HTTPMiddleware\<close> and the mux, and under \<^verbatim>\<open>/v1/\<close> becomes a gRPC request whose
  metadata are the headers the matcher lets through.  The second half is the life of the process:
  start, serving, and the order in which a signal takes its parts down.

  The generated gateway's routing table, grpc-gateway's default header matcher, \<open>path.Clean\<close> and the
  outcome of the readiness deadline are parameters of a deployment.
\<close>

section \<open>The assembled server\<close>

text \<open>\<open>NewMemoryServiceWithExtractor\<close> on what \<open>main\<close> built, with the graph signals off if configured so.\<close>

definition memory_service ::
  "genv \<Rightarrow> (string \<Rightarrow> uuid option) \<Rightarrow> (nat \<Rightarrow> string \<Rightarrow> string \<Rightarrow> json \<Rightarrow> http_reply) \<Rightarrow> (string \<Rightarrow> bool) \<Rightarrow>
    (nat \<Rightarrow> provider) \<Rightarrow> running \<Rightarrow> service" where
  "memory_service G parse N uni P r =
     (let S = \<lparr>ms_env = G, ms_parse = parse, ms_embedder = Some (rn_embedder r), ms_net = N, ms_unicode = uni,
               ms_provider = P, ms_extractor = rn_extractor r, ms_fusion = DefaultFusion, ms_off = False\<rparr>
      in if cf_signals (rn_config r) = ''off'' then svc_DisableGraphSignals S else S)"

datatype rpc_call = KoraCall request | HealthCall

fun full_method :: "rpc_call \<Rightarrow> string" where
  "full_method (KoraCall (StoreRPC r)) = ''/kora.v1.Kora/Store''"
| "full_method (KoraCall (QueryRPC r)) = ''/kora.v1.Kora/Query''"
| "full_method (KoraCall (ConnectRPC r)) = ''/kora.v1.Kora/Connect''"
| "full_method (KoraCall (DeleteRPC i)) = ''/kora.v1.Kora/Delete''"
| "full_method (KoraCall (GetGraphRPC i)) = ''/kora.v1.Kora/GetGraph''"
| "full_method (KoraCall (ExtractRPC r)) = ''/kora.v1.Kora/Extract''"
| "full_method (KoraCall (GetProfileRPC r)) = ''/kora.v1.Kora/GetProfile''"
| "full_method (KoraCall (StartSessionRPC r)) = ''/kora.v1.SessionService/StartSession''"
| "full_method (KoraCall (EndSessionRPC i)) = ''/kora.v1.SessionService/EndSession''"
| "full_method HealthCall = healthMethod"

datatype rpc_reply = Answered response | Healthy health

record web_request =
  wr_method :: string
  wr_path :: string
  wr_headers :: "(string \<times> string) list"
  wr_body :: string

record deployment =
  dp_service :: service
  dp_version :: string
  dp_providers :: providers
  dp_token :: string
  dp_route :: "web_request \<Rightarrow> rpc_call option"
  dp_matcher :: "string \<Rightarrow> string option"
  dp_clean :: "string \<Rightarrow> string"
  dp_late :: "nat \<Rightarrow> bool"

record process =
  px_server :: server
  px_stats :: stats_cache
  px_auth :: auth
  px_probes :: probes
  px_log :: "(string \<times> code \<times> level) list"

definition deploy ::
  "genv \<Rightarrow> (string \<Rightarrow> uuid option) \<Rightarrow> (nat \<Rightarrow> string \<Rightarrow> string \<Rightarrow> json \<Rightarrow> http_reply) \<Rightarrow> (string \<Rightarrow> bool) \<Rightarrow>
    (nat \<Rightarrow> provider) \<Rightarrow> string \<Rightarrow> (web_request \<Rightarrow> rpc_call option) \<Rightarrow> (string \<Rightarrow> string option) \<Rightarrow>
    (string \<Rightarrow> string) \<Rightarrow> (nat \<Rightarrow> bool) \<Rightarrow> running \<Rightarrow> deployment" where
  "deploy G parse N uni P tok route dflt cleaner late r =
     \<lparr>dp_service = memory_service G parse N uni P r, dp_version = cf_version (rn_config r),
      dp_providers = rn_providers r, dp_token = tok, dp_route = route, dp_matcher = dflt, dp_clean = cleaner,
      dp_late = late\<rparr>"

definition launch :: "running \<Rightarrow> world \<Rightarrow> process" where
  "launch r w = \<lparr>px_server = \<lparr>sv_world = w, sv_active = 0\<rparr>, px_stats = None, px_auth = rn_auth r,
     px_probes = NewProbes, px_log = []\<rparr>"

definition ticks :: "nat \<Rightarrow> process \<Rightarrow> process" where
  "ticks n x = x\<lparr>px_server := (px_server x)\<lparr>sv_world := (sv_world (px_server x))\<lparr>w_tick := w_tick (sv_world (px_server x)) + n\<rparr>\<rparr>\<rparr>"

definition tick_of :: "process \<Rightarrow> nat" where "tick_of x = w_tick (sv_world (px_server x))"

section \<open>The gRPC server\<close>

definition handle :: "deployment \<Rightarrow> bool \<Rightarrow> rpc_call \<Rightarrow> (process, rpc_reply) rpc" where
  "handle D authenticated c x =
     (case c of
        KoraCall req \<Rightarrow>
          (case Service.serve (dp_service D) req (px_server x) of
             (r, s) \<Rightarrow> (map_sum id Answered r, x\<lparr>px_server := s\<rparr>))
      | HealthCall \<Rightarrow>
          (case svc_Health (ms_env (dp_service D)) (dp_version D) (dp_providers D) authenticated
                  (sv_world (px_server x), px_stats x) of
             (r, w, cache) \<Rightarrow>
               (map_sum id Healthy r, x\<lparr>px_server := (px_server x)\<lparr>sv_world := w\<rparr>, px_stats := cache\<rparr>)))"

definition result_code :: "status + 'a \<Rightarrow> code" where
  "result_code r = (case r of Inl st \<Rightarrow> st_code st | Inr y \<Rightarrow> OK)"

text \<open>The logging interceptor: one record per call that passed the key check.\<close>

definition UnaryServerInterceptor :: "string \<Rightarrow> (process, 'a) rpc \<Rightarrow> (process, 'a) rpc" where
  "UnaryServerInterceptor meth h x =
     (case h x of (r, x') \<Rightarrow> (r, x'\<lparr>px_log := px_log x' @ [(meth, result_code r, log_level r)]\<rparr>))"

type_synonym metadata = "(string \<times> string) list"

definition md_get :: "string \<Rightarrow> metadata \<Rightarrow> string list" where
  "md_get k md = map snd (filter (\<lambda>(n, v). n = k) md)"

definition RateLimitedHeader :: string where "RateLimitedHeader = ''x-kora-rate-limited''"

definition grpc_call :: "deployment \<Rightarrow> metadata \<Rightarrow> rpc_call \<Rightarrow> (process, rpc_reply) rpc" where
  "grpc_call D md c x =
     (let G = ms_env (dp_service D); t = tick_of x;
          g = \<lparr>g_method = full_method c, g_keys = md_get ''x-api-key'' md,
               g_gateway_keys = md_get ''grpcgateway-x-api-key'' md, g_markers = md_get RateLimitedHeader md,
               g_authed = False\<rparr>;
          (out, a) = UnaryInterceptor (dp_token D) (px_auth x) (ge_clock G t) (ge_clock G (Suc t)) g;
          x = (ticks 2 x)\<lparr>px_auth := a\<rparr>
      in case out of
           grpc_outcome.Unauthenticated \<Rightarrow> (Inl (status_of code.Unauthenticated ''unauthorized''), x)
         | grpc_outcome.ResourceExhausted \<Rightarrow> (Inl (status_of code.ResourceExhausted ''rate limit exceeded''), x)
         | Handled g \<Rightarrow> UnaryServerInterceptor (g_method g) (handle D (g_authed g) c) x)"

section \<open>The HTTP server\<close>

definition get_header :: "string \<Rightarrow> (string \<times> string) list \<Rightarrow> string option" where
  "get_header name hs = map_option snd (find (\<lambda>(n, v). to_lower n = to_lower name) hs)"

definition set_header :: "string \<Rightarrow> string \<Rightarrow> (string \<times> string) list \<Rightarrow> (string \<times> string) list" where
  "set_header name v hs = (name, v) # filter (\<lambda>(n, v). to_lower n \<noteq> to_lower name) hs"

text \<open>The matcher given to the gateway, over grpc-gateway's own.\<close>

definition header_matcher :: "(string \<Rightarrow> string option) \<Rightarrow> string \<Rightarrow> string option" where
  "header_matcher dflt k =
     (if to_lower k = ''x-api-key'' then Some ''x-api-key''
      else if to_lower k = RateLimitedHeader then Some RateLimitedHeader
      else dflt k)"

definition incoming :: "(string \<Rightarrow> string option) \<Rightarrow> (string \<times> string) list \<Rightarrow> metadata" where
  "incoming dflt hs = List.map_filter (\<lambda>(n, v). map_option (\<lambda>k. (to_lower k, v)) (header_matcher dflt n)) hs"

datatype web_reply =
    Plain "int \<times> string" | Metrics | Redirected string | NoRoute | Refused | Limited int | Proxied "status + rpc_reply"

definition mux :: "deployment \<Rightarrow> web_request \<Rightarrow> process \<Rightarrow> web_reply \<times> process" where
  "mux D r x =
     (let p = wr_path r in
      if dp_clean D p \<noteq> p then (Redirected (dp_clean D p), x)
      else if p = ''/metrics'' then (Metrics, x)
      else if p = ''/livez'' then (Plain Live, x)
      else if p = ''/startupz'' then (Plain (Startup (px_probes x)), x)
      else if p = ''/readyz'' then
        (case Ready (dp_late D (tick_of x)) (px_probes x) (sv_world (px_server x)) of
           (ans, w) \<Rightarrow> (Plain ans, x\<lparr>px_server := (px_server x)\<lparr>sv_world := w\<rparr>\<rparr>))
      else if has_prefix p ''/v1/'' then
        (case dp_route D r of
           None \<Rightarrow> (NoRoute, x)
         | Some c \<Rightarrow> map_prod Proxied id (grpc_call D (incoming (dp_matcher D) (wr_headers r)) c x))
      else (NoRoute, x))"

definition serve_http :: "deployment \<Rightarrow> web_request \<Rightarrow> process \<Rightarrow> web_reply \<times> process" where
  "serve_http D r x =
     (let G = ms_env (dp_service D); t = tick_of x;
          h = \<lparr>h_path = wr_path r,
               h_key = (case get_header ''X-API-Key'' (wr_headers r) of None \<Rightarrow> [] | Some v \<Rightarrow> v),
               h_marker = get_header RateLimitedHeader (wr_headers r), h_authed = False\<rparr>;
          (out, a) = HTTPMiddleware (dp_token D) (px_auth x) (ge_clock G t) (ge_clock G (Suc t)) h;
          x = (ticks 2 x)\<lparr>px_auth := a\<rparr>
      in case out of
           Unauthorized \<Rightarrow> (Refused, x)
         | TooMany secs \<Rightarrow> (Limited secs, x)
         | Served h \<Rightarrow>
             mux D (case h_marker h of None \<Rightarrow> r
                    | Some v \<Rightarrow> r\<lparr>wr_headers := set_header RateLimitedHeader v (wr_headers r)\<rparr>) x)"

section \<open>Runs of the process\<close>

datatype event = GrpcEvent metadata rpc_call | HttpEvent web_request
datatype outcome = GrpcOutcome "status + rpc_reply" | HttpOutcome web_reply

fun deliver :: "deployment \<Rightarrow> event \<Rightarrow> process \<Rightarrow> outcome \<times> process" where
  "deliver D (GrpcEvent md c) x = map_prod GrpcOutcome id (grpc_call D md c x)"
| "deliver D (HttpEvent r) x = map_prod HttpOutcome id (serve_http D r x)"

inductive process_run :: "deployment \<Rightarrow> process \<Rightarrow> (event \<times> outcome) list \<Rightarrow> process \<Rightarrow> bool" where
  launched: "process_run D x [] x"
| delivered: "process_run D x hist x1 \<Longrightarrow> deliver D e x1 = (out, x2) \<Longrightarrow> process_run D x (hist @ [(e, out)]) x2"

inductive_simps process_run_nil: "process_run D x [] x'"

section \<open>Requests without a key\<close>

text \<open>No value the request carries is a configured key, under whatever name it carries it.\<close>

fun keyless :: "auth \<Rightarrow> event \<Rightarrow> bool" where
  "keyless a (GrpcEvent md c) = list_all (\<lambda>(n, v). verify a v = None) md"
| "keyless a (HttpEvent r) = list_all (\<lambda>(n, v). verify a v = None) (wr_headers r)"

definition rpc_discloses :: "status + rpc_reply \<Rightarrow> bool" where
  "rpc_discloses r = (case r of
     Inl st \<Rightarrow> st_message st \<notin> {''unauthorized'', ''database unreachable''}
   | Inr (Answered a) \<Rightarrow> True
   | Inr (Healthy h) \<Rightarrow> h \<noteq> bare_health)"

definition discloses :: "outcome \<Rightarrow> bool" where
  "discloses out = (case out of
     GrpcOutcome r \<Rightarrow> rpc_discloses r
   | HttpOutcome (Proxied r) \<Rightarrow> rpc_discloses r
   | HttpOutcome _ \<Rightarrow> False)"

text \<open>Every property of the database that the other writers keep survives.\<close>

definition undisturbed :: "process \<Rightarrow> process \<Rightarrow> bool" where
  "undisturbed x x' = (px_auth x' = px_auth x \<and> px_stats x' = px_stats x \<and> px_probes x' = px_probes x \<and>
     sv_active (px_server x') = sv_active (px_server x) \<and>
     (\<forall>I. world_inv I (sv_world (px_server x)) \<longrightarrow> world_inv I (sv_world (px_server x'))))"

lemma undisturbed_refl [simp]: "undisturbed x x" "undisturbed x (ticks n x)" "undisturbed x ((ticks n x)\<lparr>px_auth := px_auth x\<rparr>)"
  by (simp_all add: undisturbed_def ticks_def)

lemma undisturbed_trans: "undisturbed x y \<Longrightarrow> undisturbed y z \<Longrightarrow> undisturbed x z"
  by (simp add: undisturbed_def)

lemma Ping_keeps: "Ping w = (r, w') \<Longrightarrow> world_inv I w \<Longrightarrow> world_inv I w'"
  unfolding Ping_def by (rule rows_keeps_inv)

lemma verify_Nil [simp]: "verify a [] = None"
  by (simp add: verify_def)

lemma keyless_metadata:
  assumes "list_all (\<lambda>(n, v). verify a v = None) md"
  shows "verify a (apiKeyFromMetadata \<lparr>g_method = m, g_keys = md_get k md, g_gateway_keys = md_get k' md,
     g_markers = ms, g_authed = False\<rparr>) = None"
proof -
  have v: "verify a v = None" if "v \<in> set (md_get k md)" for v k
    using assms that by (auto simp: md_get_def list_all_iff)
  show ?thesis using v [OF nth_mem, of 0 k] v [OF nth_mem, of 0 k'] by (simp add: apiKeyFromMetadata_def Let_def)
qed

lemma grpc_call_keyless:
  assumes "validKeys (px_auth x) \<noteq> []" "list_all (\<lambda>(n, v). verify (px_auth x) v = None) md" "grpc_call D md c x = (r, x')"
  shows "\<not> rpc_discloses r \<and> undisturbed x x'"
proof -
  note k = keyless_metadata [OF assms(2)]
  show ?thesis
  proof (cases "full_method c = healthMethod")
    case False
    then show ?thesis using assms(1,3) k
      by (auto simp: grpc_call_def UnaryInterceptor_def Let_def rpc_discloses_def status_of_def split: if_splits)
  next
    case True
    then have c: "c = HealthCall" by (cases c rule: full_method.cases) (simp_all add: healthMethod_def)
    let ?w = "sv_world (px_server (ticks 2 x))"
    obtain p w where p: "Ping ?w = (p, w)" by fastforce
    note inv = Ping_keeps [OF p]
    have "svc_Health G v ps False (?w, cache) = (case p of
        Inl e \<Rightarrow> (Inl (status_of Internal ''database unreachable''), w, cache) | Inr u \<Rightarrow> (Inr bare_health, w, cache))" for G v ps cache
      by (simp add: svc_Health_def p split: sum.split)
    then show ?thesis using assms(3) k inv
      by (cases p)
        (auto simp: grpc_call_def UnaryInterceptor_def Let_def c rpc_discloses_def status_of_def handle_def
          UnaryServerInterceptor_def undisturbed_def ticks_def)
  qed
qed

lemma get_header_value: "get_header name hs = Some v \<Longrightarrow> \<exists>n. (n, v) \<in> set hs"
  by (auto simp: get_header_def dest: find_Some_mem)

lemma keyless_incoming:
  "list_all (\<lambda>(n, v). verify a v = None) hs \<Longrightarrow> list_all (\<lambda>(n, v). verify a v = None) (incoming dflt hs)"
  by (auto simp: incoming_def list_all_iff List.map_filter_def)

lemma keyless_set_header:
  assumes "list_all (\<lambda>(n, v). verify a v = None) hs" "get_header name' hs = Some v"
  shows "list_all (\<lambda>(n, v). verify a v = None) (set_header name v hs)"
  using assms get_header_value [OF assms(2)] by (auto simp: set_header_def list_all_iff)

lemma mux_keyless:
  assumes "validKeys (px_auth x) \<noteq> []" "list_all (\<lambda>(n, v). verify (px_auth x) v = None) (wr_headers r)" "mux D r x = (a, x')"
  shows "\<not> discloses (HttpOutcome a) \<and> undisturbed x x'"
proof (cases "wr_path r = ''/readyz'' \<and> dp_clean D (wr_path r) = wr_path r")
  case True
  obtain p w where p: "Ping (sv_world (px_server x)) = (p, w)" by fastforce
  note inv = Ping_keeps [OF p]
  have "snd (Ready l pb (sv_world (px_server x))) \<in> {sv_world (px_server x), w}" for l pb
    by (auto simp: Ready_def p split: sum.split)
  then show ?thesis using assms(3) True inv
    by (auto simp: mux_def discloses_def undisturbed_def split: prod.splits) (metis insertE singletonD snd_conv)
next
  case False
  show ?thesis
  proof (cases "has_prefix (wr_path r) ''/v1/'' \<and> wr_path r \<noteq> ''/metrics'' \<and> dp_clean D (wr_path r) = wr_path r")
    case v1: True
    then have p: "wr_path r \<noteq> ''/livez'' \<and> wr_path r \<noteq> ''/startupz''"
      by (auto simp: has_prefix_def)
    note g = grpc_call_keyless [OF assms(1) keyless_incoming [OF assms(2)]]
    from v1 p False assms(3) show ?thesis
      by (cases "dp_route D r"; cases "grpc_call D (incoming (dp_matcher D) (wr_headers r)) (the (dp_route D r)) x")
        (auto simp: mux_def discloses_def Let_def dest: g)
  qed (use False assms(3) in \<open>auto simp: mux_def discloses_def Let_def split: if_splits\<close>)
qed

lemma deliver_keyless:
  assumes "validKeys (px_auth x) \<noteq> []" "keyless (px_auth x) e" "deliver D e x = (out, x')"
  shows "\<not> discloses out \<and> undisturbed x x'"
proof (cases e)
  case (GrpcEvent md c)
  with assms grpc_call_keyless [OF assms(1), of md D c]
  show ?thesis by (cases "grpc_call D md c x") (auto simp: discloses_def)
next
  case (HttpEvent r)
  let ?y = "(ticks 2 x)\<lparr>px_auth := px_auth x\<rparr>"
  let ?k = "case get_header ''X-API-Key'' (wr_headers r) of None \<Rightarrow> [] | Some v \<Rightarrow> v"
  have hs: "list_all (\<lambda>(n, v). verify (px_auth x) v = None) (wr_headers r)" using assms(2) HttpEvent by simp
  have k: "verify (px_auth x) ?k = None"
    using hs get_header_value [of "''X-API-Key''" "wr_headers r"] by (auto simp: list_all_iff split: option.split)
  have m: "\<not> discloses (HttpOutcome a) \<and> undisturbed x x''"
    if "mux D r' ?y = (a, x'')" "list_all (\<lambda>(n, v). verify (px_auth x) v = None) (wr_headers r')" for r' a x''
    using mux_keyless [of ?y r' D a x''] that assms(1) undisturbed_trans [of x ?y x''] by simp
  have "HTTPMiddleware tok (px_auth x) c n h = (Unauthorized, px_auth x) \<or>
      HTTPMiddleware tok (px_auth x) c n h = (Served h, px_auth x)" if "h_key h = ?k" for tok c n h
    using assms(1) k that by (simp add: HTTPMiddleware_def)
  from this [of "\<lparr>h_path = wr_path r, h_key = ?k, h_marker = get_header RateLimitedHeader (wr_headers r), h_authed = False\<rparr>"
      "dp_token D" "ge_clock (ms_env (dp_service D)) (tick_of x)" "ge_clock (ms_env (dp_service D)) (Suc (tick_of x))"]
  have "serve_http D r x = (Refused, ?y) \<or>
      serve_http D r x = mux D (case get_header RateLimitedHeader (wr_headers r) of None \<Rightarrow> r
        | Some v \<Rightarrow> r\<lparr>wr_headers := set_header RateLimitedHeader v (wr_headers r)\<rparr>) ?y"
    by (auto simp: serve_http_def Let_def)
  then show ?thesis
  proof
    assume "serve_http D r x = (Refused, ?y)"
    then show ?thesis using assms(3) HttpEvent by (auto simp: discloses_def)
  next
    assume s: "serve_http D r x = mux D (case get_header RateLimitedHeader (wr_headers r) of None \<Rightarrow> r
        | Some v \<Rightarrow> r\<lparr>wr_headers := set_header RateLimitedHeader v (wr_headers r)\<rparr>) ?y"
    have "list_all (\<lambda>(n, v). verify (px_auth x) v = None) (wr_headers (case get_header RateLimitedHeader (wr_headers r) of
        None \<Rightarrow> r | Some v \<Rightarrow> r\<lparr>wr_headers := set_header RateLimitedHeader v (wr_headers r)\<rparr>))"
      using hs keyless_set_header [OF hs] by (simp split: option.split)
    note q = m [OF _ this]
    obtain a y where y: "serve_http D r x = (a, y)" by fastforce
    then have "out = HttpOutcome a" "x' = y" using assms(3) HttpEvent by simp_all
    with q [OF y [unfolded s]] show ?thesis by simp
  qed
qed


definition sample_deployment :: deployment where
  "sample_deployment = \<lparr>dp_service = sample_service, dp_version = ''1'', dp_providers = \<lparr>pv_embedding = [], pv_extraction = [],
     pv_off = False\<rparr>, dp_token = ''t'', dp_route = (\<lambda>r. Some HealthCall), dp_matcher = (\<lambda>n. None), dp_clean = id,
     dp_late = (\<lambda>n. False)\<rparr>"

definition sample_process :: process where
  "sample_process = \<lparr>px_server = sample_server, px_stats = None,
     px_auth = \<lparr>validKeys = [(''h'', ''i'')], rateLimit = 1, buckets = []\<rparr>, px_probes = NewProbes, px_log = []\<rparr>"


section \<open>The life of the process\<close>

text \<open>
  Where \<open>main\<close> stands, and what is in flight.  The HTTP server listens in its own goroutine, so it may
  come up after \<open>MarkStarted\<close>.  \<open>lf_rest\<close> counts the REST requests the HTTP server is
  serving, \<open>lf_rpc\<close> the calls the gRPC server is serving, those of the gateway among them.
  \<open>Shutdown\<close> and \<open>GracefulStop\<close> refuse new work at once and return when nothing is left in flight,
  \<open>Shutdown\<close> also when its context's deadline has passed.
\<close>

datatype stage = Booting | Serving | Signalled | HttpShutdown | HttpStopped | GrpcStopping | GrpcStopped | Exited

record life =
  lf_stage :: stage
  lf_probes :: probes
  lf_http :: bool
  lf_grpc :: bool
  lf_pool :: bool
  lf_rest :: nat
  lf_rpc :: nat
  lf_late :: bool

definition boot :: life where
  "boot = \<lparr>lf_stage = Booting, lf_probes = NewProbes, lf_http = False, lf_grpc = False, lf_pool = True,
     lf_rest = 0, lf_rpc = 0, lf_late = False\<rparr>"

inductive life_step :: "life \<Rightarrow> life \<Rightarrow> bool" where
  listen_grpc: "lf_stage l = Booting \<Longrightarrow> life_step l (l\<lparr>lf_grpc := True\<rparr>)"
| listen_http: "lf_stage l \<in> {Booting, Serving, Signalled} \<Longrightarrow> lf_grpc l \<Longrightarrow> life_step l (l\<lparr>lf_http := True\<rparr>)"
| started: "lf_stage l = Booting \<Longrightarrow> lf_grpc l \<Longrightarrow>
    life_step l (l\<lparr>lf_stage := Serving, lf_probes := MarkStarted (lf_probes l)\<rparr>)"
| rest_arrives: "lf_http l \<Longrightarrow> life_step l (l\<lparr>lf_rest := Suc (lf_rest l)\<rparr>)"
| rest_leaves: "0 < lf_rest l \<Longrightarrow> life_step l (l\<lparr>lf_rest := lf_rest l - 1\<rparr>)"
| rpc_arrives: "lf_grpc l \<Longrightarrow> life_step l (l\<lparr>lf_rpc := Suc (lf_rpc l)\<rparr>)"
| rpc_leaves: "0 < lf_rpc l \<Longrightarrow> life_step l (l\<lparr>lf_rpc := lf_rpc l - 1\<rparr>)"
| signal: "lf_stage l = Serving \<Longrightarrow>
    life_step l (l\<lparr>lf_stage := Signalled, lf_probes := MarkDraining (lf_probes l)\<rparr>)"
| shutdown: "lf_stage l = Signalled \<Longrightarrow> life_step l (l\<lparr>lf_stage := HttpShutdown, lf_http := False\<rparr>)"
| deadline: "lf_stage l \<in> {Signalled, HttpShutdown} \<Longrightarrow> life_step l (l\<lparr>lf_late := True\<rparr>)"
| drained: "lf_stage l = HttpShutdown \<Longrightarrow> lf_rest l = 0 \<or> lf_late l \<Longrightarrow> life_step l (l\<lparr>lf_stage := HttpStopped\<rparr>)"
| graceful_stop: "lf_stage l = HttpStopped \<Longrightarrow> life_step l (l\<lparr>lf_stage := GrpcStopping, lf_grpc := False\<rparr>)"
| stopped: "lf_stage l = GrpcStopping \<Longrightarrow> lf_rpc l = 0 \<Longrightarrow> life_step l (l\<lparr>lf_stage := GrpcStopped\<rparr>)"
| close_pool: "lf_stage l = GrpcStopped \<Longrightarrow> life_step l (l\<lparr>lf_stage := Exited, lf_pool := False\<rparr>)"

inductive_cases life_stepE: "life_step l l'"

definition life_ok :: "life \<Rightarrow> bool" where
  "life_ok l = (
     (lf_stage l \<in> {GrpcStopped, Exited} \<longrightarrow> lf_rpc l = 0) \<and>
     (lf_pool l = (lf_stage l \<noteq> Exited)) \<and>
     (lf_stage l \<in> {GrpcStopping, GrpcStopped, Exited} \<longrightarrow> \<not> lf_grpc l) \<and>
     (lf_stage l \<in> {HttpShutdown, HttpStopped, GrpcStopping, GrpcStopped, Exited} \<longrightarrow> \<not> lf_http l) \<and>
     (lf_stage l \<in> {Serving, Signalled, HttpShutdown, HttpStopped} \<longrightarrow> lf_grpc l) \<and>
     (lf_http l \<longrightarrow> lf_grpc l) \<and>
     (0 < lf_rest l \<and> lf_stage l = Booting \<longrightarrow> lf_grpc l) \<and>
     (0 < lf_rest l \<and> lf_stage l \<in> {HttpStopped, GrpcStopping, GrpcStopped, Exited} \<longrightarrow> lf_late l) \<and>
     (pb_started (lf_probes l) = (lf_stage l \<noteq> Booting)) \<and>
     (pb_draining (lf_probes l) = (lf_stage l \<notin> {Booting, Serving})))"

lemma life_ok_boot: "life_ok boot"
  by (simp add: life_ok_def boot_def NewProbes_def)

lemma life_ok_step: "life_step l l' \<Longrightarrow> life_ok l \<Longrightarrow> life_ok l'"
  by (erule life_stepE; cases "lf_stage l"; simp add: life_ok_def MarkStarted_def MarkDraining_def; auto)

text \<open>
  C30: the order of the shutdown.  In every state the process can reach: while the connection pool is
  closed no call is being served; the gRPC server accepts calls as long as a REST request is in
  flight, unless the fifteen seconds of the drain have passed; the process reports itself ready only
  before the signal and while the gRPC server accepts, so it stops being ready before it drains.
  But only the HTTP half of the drain has a deadline: while a call is in flight \<open>GracefulStop\<close> does
  not return, whatever else happens.
\<close>

theorem shutdown_order:
  assumes "life_step\<^sup>*\<^sup>* boot l"
  shows "(lf_pool l \<or> lf_rpc l = 0) \<and>
    (lf_rest l = 0 \<or> lf_grpc l \<or> lf_late l) \<and>
    (fst (fst (Ready late (lf_probes l) w)) = 200 \<longrightarrow> lf_stage l = Serving \<and> lf_grpc l) \<and>
    (life_step l l' \<and> lf_stage l = GrpcStopping \<and> 0 < lf_rpc l \<longrightarrow> lf_stage l' = GrpcStopping)"
proof -
  have ok: "life_ok l" using assms by (induction) (auto intro: life_ok_boot life_ok_step)
  have "lf_stage l' = GrpcStopping" if "life_step l l'" "lf_stage l = GrpcStopping" "0 < lf_rpc l"
    using that by (elim life_stepE) auto
  then show ?thesis
    using ok by (cases "lf_stage l") (auto simp: life_ok_def Ready_iff)
qed

definition stuck :: life where
  "stuck = \<lparr>lf_stage = GrpcStopping, lf_probes = \<lparr>pb_started = True, pb_draining = True\<rparr>, lf_http = False, lf_grpc = False,
     lf_pool = True, lf_rest = 0, lf_rpc = 1, lf_late = False\<rparr>"

lemma stuck_reachable: "life_step\<^sup>*\<^sup>* boot stuck"
proof -
  let ?l = "\<lambda>st d g. \<lparr>lf_stage = st, lf_probes = \<lparr>pb_started = st \<noteq> Booting, pb_draining = d\<rparr>, lf_http = False, lf_grpc = g,
     lf_pool = True, lf_rest = 0, lf_rpc = 0, lf_late = False\<rparr>"
  have "life_step boot (?l Booting False True)"
    using listen_grpc [of boot] by (simp add: boot_def NewProbes_def)
  moreover have "life_step (?l Booting False True) (?l Serving False True)"
    using started [of "?l Booting False True"] by (simp add: MarkStarted_def)
  moreover have "life_step (?l Serving False True) (?l Signalled True True)"
    using signal [of "?l Serving False True"] by (simp add: MarkDraining_def)
  moreover have "life_step (?l Signalled True True) (?l HttpShutdown True True)"
    using shutdown [of "?l Signalled True True"] by simp
  moreover have "life_step (?l HttpShutdown True True) (?l HttpStopped True True)"
    using drained [of "?l HttpShutdown True True"] by simp
  moreover have "life_step (?l HttpStopped True True) ((?l HttpStopped True True)\<lparr>lf_rpc := 1\<rparr>)"
    using rpc_arrives [of "?l HttpStopped True True"] by simp
  moreover have "life_step ((?l HttpStopped True True)\<lparr>lf_rpc := 1\<rparr>) stuck"
    using graceful_stop [of "(?l HttpStopped True True)\<lparr>lf_rpc := 1\<rparr>"] by (simp add: stuck_def)
  ultimately show ?thesis by (meson converse_rtranclp_into_rtranclp rtranclp.rtrancl_refl)
qed

lemma shutdown_order_witness:
  "lf_pool stuck \<and> lf_rpc stuck = 1 \<and> fst (fst (Ready False (lf_probes stuck) (sample_world []))) \<noteq> 200"
  using shutdown_order [OF stuck_reachable, of False "sample_world []"] by (simp add: stuck_def)

end
