(* ===== verification/Client.thy ===== *)
theory Client
  imports Gateway
begin

text \<open>
  The command line client, \<^verbatim>\<open>cmd/cli/main.go\<close>, in front of the assembled server.  A command reads its
  arguments with package \<^verbatim>\<open>flag\<close>, then either exits with an error or sends one request and prints the
  answer (\<open>plan\<close>); \<open>cli\<close> runs the plan against a process.  What is printed is kept as a value, not as
  formatted text.  \<open>strconv.ParseFloat\<close> and the random draws of a key are parameters.
\<close>

section \<open>Package flag\<close>

text \<open>A flag set: the name of each flag, whether it is boolean, and what its \<open>Set\<close> does to the variables.\<close>

type_synonym 'v flag_set = "(string \<times> bool \<times> (string \<Rightarrow> 'v \<Rightarrow> 'v option)) list"

definition dash :: char where "dash = CHR ''-''"

text \<open>\<open>name=value\<close>, where the name has at least one character.\<close>

definition cut_flag :: "string \<Rightarrow> string \<times> string option" where
  "cut_flag s =
     (let name = take 1 s @ takeWhile (\<lambda>c. c \<noteq> equals_sign) (drop 1 s) in
      (name, if length name = length s then None else Some (drop (Suc (length name)) s)))"

text \<open>
  \<open>FlagSet.Parse\<close> with \<open>ContinueOnError\<close>: parsing ends at the first argument that is no flag, or after
  \<open>--\<close>; what follows is left to the caller.  A flag without \<open>=\<close> takes the next argument as its value,
  unless it is boolean.
\<close>

fun parse_flags :: "'v flag_set \<Rightarrow> string list \<Rightarrow> 'v \<Rightarrow> 'v option" where
  "parse_flags fs [] v = Some v"
| "parse_flags fs (s # args) v =
     (if length s < 2 \<or> hd s \<noteq> dash \<or> s = [dash, dash] then Some v
      else let name = (if s ! 1 = dash then drop 2 s else drop 1 s) in
        if name = [] \<or> hd name = dash \<or> hd name = equals_sign then None
        else case cut_flag name of (n, value) \<Rightarrow>
          (case map_of fs n of
             None \<Rightarrow> None
           | Some (boolean, set_value) \<Rightarrow>
               (case value of
                  Some x \<Rightarrow> (case set_value x v of None \<Rightarrow> None | Some v \<Rightarrow> parse_flags fs args v)
                | None \<Rightarrow>
                    if boolean then (case set_value ''true'' v of None \<Rightarrow> None | Some v \<Rightarrow> parse_flags fs args v)
                    else (case args of
                       [] \<Rightarrow> None
                     | x # args \<Rightarrow> (case set_value x v of None \<Rightarrow> None | Some v \<Rightarrow> parse_flags fs args v)))))"

subsection \<open>\<open>strconv.ParseInt\<close> with base 0\<close>

definition underscore_char :: char where "underscore_char = CHR ''_''"

text \<open>The base a prefix names, and the rest.\<close>

definition int_base :: "string \<Rightarrow> nat \<times> string" where
  "int_base s =
     (if take 1 s \<noteq> ''0'' then (10, s)
      else if length s \<ge> 3 \<and> lower_char (s ! 1) = CHR ''b'' then (2, drop 2 s)
      else if length s \<ge> 3 \<and> lower_char (s ! 1) = CHR ''o'' then (8, drop 2 s)
      else if length s \<ge> 3 \<and> lower_char (s ! 1) = CHR ''x'' then (16, drop 2 s)
      else (8, drop 1 s))"

definition digit_value :: "char \<Rightarrow> nat option" where
  "digit_value c =
     (if is_digit c then Some (code_of c - 48)
      else if is_lower (lower_char c) then Some (code_of (lower_char c) - 87)
      else None)"

text \<open>The value of the digits, over which underscores are skipped.\<close>

fun digits_in :: "nat \<Rightarrow> string \<Rightarrow> int \<Rightarrow> int option" where
  "digits_in base [] n = Some n"
| "digits_in base (c # s) n =
     (if c = underscore_char then digits_in base s n
      else case digit_value c of
        None \<Rightarrow> None
      | Some d \<Rightarrow> if d \<ge> base then None else digits_in base s (n * int base + int d))"

text \<open>\<open>underscoreOK\<close>: underscores only between digits, the prefix counting as one.\<close>

datatype seen = SawStart | SawDigit | SawUnderscore | SawOther

fun underscores_from :: "bool \<Rightarrow> seen \<Rightarrow> string \<Rightarrow> bool" where
  "underscores_from hex i [] = (i \<noteq> SawUnderscore)"
| "underscores_from hex i (c # s) =
     (if is_digit c \<or> (hex \<and> 97 \<le> code_of (lower_char c) \<and> code_of (lower_char c) \<le> 102) then underscores_from hex SawDigit s
      else if c = underscore_char then i = SawDigit \<and> underscores_from hex SawUnderscore s
      else i \<noteq> SawUnderscore \<and> underscores_from hex SawOther s)"

definition underscoreOK :: "string \<Rightarrow> bool" where
  "underscoreOK s =
     (if length s \<ge> 2 \<and> s ! 0 = CHR ''0'' \<and> lower_char (s ! 1) \<in> {CHR ''b'', CHR ''o'', CHR ''x''}
      then underscores_from (lower_char (s ! 1) = CHR ''x'') SawDigit (drop 2 s)
      else underscores_from False SawStart s)"

definition parse_int :: "string \<Rightarrow> int option" where
  "parse_int s =
     (let neg = (take 1 s = [dash]);
          body = (if neg \<or> take 1 s = ''+'' then drop 1 s else s);
          (base, ds) = int_base body
      in if body = [] \<or> underscore_char \<in> set ds \<and> \<not> underscoreOK body then None
         else case digits_in base ds 0 of
           None \<Rightarrow> None
         | Some n \<Rightarrow> (let v = (if neg then - n else n) in if v < - (2 ^ 63) \<or> v \<ge> 2 ^ 63 then None else Some v))"

section \<open>What a command does\<close>

datatype cli_error =
    Usage string | UnknownCommand string | BadMemoryType string | BadRelationship string
  | NegativeFlag string int | FlagTooLarge string int | CallFailed string status | KeyRejected | NoKey

datatype printed =
    ShowMemory pb_memory | ShowEdge pb_edge | ShowResults "pb_memory_ctx list" | ShowDeleted string
  | ShowSubgraph string int "(pb_enum \<times> string \<times> string) list" "(string \<times> pb_enum \<times> string \<times> f64) list"
  | ShowStats string nat nat | ShowSession string | ShowEnded string int | ShowKey string

text \<open>Exit status 0, exit status 1, or a run-time panic.\<close>

datatype cli_exit = Printed printed | Fatal cli_error | Panicked

datatype plan = Stop cli_exit | Send rpc_call "status + rpc_reply \<Rightarrow> cli_exit"

text \<open>The stub of a method decodes its own response type; any other reply would be a fault of the stub.\<close>

definition on_reply :: "string \<Rightarrow> (rpc_reply \<Rightarrow> cli_exit) \<Rightarrow> status + rpc_reply \<Rightarrow> cli_exit" where
  "on_reply what k r = (case r of Inl st \<Rightarrow> Fatal (CallFailed what st) | Inr y \<Rightarrow> k y)"

definition int32Flag :: "string \<Rightarrow> int \<Rightarrow> cli_error + int" where
  "int32Flag name v =
     (if v \<ge> 0 \<and> v \<le> MaxInt32 then Inr v
      else if v < 0 then Inl (NegativeFlag name v)
      else Inl (FlagTooLarge name v))"

definition cli_parseMemoryType :: "string \<Rightarrow> cli_error + pb_enum" where
  "cli_parseMemoryType s =
     (let t = to_lower s in
      if t = ''episodic'' then Inr MEMORY_TYPE_EPISODIC
      else if t = ''semantic'' then Inr MEMORY_TYPE_SEMANTIC
      else if t = ''procedural'' then Inr MEMORY_TYPE_PROCEDURAL
      else Inl (BadMemoryType s))"

definition parseRelType :: "string \<Rightarrow> cli_error + pb_enum" where
  "parseRelType s =
     (let t = to_lower s in
      if t = ''relates_to'' then Inr RELATIONSHIP_TYPE_RELATES_TO
      else if t = ''supersedes'' then Inr RELATIONSHIP_TYPE_SUPERSEDES
      else if t = ''caused_by'' then Inr RELATIONSHIP_TYPE_CAUSED_BY
      else Inl (BadRelationship s))"

fun parse_types :: "string list \<Rightarrow> cli_error + pb_enum list" where
  "parse_types [] = Inr []"
| "parse_types (t # ts) = (case cli_parseMemoryType t of Inl e \<Rightarrow> Inl e | Inr x \<Rightarrow> map_sum id ((#) x) (parse_types ts))"

definition truncate_text :: "string \<Rightarrow> nat \<Rightarrow> string" where
  "truncate_text s maxLen = (if length s \<le> maxLen then s else take (maxLen - 3) s @ ''...'')"

text \<open>\<open>s[:8]\<close>, which panics on a shorter string.\<close>

definition first8 :: "string \<Rightarrow> string option" where
  "first8 s = (if length s < 8 then None else Some (take 8 s))"

subsection \<open>The commands\<close>

record store_flags =
  fl_type :: string
  fl_tags :: string
  fl_session :: string

definition cmdStore :: "string \<Rightarrow> string list \<Rightarrow> plan" where
  "cmdStore projectID args =
     (if args = [] then Stop (Fatal (Usage ''store''))
      else case parse_flags [(''type'', False, \<lambda>x v. Some (v\<lparr>fl_type := x\<rparr>)), (''tags'', False, \<lambda>x v. Some (v\<lparr>fl_tags := x\<rparr>)),
                  (''session'', False, \<lambda>x v. Some (v\<lparr>fl_session := x\<rparr>))] (tl args)
                \<lparr>fl_type = ''semantic'', fl_tags = [], fl_session = []\<rparr> of
        None \<Rightarrow> Stop (Fatal (Usage ''store''))
      | Some v \<Rightarrow>
          let tags = (if fl_tags v = [] then [] else split_char (CHR '','') (fl_tags v)) in
          case cli_parseMemoryType (fl_type v) of
            Inl e \<Rightarrow> Stop (Fatal e)
          | Inr t \<Rightarrow>
              Send (KoraCall (StoreRPC \<lparr>sr_content = hd args, sr_type = t, sr_project = projectID, sr_tags = tags,
                                        sr_session = fl_session v\<rparr>))
                (on_reply ''store failed'' (\<lambda>y. case y of Answered (Stored m) \<Rightarrow> Printed (ShowMemory m) | _ \<Rightarrow> Panicked)))"

record query_flags =
  fl_topk :: int
  fl_types :: "string list"

definition cmdQuery :: "string \<Rightarrow> string list \<Rightarrow> plan" where
  "cmdQuery projectID args =
     (if args = [] then Stop (Fatal (Usage ''query''))
      else case parse_flags [(''top-k'', False, \<lambda>x v. map_option (\<lambda>n. v\<lparr>fl_topk := n\<rparr>) (parse_int x)),
                  (''type'', False, \<lambda>x v. Some (v\<lparr>fl_types := fl_types v @ [x]\<rparr>))] (tl args)
                \<lparr>fl_topk = 5, fl_types = []\<rparr> of
        None \<Rightarrow> Stop (Fatal (Usage ''query''))
      | Some v \<Rightarrow>
          case parse_types (fl_types v) of
            Inl e \<Rightarrow> Stop (Fatal e)
          | Inr types \<Rightarrow>
              case int32Flag ''top-k'' (fl_topk v) of
                Inl e \<Rightarrow> Stop (Fatal e)
              | Inr k \<Rightarrow>
                  Send (KoraCall (QueryRPC \<lparr>qr_query = hd args, qr_project = projectID, qr_topk = k, qr_types = types\<rparr>))
                    (on_reply ''query failed'' (\<lambda>y. case y of Answered (Found rs) \<Rightarrow> Printed (ShowResults rs) | _ \<Rightarrow> Panicked)))"

definition cmdConnect :: "(string \<Rightarrow> f64 option) \<Rightarrow> string list \<Rightarrow> plan" where
  "cmdConnect parse args =
     (if length args < 3 then Stop (Fatal (Usage ''connect''))
      else case parseRelType (args ! 2) of
        Inl e \<Rightarrow> Stop (Fatal e)
      | Inr rel \<Rightarrow>
          case parse_flags [(''weight'', False, \<lambda>x v. parse x)] (drop 3 args) (Fin 1) of
            None \<Rightarrow> Stop (Fatal (Usage ''connect''))
          | Some weight \<Rightarrow>
              Send (KoraCall (ConnectRPC \<lparr>cr_from = args ! 0, cr_to = args ! 1, cr_relationship = rel, cr_weight = weight\<rparr>))
                (on_reply ''connect failed'' (\<lambda>y. case y of Answered (Connected e) \<Rightarrow> Printed (ShowEdge e) | _ \<Rightarrow> Panicked)))"

definition cmdDelete :: "string list \<Rightarrow> plan" where
  "cmdDelete args =
     (if args = [] then Stop (Fatal (Usage ''delete''))
      else Send (KoraCall (DeleteRPC (hd args))) (on_reply ''delete failed'' (\<lambda>y. Printed (ShowDeleted (hd args)))))"

definition node_line :: "pb_memory \<Rightarrow> (pb_enum \<times> string \<times> string) option" where
  "node_line n = map_option (\<lambda>i. (pm_type n, i, truncate_text (pm_content n) 60)) (first8 (pm_id n))"

definition edge_line :: "pb_edge \<Rightarrow> (string \<times> pb_enum \<times> string \<times> f64) option" where
  "edge_line e =
     (case first8 (pe_from e) of
        None \<Rightarrow> None
      | Some a \<Rightarrow> map_option (\<lambda>b. (a, pe_relationship e, b, pe_weight e)) (first8 (pe_to e)))"

text \<open>The depth is checked and sent; the server reads no such field, and \<open>GetGraphRPC\<close> has none.\<close>

definition cmdGraph :: "string list \<Rightarrow> plan" where
  "cmdGraph args =
     (if args = [] then Stop (Fatal (Usage ''graph''))
      else case parse_flags [(''depth'', False, \<lambda>x v. parse_int x)] (tl args) 2 of
        None \<Rightarrow> Stop (Fatal (Usage ''graph''))
      | Some depth \<Rightarrow>
          case int32Flag ''depth'' depth of
            Inl e \<Rightarrow> Stop (Fatal e)
          | Inr d \<Rightarrow>
              Send (KoraCall (GetGraphRPC (hd args)))
                (on_reply ''graph failed'' (\<lambda>y. case y of
                     Answered (response.Graph nodes edges) \<Rightarrow>
                       (case (those (map node_line nodes), those (map edge_line edges)) of
                          (Some ns, Some es) \<Rightarrow> Printed (ShowSubgraph (hd args) depth ns es)
                        | _ \<Rightarrow> Panicked)
                   | _ \<Rightarrow> Panicked)))"

definition cmdStats :: "string \<Rightarrow> plan" where
  "cmdStats apiKey =
     Send HealthCall (on_reply ''stats failed'' (\<lambda>y. case y of
         Healthy h \<Rightarrow>
           if apiKey \<noteq> [] \<and> ht_version h = [] then Fatal KeyRejected
           else Printed (ShowStats (ht_version h) (ht_nodes h) (ht_edges h))
       | _ \<Rightarrow> Panicked))"

definition cmdSessionStart :: "string \<Rightarrow> string list \<Rightarrow> plan" where
  "cmdSessionStart projectID args =
     Send (KoraCall (StartSessionRPC \<lparr>tr_project = projectID, tr_agent = (if args = [] then ''cli'' else hd args)\<rparr>))
       (on_reply ''session start failed'' (\<lambda>y. case y of Answered (Started s) \<Rightarrow> Printed (ShowSession (ps_id s)) | _ \<Rightarrow> Panicked))"

text \<open>\<open>AsTime\<close>, where an absent timestamp is the epoch.\<close>

definition as_time :: "timestamp option \<Rightarrow> gtime" where
  "as_time t = (case t of None \<Rightarrow> 0 | Some t \<Rightarrow> ts_seconds t * 10 ^ 9 + ts_nanos t)"

definition cmdSessionEnd :: "string list \<Rightarrow> plan" where
  "cmdSessionEnd args =
     (if args = [] then Stop (Fatal (Usage ''session-end''))
      else Send (KoraCall (EndSessionRPC (hd args)))
        (on_reply ''session end failed'' (\<lambda>y. case y of
             Answered (Ended s) \<Rightarrow> Printed (ShowEnded (ps_id s) (time_sub (as_time (ps_ended s)) (as_time (Some (ps_started s)))))
           | _ \<Rightarrow> Panicked)))"

definition runKeys :: "(nat list option \<times> nat list option) \<Rightarrow> string list \<Rightarrow> cli_exit" where
  "runKeys draws args =
     (if args = [] \<or> hd args \<noteq> ''generate'' then Fatal (Usage ''keys'')
      else case GenerateKey (fst draws) (snd draws) of
        None \<Rightarrow> Fatal NoKey
      | Some k \<Rightarrow> Printed (ShowKey (key_String k)))"

text \<open>The old names that are set, each with the name to use instead.\<close>

definition warnRenamedEnv :: "string list \<Rightarrow> (string \<times> string) list" where
  "warnRenamedEnv env =
     map (\<lambda>(name, v). (name, ''KORA_'' @ trim_prefix name ''CONTEXT0_''))
       (filter (\<lambda>(name, v). has_prefix name ''CONTEXT0_'') (entries env))"

definition dispatch :: "(string \<Rightarrow> f64 option) \<Rightarrow> string list \<Rightarrow> string \<Rightarrow> string list \<Rightarrow> plan" where
  "dispatch parse env cmd args =
     (let apiKey = getenv env ''KORA_API_KEY''; projectID = getEnv env ''KORA_PROJECT'' ''default'' in
      if cmd = ''store'' then cmdStore projectID args
      else if cmd = ''query'' then cmdQuery projectID args
      else if cmd = ''connect'' then cmdConnect parse args
      else if cmd = ''delete'' then cmdDelete args
      else if cmd = ''graph'' then cmdGraph args
      else if cmd = ''stats'' then cmdStats apiKey
      else if cmd = ''session-start'' then cmdSessionStart projectID args
      else if cmd = ''session-end'' then cmdSessionEnd args
      else Stop (Fatal (UnknownCommand cmd)))"

text \<open>\<open>main\<close>, connected to a process; \<open>args\<close> is \<open>os.Args[1:]\<close>.\<close>

definition cli ::
  "(string \<Rightarrow> f64 option) \<Rightarrow> (nat list option \<times> nat list option) \<Rightarrow> deployment \<Rightarrow> string list \<Rightarrow> string list \<Rightarrow> process \<Rightarrow>
    cli_exit \<times> process" where
  "cli parse draws D env args x =
     (case args of
        [] \<Rightarrow> (Fatal (Usage ''kora''), x)
      | cmd # rest \<Rightarrow>
          if cmd = ''keys'' then (runKeys draws rest, x)
          else
            let apiKey = getenv env ''KORA_API_KEY'';
                md = (if apiKey \<noteq> [] then [(''x-api-key'', apiKey)] else [])
            in case dispatch parse env cmd rest of
                 Stop out \<Rightarrow> (out, x)
               | Send c k \<Rightarrow> (case grpc_call D md c x of (r, x') \<Rightarrow> (k r, x')))"

section \<open>What the client sends and how it ends\<close>

text \<open>A request the server will not refuse for an enum, a project or a negative count.\<close>

fun valid_call :: "rpc_call \<Rightarrow> bool" where
  "valid_call (KoraCall (StoreRPC r)) = (protoToMemoryType (sr_type r) \<noteq> None \<and> sr_project r \<noteq> [])"
| "valid_call (KoraCall (QueryRPC r)) =
     (0 \<le> qr_topk r \<and> qr_topk r \<le> MaxInt32 \<and> qr_project r \<noteq> [] \<and>
      list_all (\<lambda>t. protoToMemoryType t \<noteq> None) (qr_types r))"
| "valid_call (KoraCall (ConnectRPC r)) = (protoToRelType (cr_relationship r) \<noteq> None)"
| "valid_call (KoraCall (StartSessionRPC r)) = (tr_project r \<noteq> [])"
| "valid_call c = True"

text \<open>The reply the stub of a request can decode, with ids of at least eight characters in a graph.\<close>

fun fits_reply :: "rpc_call \<Rightarrow> rpc_reply \<Rightarrow> bool" where
  "fits_reply (KoraCall (StoreRPC r)) y = (\<exists>m. y = Answered (Stored m))"
| "fits_reply (KoraCall (QueryRPC r)) y = (\<exists>ms. y = Answered (Found ms))"
| "fits_reply (KoraCall (ConnectRPC r)) y = (\<exists>e. y = Answered (Connected e))"
| "fits_reply (KoraCall (GetGraphRPC i)) y =
     (\<exists>ns es. y = Answered (response.Graph ns es) \<and> (\<forall>n \<in> set ns. 8 \<le> length (pm_id n)) \<and>
       (\<forall>e \<in> set es. 8 \<le> length (pe_from e) \<and> 8 \<le> length (pe_to e)))"
| "fits_reply (KoraCall (StartSessionRPC r)) y = (\<exists>s. y = Answered (Started s))"
| "fits_reply (KoraCall (EndSessionRPC i)) y = (\<exists>s. y = Answered (Ended s))"
| "fits_reply (KoraCall c) y = (\<exists>a. y = Answered a)"
| "fits_reply HealthCall y = (\<exists>h. y = Healthy h)"

lemma map_sum_InrE: "map_sum f g r = Inr y \<Longrightarrow> (\<And>z. r = Inr z \<Longrightarrow> y = g z \<Longrightarrow> P) \<Longrightarrow> P"
  by (cases r) auto

lemma svc_GetGraph_ids:
  assumes "svc_GetGraph S i w = (Inr (ns, es), w')" "\<And>j. 8 \<le> length (ge_ustr (ms_env S) j)"
  shows "\<forall>n \<in> set ns. 8 \<le> length (pm_id n)" "\<forall>e \<in> set es. 8 \<le> length (pe_from e) \<and> 8 \<le> length (pe_to e)"
  using assms
  by (auto simp: svc_GetGraph_def refuse_def call_def reply_def memoryToProto_def edgeToProto_def
      split: if_splits option.splits sum.splits prod.splits)

lemma serve_fits:
  assumes "Service.serve S q s = (Inr a, s')" "\<And>j. 8 \<le> length (ge_ustr (ms_env S) j)"
  shows "fits_reply (KoraCall q) (Answered a)"
proof (cases q)
  case (GetGraphRPC i)
  then show ?thesis using assms svc_GetGraph_ids [OF _ assms(2)]
    by (auto simp: answer_def on_world_def split: sum.splits prod.splits)
qed (use assms in \<open>auto simp: answer_def split: sum.splits prod.splits\<close>)

lemma grpc_call_fits:
  assumes "grpc_call D md c x = (Inr y, x')" "\<And>j. 8 \<le> length (ge_ustr (ms_env (dp_service D)) j)"
  shows "fits_reply c y"
proof -
  have "fits_reply c z" if "handle D b c x1 = (Inr z, x2)" for b z x1 x2
  proof (cases c)
    case (KoraCall q)
    then show ?thesis using that serve_fits [OF _ assms(2)]
      by (auto simp: handle_def split: prod.splits sum.splits elim!: map_sum_InrE)
  next
    case HealthCall
    then show ?thesis using that by (auto simp: handle_def split: prod.splits elim!: map_sum_InrE)
  qed
  then show ?thesis using assms(1)
    by (auto simp: grpc_call_def Let_def UnaryServerInterceptor_def split: prod.splits grpc_outcome.splits)
qed

lemma those_map_Some: "(\<And>x. x \<in> set xs \<Longrightarrow> \<exists>y. f x = Some y) \<Longrightarrow> \<exists>ys. those (map f xs) = Some ys"
  by (induction xs) fastforce+

lemma graph_lines:
  "\<forall>n \<in> set ns. 8 \<le> length (pm_id n) \<Longrightarrow> \<exists>ls. those (map node_line ns) = Some ls"
  "\<forall>e \<in> set es. 8 \<le> length (pe_from e) \<and> 8 \<le> length (pe_to e) \<Longrightarrow> \<exists>ls. those (map edge_line es) = Some ls"
  by (auto intro!: those_map_Some simp: node_line_def edge_line_def first8_def)

lemma enum_defined:
  "cli_parseMemoryType s = Inr t \<Longrightarrow> \<exists>m. protoToMemoryType t = Some m"
  "parseRelType s = Inr r \<Longrightarrow> \<exists>l. protoToRelType r = Some l"
  by (auto simp: cli_parseMemoryType_def parseRelType_def Let_def pb_enum_defs protoToMemoryType_def protoToRelType_def split: if_splits)

lemma parse_types_defined: "parse_types ts = Inr xs \<Longrightarrow> list_all (\<lambda>t. protoToMemoryType t \<noteq> None) xs"
  by (induction ts arbitrary: xs) (auto split: sum.splits elim!: map_sum_InrE dest: enum_defined)

lemma int32Flag_Inr: "int32Flag n v = Inr k \<Longrightarrow> k = v \<and> 0 \<le> k \<and> k \<le> MaxInt32"
  by (auto simp: int32Flag_def split: if_splits)

lemmas command_defs = cmdStore_def cmdQuery_def cmdConnect_def cmdDelete_def cmdGraph_def cmdStats_def
  cmdSessionStart_def cmdSessionEnd_def

lemma getEnv_nonempty: "d \<noteq> [] \<Longrightarrow> getEnv env k d \<noteq> []"
  by (simp add: getEnv_def Let_def)

lemma command_valid:
  assumes "dispatch parse env cmd args = Send c k"
  shows "valid_call c"
  using assms getEnv_nonempty [of "''default''" env "''KORA_PROJECT''"]
  by (auto simp: dispatch_def command_defs Let_def split: if_splits option.splits sum.splits
      dest!: enum_defined parse_types_defined int32Flag_Inr)

lemma command_no_panic: "dispatch parse env cmd args = Send c k \<Longrightarrow> fits_reply c y \<Longrightarrow> k (Inr y) \<noteq> Panicked"
  by (auto simp: dispatch_def command_defs on_reply_def Let_def split: if_splits option.splits sum.splits dest!: graph_lines)

lemma command_fails: "dispatch parse env cmd args = Send c k \<Longrightarrow> \<exists>w. k (Inl st) = Fatal (CallFailed w st)"
  by (auto simp: dispatch_def command_defs on_reply_def Let_def split: if_splits option.splits sum.splits)

lemma command_stops: "dispatch parse env cmd args = Stop out \<Longrightarrow> \<exists>e. out = Fatal e"
  by (auto simp: dispatch_def command_defs Let_def split: if_splits option.splits sum.splits)

lemma command_health:
  assumes "dispatch parse env cmd args = Send HealthCall k"
  shows "cmd = ''stats''" "getenv env ''KORA_API_KEY'' \<noteq> [] \<Longrightarrow> k (Inr (Healthy bare_health)) = Fatal KeyRejected"
  using assms
  by (auto simp: dispatch_def command_defs on_reply_def bare_health_def Let_def split: if_splits option.splits sum.splits)



section \<open>Where flags end\<close>

text \<open>The first argument is taken as it is and parsing ends at the first argument that is no flag, so a
  flag before the text, or after a stray word, is dropped without a message.\<close>

lemma flags_in_the_wrong_place:
  "\<exists>k. cmdStore p [''--type'', ''episodic'', ''text''] =
     Send (KoraCall (StoreRPC \<lparr>sr_content = ''--type'', sr_type = MEMORY_TYPE_SEMANTIC, sr_project = p, sr_tags = [],
       sr_session = []\<rparr>)) k"
  "\<exists>k. cmdQuery p [''what'', ''now'', ''--top-k'', ''3''] =
     Send (KoraCall (QueryRPC \<lparr>qr_query = ''what'', qr_project = p, qr_topk = 5, qr_types = []\<rparr>)) k"
  by (simp_all add: cmdStore_def cmdQuery_def dash_def cli_parseMemoryType_def to_lower_def lower_char_def is_upper_def code_of_def
      int32Flag_def MaxInt32_def Let_def)

text \<open>\<open>truncate\<close> cuts bytes: here a letter of two bytes in UTF-8, of which the first remains.\<close>

lemma truncate_splits_runes:
  "truncate_text (replicate 56 (CHR ''a'') @ [CHR 0xC3, CHR 0xA9] @ ''abc'') 60 =
     replicate 56 (CHR ''a'') @ [CHR 0xC3] @ ''...''"
  by (simp add: truncate_text_def)

lemma parse_int_examples:
  "parse_int ''-12'' = Some (- 12)" "parse_int ''0x1F'' = Some 31" "parse_int ''1_000'' = Some 1000" "parse_int ''017'' = Some 15"
  "parse_int ''1__0'' = None" "parse_int ''08'' = None" "parse_int [] = None" "parse_int ''9223372036854775808'' = None"
  by code_simp+

end
