(* ===== verification/Evalset.thy ===== *)
theory Evalset
  imports Effects "HOL-Library.AList"
begin

text \<open>
  \<^verbatim>\<open>internal/evalset\<close>: the offline evaluation of retrieval.  The corpus and its evidence, the score of
  a ranked list, the aggregate metrics, the embedding fixture as the bytes of its file, and the
  loader.  A float32 is its 32 bits.
\<close>

section \<open>Questions and corpus\<close>

record question =
  q_id :: string
  q_conversation :: string
  q_category :: string
  q_question :: string
  q_answer :: string
  q_adversarial :: string
  q_evidence :: "string list"

record doc =
  dc_id :: uuid
  dc_conversation :: string
  dc_content :: string
  dc_type :: memory_type
  dc_tags :: "string list"
  dc_created :: gtime
  dc_entities :: "string list"
  dc_sources :: "string list"

definition TurnKey :: "string \<Rightarrow> string \<Rightarrow> string" where
  "TurnKey conversation diaID = conversation @ ''/'' @ diaID"

definition ProjectID :: "string \<Rightarrow> string" where "ProjectID conversation = ''locomo-'' @ conversation"

definition Present :: "doc list \<Rightarrow> string \<Rightarrow> bool" where
  "Present docs = (\<lambda>k. list_ex (\<lambda>d. k \<in> set (dc_sources d)) docs)"

text \<open>A missing key of the map reads as the nil slice; a later document of an id replaces an earlier one.\<close>

definition Sources :: "doc list \<Rightarrow> uuid \<Rightarrow> string list" where
  "Sources docs = fold (\<lambda>d out. out(dc_id d := dc_sources d)) docs (\<lambda>_. [])"

text \<open>A rendered turn, of which the corpus keeps the text verbatim.\<close>

record turn =
  tn_dia :: string
  tn_conversation :: string
  tn_session :: int
  tn_date :: gtime
  tn_speaker :: string
  tn_text :: string
  tn_content :: string

definition corpus_base :: gtime where "corpus_base = 1788084000 * 1000000000"

text \<open>\<open>sha1\<close>: the identifier \<open>uuid.NewSHA1\<close> makes of a turn's key.\<close>

definition TurnsCorpus :: "(string \<Rightarrow> uuid) \<Rightarrow> (string \<Rightarrow> string list) \<Rightarrow> turn list \<Rightarrow> doc list" where
  "TurnsCorpus sha1 extract turns =
     map (\<lambda>t. let key = TurnKey (tn_conversation t) (tn_dia t) in
       \<lparr>dc_id = sha1 key, dc_conversation = tn_conversation t, dc_content = tn_content t,
        dc_type = MemoryTypeEpisodic, dc_tags = [], dc_created = corpus_base + tn_session t * 60000000000,
        dc_entities = extract (tn_content t), dc_sources = [key]\<rparr>) turns"

section \<open>Scoring one question\<close>

record question_result =
  qr_id :: string
  qr_category :: string
  qr_conversation :: string
  qr_annotated :: nat
  qr_present :: nat
  qr_ranks :: "int list"
  qr_retrieved :: "uuid list"

definition Scorable :: "question_result \<Rightarrow> bool" where "Scorable r = (qr_present r > 0)"

text \<open>The keys of \<open>truth\<close>, each once.\<close>

definition truth_of :: "question \<Rightarrow> (string \<Rightarrow> bool) \<Rightarrow> string list" where
  "truth_of q present =
     first_by (\<lambda>k. k) (\<lambda>k. False) {} (filter present (map (TurnKey (q_conversation q)) (q_evidence q)))"

text \<open>The two loops that fill \<open>found\<close>: the first document covering a turn sets its rank.\<close>

definition cover :: "string list \<Rightarrow> int \<Rightarrow> string list \<Rightarrow> (string \<rightharpoonup> int) \<Rightarrow> (string \<rightharpoonup> int)" where
  "cover truth rank sources found =
     fold (\<lambda>s found. if s \<in> set truth \<and> found s = None then found(s \<mapsto> rank) else found) sources found"

fun find_ranks :: "string list \<Rightarrow> (uuid \<Rightarrow> string list) \<Rightarrow> int \<Rightarrow> uuid list \<Rightarrow> (string \<rightharpoonup> int) \<Rightarrow> (string \<rightharpoonup> int)" where
  "find_ranks truth sources i [] found = found"
| "find_ranks truth sources i (d # ds) found =
     find_ranks truth sources (i + 1) ds (cover truth (i + 1) (sources d) found)"

text \<open>Go's \<open>Score\<close>.  The map's values come in any order and are then sorted.\<close>

definition score_question :: "question \<Rightarrow> uuid list \<Rightarrow> (uuid \<Rightarrow> string list) \<Rightarrow> (string \<Rightarrow> bool) \<Rightarrow> question_result" where
  "score_question q retrieved sources present =
     (let truth = truth_of q present; found = find_ranks truth sources 0 retrieved Map.empty in
      \<lparr>qr_id = q_id q, qr_category = q_category q, qr_conversation = q_conversation q,
       qr_annotated = length (q_evidence q), qr_present = length truth,
       qr_ranks = sort (List.map_filter found truth), qr_retrieved = retrieved\<rparr>)"

section \<open>Metrics\<close>

fun math_log2 :: "f64 \<Rightarrow> f64" where
  "math_log2 (Fin x) = (if x < 0 then NaN else if x = 0 then NInf else Fin (log 2 x))"
| "math_log2 PInf = PInf"
| "math_log2 NInf = NaN"
| "math_log2 NaN = NaN"

definition MetricDepth :: int where "MetricDepth = 10"

definition mrr :: "int list \<Rightarrow> int \<Rightarrow> f64" where
  "mrr ranks k = (if ranks = [] \<or> hd ranks > k then 0 else 1 / f_of_int (hd ranks))"

definition gain :: "int \<Rightarrow> f64" where "gain rank = 1 / math_log2 (f_of_int rank + 1)"

definition ndcg :: "int list \<Rightarrow> nat \<Rightarrow> int \<Rightarrow> f64" where
  "ndcg ranks relevant k =
     (let dcg = fold (\<lambda>rank dcg. if rank \<le> k then dcg + gain rank else dcg) ranks 0;
          ideal = fold (\<lambda>i ideal. ideal + gain i) [1..min (int relevant) k] 0
      in if feq ideal 0 then 0 else dcg / ideal)"

record aggregate =
  ag_n :: nat
  ag_unscorable :: nat
  ag_hit :: "int \<Rightarrow> f64"
  ag_recall :: "int \<Rightarrow> f64"
  ag_full :: "int \<Rightarrow> f64"
  ag_mrr :: f64
  ag_ndcg :: f64

definition hits_within :: "question_result \<Rightarrow> int \<Rightarrow> nat" where
  "hits_within r k = length (filter (\<lambda>rank. rank \<le> k) (qr_ranks r))"

text \<open>A key of the three maps that was never written reads as 0.\<close>

definition add_depth :: "question_result \<Rightarrow> int \<Rightarrow> aggregate \<Rightarrow> aggregate" where
  "add_depth r k agg =
     (let w = hits_within r k;
          agg = (if w > 0 then agg\<lparr>ag_hit := (ag_hit agg)(k := ag_hit agg k + 1)\<rparr> else agg);
          agg = agg\<lparr>ag_recall := (ag_recall agg)(k := ag_recall agg k + f_of_nat w / f_of_nat (qr_present r))\<rparr>
      in if w = qr_present r then agg\<lparr>ag_full := (ag_full agg)(k := ag_full agg k + 1)\<rparr> else agg)"

definition add_result :: "int list \<Rightarrow> question_result \<Rightarrow> aggregate \<Rightarrow> aggregate" where
  "add_result ks r agg =
     (if \<not> Scorable r then agg\<lparr>ag_unscorable := Suc (ag_unscorable agg)\<rparr>
      else let agg = fold (add_depth r) ks (agg\<lparr>ag_n := Suc (ag_n agg)\<rparr>)
           in agg\<lparr>ag_mrr := ag_mrr agg + mrr (qr_ranks r) MetricDepth,
                  ag_ndcg := ag_ndcg agg + ndcg (qr_ranks r) (qr_present r) MetricDepth\<rparr>)"

definition AggregateResults :: "question_result list \<Rightarrow> int list \<Rightarrow> aggregate" where
  "AggregateResults results ks =
     (let agg = fold (add_result ks) results
            \<lparr>ag_n = 0, ag_unscorable = 0, ag_hit = (\<lambda>_. 0), ag_recall = (\<lambda>_. 0), ag_full = (\<lambda>_. 0), ag_mrr = 0, ag_ndcg = 0\<rparr>;
          n = f_of_nat (ag_n agg)
      in if ag_n agg = 0 then agg
         else let agg = fold (\<lambda>k agg. agg\<lparr>ag_hit := (ag_hit agg)(k := ag_hit agg k / n),
                     ag_recall := (ag_recall agg)(k := ag_recall agg k / n),
                     ag_full := (ag_full agg)(k := ag_full agg k / n)\<rparr>) ks agg
              in agg\<lparr>ag_mrr := ag_mrr agg / n, ag_ndcg := ag_ndcg agg / n\<rparr>)"

definition ByCategory :: "question_result list \<Rightarrow> string \<Rightarrow> question_result list" where
  "ByCategory results grp = concat (map (\<lambda>r.
     (if qr_category r = grp then [r] else []) @ (if grp = ''all'' then [r] else []) @
     (if qr_category r \<noteq> ''adversarial'' \<and> grp = ''answerable'' then [r] else [])) results)"

section \<open>The embedding fixture\<close>

type_synonym float32 = "32 word"

text \<open>The exponent bits all set: an infinity or a NaN.\<close>

definition not_finite32 :: "float32 \<Rightarrow> bool" where "not_finite32 v = (drop_bit 23 v AND 0xFF = 0xFF)"

record embeddings =
  em_dim :: int
  em_vectors :: "(nat list \<times> float32 list) list"

definition NewEmbeddings :: "int \<Rightarrow> embeddings" where "NewEmbeddings width = \<lparr>em_dim = width, em_vectors = []\<rparr>"

definition keyOf :: "string \<Rightarrow> nat list" where "keyOf text = sha256 text"

definition Add :: "string \<Rightarrow> float32 list \<Rightarrow> embeddings \<Rightarrow> embeddings option" where
  "Add text v e =
     (if int (length v) \<noteq> em_dim e \<or> list_ex not_finite32 v then None
      else Some (e\<lparr>em_vectors := AList.update (keyOf text) v (em_vectors e)\<rparr>))"

definition Lookup :: "string \<Rightarrow> embeddings \<Rightarrow> float32 list option" where
  "Lookup text e = map_of (em_vectors e) (keyOf text)"

definition fixtureMagic :: "nat list" where "fixtureMagic = map code_of ''KEMB''"

text \<open>Little endian.\<close>

definition le32 :: "32 word \<Rightarrow> nat list" where
  "le32 w = map (\<lambda>i. unat (take_bit 8 (drop_bit (8 * i) w))) [0, 1, 2, 3]"

definition un32 :: "nat list \<Rightarrow> 32 word" where
  "un32 bs = fold (\<lambda>b w. push_bit 8 w OR of_nat b) (rev bs) 0"

definition key_less :: "nat list \<times> float32 list \<Rightarrow> nat list \<times> float32 list \<Rightarrow> bool" where
  "key_less a b = ord_class.lexordp (fst a) (fst b)"

definition record_bytes :: "nat list \<times> float32 list \<Rightarrow> nat list" where
  "record_bytes r = fst r @ concat (map le32 (snd r))"

text \<open>\<open>None\<close>: the error for a width or a count the format cannot hold.\<close>

definition Write :: "embeddings \<Rightarrow> nat list option" where
  "Write e =
     (if em_dim e \<le> 0 \<or> em_dim e > 16000 then None
      else if length (em_vectors e) \<ge> 2 ^ 32 then None
      else Some (fixtureMagic @ le32 (of_int (em_dim e)) @ le32 (of_nat (length (em_vectors e))) @
        concat (map record_bytes (sort_stable key_less (em_vectors e)))))"

definition take_exact :: "nat \<Rightarrow> nat list \<Rightarrow> (nat list \<times> nat list) option" where
  "take_exact n bs = (if length bs < n then None else Some (take n bs, drop n bs))"

fun read_floats :: "nat \<Rightarrow> nat list \<Rightarrow> (float32 list \<times> nat list) option" where
  "read_floats 0 bs = Some ([], bs)"
| "read_floats (Suc n) bs =
     (case take_exact 4 bs of None \<Rightarrow> None
      | Some (b, rest) \<Rightarrow> map_option (\<lambda>(v, rest). (un32 b # v, rest)) (read_floats n rest))"

fun read_records :: "nat \<Rightarrow> nat \<Rightarrow> nat list \<Rightarrow> (nat list \<times> float32 list) list \<Rightarrow> (nat list \<times> float32 list) list option" where
  "read_records width 0 bs vectors = Some vectors"
| "read_records width (Suc n) bs vectors =
     (case take_exact 32 bs of None \<Rightarrow> None
      | Some (key, rest) \<Rightarrow>
          (case read_floats width rest of None \<Rightarrow> None
           | Some (v, rest) \<Rightarrow> read_records width n rest (AList.update key v vectors)))"

definition ReadEmbeddings :: "nat list \<Rightarrow> embeddings option" where
  "ReadEmbeddings file =
     (case take_exact 4 file of None \<Rightarrow> None
      | Some (magic, rest) \<Rightarrow>
          if magic \<noteq> fixtureMagic then None
          else case take_exact 4 rest of None \<Rightarrow> None
            | Some (d, rest) \<Rightarrow> (case take_exact 4 rest of None \<Rightarrow> None
              | Some (c, rest) \<Rightarrow>
                  if un32 d = 0 \<or> unat (un32 d) > 16000 then None
                  else map_option (\<lambda>vs. \<lparr>em_dim = int (unat (un32 d)), em_vectors = vs\<rparr>)
                    (read_records (unat (un32 d)) (unat (un32 c)) rest [])))"

text \<open>The embedder over a fixture: a miss is an error and is counted.\<close>

definition fixture_Embed :: "embeddings \<Rightarrow> string \<Rightarrow> nat \<Rightarrow> float32 list option \<times> nat" where
  "fixture_Embed e text misses =
     (case Lookup text e of None \<Rightarrow> (None, Suc misses) | Some v \<Rightarrow> (Some v, misses))"

section \<open>Loading a corpus\<close>

record 's load_store =
  ls_create :: "memory \<Rightarrow> ('s, unit) op"
  ls_embed :: "uuid \<Rightarrow> string \<Rightarrow> vec \<Rightarrow> ('s, unit) op"
  ls_link :: "memory \<Rightarrow> string list \<Rightarrow> ('s, nat) op"

record load_stats =
  lt_memories :: nat
  lt_entities :: nat

definition doc_memory :: "doc \<Rightarrow> memory" where
  "doc_memory d =
     \<lparr>m_id = dc_id d, m_content = dc_content d, m_type = dc_type d, m_project = ProjectID (dc_conversation d),
      m_tags = dc_tags d, m_created = dc_created d, m_access = 0, m_decay = 1\<rparr>"

text \<open>The statistics come back with the error too, so the result is a pair.\<close>

fun LoadCorpus ::
  "'s load_store \<Rightarrow> (string \<Rightarrow> ('s, vec) op) \<Rightarrow> doc list \<Rightarrow> load_stats \<Rightarrow> 's \<Rightarrow> (load_stats \<times> gerror option) \<times> 's" where
  "LoadCorpus L em [] stats s = ((stats, None), s)"
| "LoadCorpus L em (d # ds) stats s =
     (let mem = doc_memory d in
      case ls_create L mem s of
        (Inl e, s) \<Rightarrow> ((stats, Some e), s)
      | (Inr u, s) \<Rightarrow>
          let stats = stats\<lparr>lt_memories := Suc (lt_memories stats)\<rparr> in
          (case em (dc_content d) s of
             (Inl e, s) \<Rightarrow> ((stats, Some e), s)
           | (Inr v, s) \<Rightarrow>
               (case ls_embed L (m_id mem) (m_project mem) v s of
                  (Inl e, s) \<Rightarrow> ((stats, Some e), s)
                | (Inr u, s) \<Rightarrow>
                    if dc_entities d = [] then LoadCorpus L em ds stats s
                    else (case ls_link L mem (dc_entities d) s of
                        (Inl e, s) \<Rightarrow> ((stats, Some e), s)
                      | (Inr n, s) \<Rightarrow>
                          LoadCorpus L em ds (stats\<lparr>lt_entities := lt_entities stats + n\<rparr>) s))))"

section \<open>The fixture file reads back\<close>

lemma un32_le32: "un32 (le32 w) = w"
proof -
  have "un32 (le32 w) = push_bit 8 (push_bit 8 (push_bit 8 (take_bit 8 (drop_bit 24 w)) OR take_bit 8 (drop_bit 16 w))
      OR take_bit 8 (drop_bit 8 w)) OR take_bit 8 w"
    by (simp add: un32_def le32_def)
  also have "\<dots> = w"
  proof (rule bit_eqI)
    fix n assume "possible_bit TYPE(32 word) n"
    then have n: "n < 32" by simp
    show "bit (push_bit 8 (push_bit 8 (push_bit 8 (take_bit 8 (drop_bit 24 w)) OR take_bit 8 (drop_bit 16 w))
      OR take_bit 8 (drop_bit 8 w)) OR take_bit 8 w) n = bit w n"
      using n by (cases "n < 8"; cases "n < 16"; cases "n < 24") (auto simp: bit_simps)
  qed
  finally show ?thesis .
qed

lemma length_le32 [simp]: "length (le32 w) = 4"
  by (simp add: le32_def)

lemma take_exact_append: "length a = n \<Longrightarrow> take_exact n (a @ b) = Some (a, b)"
  by (simp add: take_exact_def)

lemma read_floats_le32: "read_floats (length v) (concat (map le32 v) @ rest) = Some (v, rest)"
  by (induction v) (simp_all add: take_exact_append un32_le32)

lemma read_records_write:
  assumes "list_all (\<lambda>(k, v). length k = 32 \<and> length v = width) rs"
  shows "read_records width (length rs) (concat (map record_bytes rs) @ rest) vs =
    Some (fold (\<lambda>(k, v). AList.update k v) rs vs)"
  using assms
proof (induction rs arbitrary: vs)
  case (Cons r rs)
  obtain k v where r: "r = (k, v)" by fastforce
  with Cons.prems have "length k = 32" "length v = width" by simp_all
  moreover have "record_bytes (k, v) = k @ concat (map le32 v)" by (simp add: record_bytes_def)
  ultimately show ?case using Cons r read_floats_le32 [of v "concat (map record_bytes rs) @ rest"]
    by (simp add: take_exact_append)
qed simp

lemma map_of_fold_update:
  "distinct (map fst rs) \<Longrightarrow> map_of (fold (\<lambda>(k, v). AList.update k v) rs vs) k =
     (case map_of rs k of None \<Rightarrow> map_of vs k | Some v \<Rightarrow> Some v)"
proof (induction rs arbitrary: vs)
  case (Cons r rs)
  then show ?case
    by (cases r) (auto simp: update_conv' image_iff split: option.split dest: map_of_SomeD)
qed simp

lemma map_of_sorted: "distinct (map fst xs) \<Longrightarrow> mset ys = mset xs \<Longrightarrow> map_of ys = map_of xs"
proof -
  assume d: "distinct (map fst xs)" and m: "mset ys = mset xs"
  have "mset (map fst ys) = mset (map fst xs)" using m by simp
  then have "distinct (map fst ys)" using d mset_eq_imp_distinct_iff by blast
  moreover have "set ys = set xs" using m by (rule mset_eq_setD)
  ultimately show ?thesis using d by (intro map_of_inject_set [THEN iffD2]) auto
qed

text \<open>A fixture as \<open>Add\<close> builds it: keys are digests, each once, and vectors have the fixture's width.\<close>

definition fixture_ok :: "embeddings \<Rightarrow> bool" where
  "fixture_ok e = (distinct (map fst (em_vectors e)) \<and>
     list_all (\<lambda>(k, v). length k = 32 \<and> int (length v) = em_dim e) (em_vectors e))"

lemma fixture_ok_steps:
  "fixture_ok (NewEmbeddings n)" "fixture_ok e \<Longrightarrow> Add text v e = Some e' \<Longrightarrow> fixture_ok e' \<and> em_dim e' = em_dim e"
proof -
  show "fixture_ok (NewEmbeddings n)" by (simp add: fixture_ok_def NewEmbeddings_def)
  assume e: "fixture_ok e" and a: "Add text v e = Some e'"
  then have e': "e' = e\<lparr>em_vectors := AList.update (keyOf text) v (em_vectors e)\<rparr>" "int (length v) = em_dim e"
    by (auto simp: Add_def split: if_splits)
  have "list_all Q (AList.update k x xs)" if "list_all Q xs" "Q (k, x)" for Q :: "nat list \<times> float32 list \<Rightarrow> bool" and k x xs
    using that by (induction xs) auto
  then show "fixture_ok e' \<and> em_dim e' = em_dim e"
    using e e' by (simp add: fixture_ok_def distinct_update keyOf_def)
qed

text \<open>
  C37: the embedding fixture survives its file.  A fixture built by adding vectors is written exactly
  when its width is between 1 and 16000 and its count fits 32 bits, and reading the bytes back gives
  a fixture of the same width that answers every lookup with the same bits, and no other.
\<close>

theorem fixture_roundtrip:
  assumes "fixture_ok e"
  shows "case Write e of
     None \<Rightarrow> em_dim e \<notin> {1..16000} \<or> 2 ^ 32 \<le> length (em_vectors e)
   | Some bytes \<Rightarrow> \<exists>e'. ReadEmbeddings bytes = Some e' \<and> em_dim e' = em_dim e \<and> (\<forall>text. Lookup text e' = Lookup text e)"
proof (cases "Write e")
  case (Some bytes)
  let ?rs = "sort_stable key_less (em_vectors e)"
  have w: "0 < em_dim e" "em_dim e \<le> 16000" "length (em_vectors e) < 2 ^ 32"
    and bytes: "bytes = fixtureMagic @ le32 (of_int (em_dim e)) @ le32 (of_nat (length (em_vectors e))) @ concat (map record_bytes ?rs)"
    using Some by (auto simp: Write_def split: if_splits)
  define n where "n = nat (em_dim e)"
  have n: "em_dim e = int n" "0 < n" "n \<le> 16000" using w by (simp_all add: n_def)
  have u: "unat (of_nat n :: 32 word) = n" "unat (of_nat (length (em_vectors e)) :: 32 word) = length (em_vectors e)"
    using n w(3) by (simp_all add: unat_of_nat take_bit_nat_eq_self)
  have ok: "list_all (\<lambda>(k, v). length k = 32 \<and> length v = n) ?rs"
    using assms by (auto simp: fixture_ok_def list_all_iff n(1))
  have m: "length fixtureMagic = 4" by (simp add: fixtureMagic_def)
  have l: "length ?rs = length (em_vectors e)" by simp
  from read_records_write [OF ok, of "[]" "[]"]
  have r: "read_records n (length (em_vectors e)) (concat (map record_bytes ?rs)) [] = Some (fold (\<lambda>(k, v). AList.update k v) ?rs [])"
    by (simp add: l)
  have nz: "(of_nat n :: 32 word) \<noteq> 0" using u(1) n(2) by (metis unat_0 less_irrefl)
  have "ReadEmbeddings bytes = Some \<lparr>em_dim = int n, em_vectors = fold (\<lambda>(k, v). AList.update k v) ?rs []\<rparr>"
    using nz n(3) by (simp add: ReadEmbeddings_def bytes take_exact_append m un32_le32 n(1) u r)
  moreover have "map_of (fold (\<lambda>(k, v). AList.update k v) ?rs []) k = map_of (em_vectors e) k" for k
  proof -
    have d: "distinct (map fst (em_vectors e))" using assms by (simp add: fixture_ok_def)
    have "map_of ?rs = map_of (em_vectors e)" by (rule map_of_sorted [OF d]) simp
    moreover have "distinct (map fst ?rs)"
      using d mset_eq_imp_distinct_iff [of "map fst ?rs" "map fst (em_vectors e)"] by simp
    ultimately show ?thesis using map_of_fold_update [of ?rs "[]" k] by (simp split: option.splits)
  qed
  ultimately show ?thesis using Some by (simp add: Lookup_def n(1))
qed (auto simp: Write_def split: if_splits)

lemma fixture_roundtrip_witness:
  "\<exists>e bytes e'. Add ''x'' [1, 2] (NewEmbeddings 2) = Some e \<and> Write e = Some bytes \<and> ReadEmbeddings bytes = Some e' \<and>
     Lookup ''x'' e' = Some [1, 2]"
proof -
  have "\<not> list_ex not_finite32 [1, 2]" by (simp add: not_finite32_def)
  then obtain e where e: "Add ''x'' [1, 2] (NewEmbeddings 2) = Some e" by (simp add: Add_def NewEmbeddings_def)
  then have l: "Lookup ''x'' e = Some [1, 2]" "em_dim e = 2" "length (em_vectors e) = 1"
    by (auto simp: Add_def NewEmbeddings_def Lookup_def split: if_splits)
  then obtain bytes where f: "Write e = Some bytes" by (simp add: Write_def)
  from fixture_roundtrip [of e] fixture_ok_steps(2) [OF fixture_ok_steps(1) e] e f l show ?thesis by fastforce
qed

section \<open>What a score counts\<close>

lemma cover_spec:
  "cover truth rank ss found t = (if t \<in> set truth \<and> t \<in> set ss \<and> found t = None then Some rank else found t)"
proof -
  let ?g = "\<lambda>s found. if s \<in> set truth \<and> found s = None then found(s \<mapsto> rank) else found"
  have "fold ?g ss found t = (if t \<in> set truth \<and> t \<in> set ss \<and> found t = None then Some rank else found t)"
    by (induction ss arbitrary: found) auto
  then show ?thesis by (simp add: cover_def)
qed

lemma find_ranks_within:
  "(\<exists>r. find_ranks truth sources i ds found t = Some r \<and> r \<le> b) \<longleftrightarrow>
     (\<exists>r. found t = Some r \<and> r \<le> b) \<or>
     found t = None \<and> t \<in> set truth \<and> (\<exists>j < length ds. i + 1 + int j \<le> b \<and> t \<in> set (sources (ds ! j)))"
proof (induction ds arbitrary: i found)
  case (Cons d ds)
  have e: "(\<exists>j < length (d # ds). i + 1 + int j \<le> b \<and> t \<in> set (sources ((d # ds) ! j))) \<longleftrightarrow>
      i + 1 \<le> b \<and> t \<in> set (sources d) \<or> (\<exists>j < length ds. i + 1 + 1 + int j \<le> b \<and> t \<in> set (sources (ds ! j)))"
    unfolding length_Cons Ex_less_Suc2 by (simp add: algebra_simps)
  show ?case
    unfolding find_ranks.simps Cons.IH e cover_spec by auto
qed simp

lemma truth_of_distinct: "distinct (truth_of q present)"
  using first_by_distinct [of "\<lambda>k. k"] by (simp add: truth_of_def)

lemma set_truth_of: "set (truth_of q present) = {k \<in> TurnKey (q_conversation q) ` set (q_evidence q). present k}"
  using first_by_key_set [of "\<lambda>k. k" "\<lambda>k. False" "{}" "filter present (map (TurnKey (q_conversation q)) (q_evidence q))"]
  by (auto simp: truth_of_def)

lemma length_filter_map_filter:
  "length (filter P (List.map_filter f xs)) = length (filter (\<lambda>x. \<exists>y. f x = Some y \<and> P y) xs)"
  by (induction xs) (auto simp: List.map_filter_def)

lemma length_filter_sort: "length (filter P (sort xs)) = length (filter P xs)"
  by (metis mset_filter mset_sort size_mset)

text \<open>
  What the score counts.  The evidence found within the first \<open>k\<close> results is the number of
  distinct evidence turns the corpus holds that one of those results is aligned to: a turn covered
  by two results counts once, a result aligned to two turns counts for both, and evidence the
  corpus does not hold counts neither as found nor as missing.
\<close>

lemma score_counts_evidence:
  "hits_within (score_question q retrieved sources present) (int k) =
     card {t \<in> TurnKey (q_conversation q) ` set (q_evidence q). present t \<and>
       (\<exists>d \<in> set (take k retrieved). t \<in> set (sources d))} \<and>
   qr_present (score_question q retrieved sources present) =
     card {t \<in> TurnKey (q_conversation q) ` set (q_evidence q). present t}"
proof (rule conjI)
  let ?truth = "truth_of q present"
  let ?P = "\<lambda>t. \<exists>r. find_ranks ?truth sources 0 retrieved Map.empty t = Some r \<and> r \<le> int k"
  have p: "?P t \<longleftrightarrow> (\<exists>d \<in> set (take k retrieved). t \<in> set (sources d))" if "t \<in> set ?truth" for t
  proof -
    have "?P t \<longleftrightarrow> (\<exists>j < length retrieved. j < k \<and> t \<in> set (sources (retrieved ! j)))"
      unfolding find_ranks_within using that by (auto simp: Suc_le_eq)
    also have "\<dots> \<longleftrightarrow> (\<exists>d \<in> set (take k retrieved). t \<in> set (sources d))"
      by (force simp: in_set_conv_nth)
    finally show ?thesis .
  qed
  have "hits_within (score_question q retrieved sources present) (int k) = length (filter ?P ?truth)"
    by (simp add: hits_within_def score_question_def Let_def length_filter_sort length_filter_map_filter)
  also have "\<dots> = card (set (filter ?P ?truth))"
    using distinct_card [of "filter ?P ?truth"] truth_of_distinct [of q present] by simp
  also have "set (filter ?P ?truth) = {t \<in> TurnKey (q_conversation q) ` set (q_evidence q). present t \<and>
       (\<exists>d \<in> set (take k retrieved). t \<in> set (sources d))}"
    using p set_truth_of [of q present] by auto
  finally show "hits_within (score_question q retrieved sources present) (int k) =
     card {t \<in> TurnKey (q_conversation q) ` set (q_evidence q). present t \<and>
       (\<exists>d \<in> set (take k retrieved). t \<in> set (sources d))}" .
  show "qr_present (score_question q retrieved sources present) =
     card {t \<in> TurnKey (q_conversation q) ` set (q_evidence q). present t}"
    using distinct_card [OF truth_of_distinct [of q present]] set_truth_of [of q present]
    by (simp add: score_question_def Let_def)
qed

section \<open>Discounted gain\<close>

definition discount :: "int \<Rightarrow> real" where "discount r = 1 / log 2 (real_of_int r + 1)"

lemma gain_Fin: "1 \<le> r \<Longrightarrow> gain r = Fin (discount r)"
proof -
  assume r: "1 \<le> r"
  then have "log 2 (real_of_int r + 1) \<noteq> 0" by (simp add: log_def)
  then show ?thesis using r by (simp add: gain_def discount_def f_of_int_def f64_consts)
qed

lemma discount_pos: "1 \<le> r \<Longrightarrow> 0 < discount r"
  by (simp add: discount_def)

lemma discount_antimono: "1 \<le> r \<Longrightarrow> r \<le> s \<Longrightarrow> discount s \<le> discount r"
  by (simp add: discount_def frac_le)

lemma fold_gain:
  "\<forall>r \<in> set rs. 1 \<le> r \<Longrightarrow> fold (\<lambda>rank d. if rank \<le> k then d + gain rank else d) rs (Fin a) =
     Fin (a + sum_list (map discount (filter (\<lambda>r. r \<le> k) rs)))"
  by (induction rs arbitrary: a) (auto simp: gain_Fin)

lemma fold_ideal:
  "\<forall>r \<in> set rs. 1 \<le> r \<Longrightarrow> fold (\<lambda>i d. d + gain i) rs (Fin a) = Fin (a + sum_list (map discount rs))"
  by (induction rs arbitrary: a) (auto simp: gain_Fin)

lemma discount_sum:
  "sorted_wrt (<) rs \<Longrightarrow> \<forall>r \<in> set rs. j < r \<Longrightarrow> 0 \<le> j \<Longrightarrow>
     sum_list (map discount rs) \<le> sum_list (map discount [j + 1..j + int (length rs)])"
proof (induction rs arbitrary: j)
  case (Cons r rs)
  have "sum_list (map discount rs) \<le> sum_list (map discount [j + 1 + 1..j + 1 + int (length rs)])"
    using Cons.prems by (intro Cons.IH) fastforce+
  moreover have "discount r \<le> discount (j + 1)" using Cons.prems by (intro discount_antimono) auto
  moreover have "[j + 1..j + int (length (r # rs))] = (j + 1) # [j + 1 + 1..j + 1 + int (length rs)]"
    by (subst upto_rec1) (auto simp: algebra_simps)
  ultimately show ?case by simp
qed simp

text \<open>
  C40: nDCG is a number between 0 and 1 when every result covers at most one evidence turn, so that
  the ranks are distinct; but not in general.  A document aligned to two evidence turns gives both
  of them rank 1, the ideal list has no such tie, and a perfect answer scores above 1.
\<close>

theorem ndcg_unit:
  assumes "sorted_wrt (<) ranks" "list_all (\<lambda>r. 1 \<le> r) ranks" "length ranks \<le> relevant"
  shows "in_unit (ndcg ranks relevant k) \<and> ndcg [1, 1] 2 MetricDepth > 1"
proof (rule conjI)
  let ?xs = "filter (\<lambda>r. r \<le> k) ranks" and ?m = "min (int relevant) k"
  have pos: "\<forall>r \<in> set ranks. 1 \<le> r" using assms(2) by (simp add: list_all_iff)
  have d: "fold (\<lambda>rank d. if rank \<le> k then d + gain rank else d) ranks 0 = Fin (sum_list (map discount ?xs))"
    using fold_gain [OF pos, of k 0] by (simp add: f64_consts)
  have i: "fold (\<lambda>i d. d + gain i) [1..?m] 0 = Fin (sum_list (map discount [1..?m]))"
    using fold_ideal [of "[1..?m]" 0] by (simp add: f64_consts)
  have s: "sorted_wrt (<) ?xs" using assms(1) by (rule sorted_wrt_filter)
  have "set ?xs \<subseteq> {1..k}" using pos by auto
  then have "card (set ?xs) \<le> nat k" using card_mono [of "{1..k}" "set ?xs"] by simp
  moreover have "card (set ?xs) = length ?xs" using s by (intro distinct_card) (simp add: strict_sorted_iff)
  moreover have "length ?xs \<le> relevant" using assms(3) length_filter_le [of "\<lambda>r. r \<le> k" ranks] by linarith
  ultimately have n: "int (length ?xs) \<le> ?m \<or> ?xs = []" by (cases "k < 0") auto
  have nn: "0 \<le> sum_list (map discount rs)" if "\<forall>r \<in> set rs. 1 \<le> r" for rs
    using that discount_pos by (intro sum_list_nonneg) (auto intro: less_imp_le)
  have le: "sum_list (map discount ?xs) \<le> sum_list (map discount [1..?m])"
  proof (cases "?xs = []")
    case False
    then have n: "int (length ?xs) \<le> ?m" using n by blast
    have "sum_list (map discount ?xs) \<le> sum_list (map discount [0 + 1..0 + int (length ?xs)])"
      using pos by (intro discount_sum s) auto
    also have "\<dots> \<le> sum_list (map discount [1..int (length ?xs)]) + sum_list (map discount [int (length ?xs) + 1..?m])"
      using nn [of "[int (length ?xs) + 1..?m]"] by simp
    also have "\<dots> = sum_list (map discount [1..?m])"
    proof -
      have "1 \<le> int (length ?xs)" using False by (cases ?xs) auto
      then show ?thesis using upto_split2 [of 1 "int (length ?xs)" ?m] n by simp
    qed
    finally show ?thesis .
  qed (use nn [of "[1..?m]"] in simp)
  show "in_unit (ndcg ranks relevant k)"
  proof (cases "sum_list (map discount [1..?m]) = 0")
    case False
    then have "0 < sum_list (map discount [1..?m])" using nn [of "[1..?m]"] by simp
    then show ?thesis using le nn [of ?xs] pos
      unfolding ndcg_def d i Let_def by (simp add: f64_consts)
  next
    case True
    show ?thesis unfolding ndcg_def d i Let_def True by (simp add: f64_consts)
  qed
  have "discount 2 < 1"
  proof -
    have "log 2 2 < log 2 (3::real)" by (subst log_less_cancel_iff) simp_all
    then show ?thesis by (simp add: discount_def)
  qed
  moreover have "0 < discount 2" by (rule discount_pos) simp
  moreover have "discount 1 = 1" by (simp add: discount_def)
  moreover have i2: "fold (\<lambda>i d. d + gain i) [1..2] 0 = Fin (discount 1 + discount 2)"
    using fold_ideal [of "[1..2]" 0] by (simp add: f64_consts upto.simps)
  moreover have d2: "fold (\<lambda>rank d. if rank \<le> MetricDepth then d + gain rank else d) [1, 1] 0 = Fin (discount 1 + discount 1)"
    using fold_gain [of "[1, 1]" MetricDepth 0] by (simp add: f64_consts MetricDepth_def)
  moreover have m2: "min (int 2) MetricDepth = 2" by (simp add: MetricDepth_def)
  ultimately show "ndcg [1, 1] 2 MetricDepth > 1"
    unfolding ndcg_def m2 d2 i2 Let_def by (simp add: f64_consts)
qed

lemma ndcg_unit_witness: "in_unit (ndcg [1, 3] 2 10)"
  using ndcg_unit [of "[1, 3]" 2 10] by simp

end
