(* ===== verification/Dataset.thy ===== *)
theory Dataset
  imports Evalset Operations
begin

text \<open>
  The dataset of the offline evaluation, \<^verbatim>\<open>internal/evalset/dataset.go\<close>, and the corpus of a snapshot in
  \<^verbatim>\<open>corpus.go\<close>: from the parsed JSON to turns and questions.  A value of the JSON is kept as far as
  the code tells values apart: an array of messages, a string, null, or other bytes.  The regular
  expressions are matched with Go's rule, leftmost and then first in the order of backtracking, on
  ASCII text.
\<close>

section \<open>Decimal numbers\<close>

text \<open>\<open>%d\<close> of a number that is not negative.\<close>

definition digit_char :: "int \<Rightarrow> char" where "digit_char d = char_of (48 + nat d)"

function decimal :: "int \<Rightarrow> string" where
  "decimal n = (if n < 10 then [digit_char n] else decimal (n div 10) @ [digit_char (n mod 10)])"
  by pat_completeness auto
termination by (relation "measure nat") auto

declare decimal.simps [simp del]

text \<open>\<open>strconv.Atoi\<close> on digits, its error ignored: out of range it is the greatest \<open>int\<close>.\<close>

definition atoi_digits :: "string \<Rightarrow> int" where
  "atoi_digits ds = min (digits_value ds) (2 ^ 63 - 1)"

section \<open>Matching\<close>

text \<open>The first way to go on that succeeds.\<close>

fun first_of :: "('a \<Rightarrow> 'b option) \<Rightarrow> 'a list \<Rightarrow> 'b option" where
  "first_of k [] = None"
| "first_of k (x # xs) = (case k x of None \<Rightarrow> first_of k xs | Some y \<Rightarrow> Some y)"

text \<open>\<open>(P{n,})\<close>: a greedy group, which gives back one character at a time.\<close>

definition greedy :: "nat \<Rightarrow> (char \<Rightarrow> bool) \<Rightarrow> (string \<Rightarrow> string \<Rightarrow> 'b option) \<Rightarrow> string \<Rightarrow> 'b option" where
  "greedy n P k s = first_of (\<lambda>i. k (take i s) (drop i s)) (rev [n ..< Suc (length (takeWhile P s))])"

definition re_word :: "char \<Rightarrow> bool" where "re_word c = (is_digit c \<or> is_lower (lower_char c) \<or> c = CHR 0x5F)"

text \<open>A literal, under \<open>(?i)\<close>; one that is optional is tried first.\<close>

definition lit :: "string \<Rightarrow> (string \<Rightarrow> 'b option) \<Rightarrow> string \<Rightarrow> 'b option" where
  "lit w k s = (if to_lower (take (length w) s) = w then k (drop (length w) s) else None)"

definition opt_lit :: "string \<Rightarrow> (string \<Rightarrow> 'b option) \<Rightarrow> string \<Rightarrow> 'b option" where
  "opt_lit w k s = (case lit w k s of None \<Rightarrow> k s | Some y \<Rightarrow> Some y)"

definition spaces :: "(string \<Rightarrow> 'b option) \<Rightarrow> string \<Rightarrow> 'b option" where
  "spaces k = greedy 0 re_space (\<lambda>_. k)"

record date_match =
  dm_hour :: string
  dm_minute :: string
  dm_ampm :: string
  dm_day :: string
  dm_month :: string
  dm_year :: string

text \<open>\<^verbatim>\<open>(?i)(\d+):(\d+)\s*(am|pm)\s*on\s*(\d+)\s*(\w+),?\s*(\d+)\<close>\<close>

definition match_day :: "string \<Rightarrow> string \<Rightarrow> string \<Rightarrow> string \<Rightarrow> date_match option" where
  "match_day hour minute ampm =
     greedy 1 is_digit (\<lambda>day. spaces (greedy 1 re_word (\<lambda>month. opt_lit '','' (spaces (greedy 1 is_digit (\<lambda>year rest.
       Some \<lparr>dm_hour = hour, dm_minute = minute, dm_ampm = ampm, dm_day = day, dm_month = month, dm_year = year\<rparr>))))))"

definition match_ampm :: "string \<Rightarrow> string \<Rightarrow> string \<Rightarrow> date_match option" where
  "match_ampm hour minute s =
     first_of (\<lambda>ampm. lit ampm (spaces (lit ''on'' (spaces (match_day hour minute ampm)))) s) [''am'', ''pm'']"

definition locomoDate_at :: "string \<Rightarrow> date_match option" where
  "locomoDate_at =
     greedy 1 is_digit (\<lambda>hour. lit '':'' (greedy 1 is_digit (\<lambda>minute. spaces (match_ampm hour minute))))"

fun leftmost :: "(string \<Rightarrow> 'b option) \<Rightarrow> string \<Rightarrow> 'b option" where
  "leftmost m [] = m []"
| "leftmost m (c # s) = (case m (c # s) of None \<Rightarrow> leftmost m s | Some y \<Rightarrow> Some y)"

definition locomoDate :: "string \<Rightarrow> date_match option" where "locomoDate = leftmost locomoDate_at"

section \<open>Dates\<close>

definition monthNames :: "string list" where
  "monthNames = [''january'', ''february'', ''march'', ''april'', ''may'', ''june'', ''july'', ''august'', ''september'',
     ''october'', ''november'', ''december'']"

text \<open>Days from the epoch to a date of the Gregorian calendar; the month is 1 to 12, the day any number.\<close>

definition civil_days :: "int \<Rightarrow> int \<Rightarrow> int \<Rightarrow> int" where
  "civil_days y m d =
     (let y = (if m \<le> 2 then y - 1 else y); m = (m + 9) mod 12 in
      365 * y + y div 4 - y div 100 + y div 400 + (153 * m + 2) div 5 + d - 1 - 719468)"

definition go_date :: "int \<Rightarrow> int \<Rightarrow> int \<Rightarrow> int \<Rightarrow> int \<Rightarrow> gtime" where
  "go_date y m d hour minute = (((civil_days y m d * 24 + hour) * 60 + minute) * 60) * 10 ^ 9"

definition zero_time :: gtime where "zero_time = go_date 1 1 1 0 0"

text \<open>The index of the first month whose name begins with the word.\<close>

fun month_index :: "string list \<Rightarrow> string \<Rightarrow> nat option" where
  "month_index [] w = None"
| "month_index (m # ms) w = (if has_prefix m w then Some 0 else map_option Suc (month_index ms w))"

definition to24 :: "string \<Rightarrow> int \<Rightarrow> int" where
  "to24 ampm hour =
     (let hour = (if ampm = ''pm'' \<and> hour \<noteq> 12 then hour + 12 else hour) in
      if ampm = ''am'' \<and> hour = 12 then 0 else hour)"

text \<open>The clock face of an hour.\<close>

definition display :: "int \<Rightarrow> int" where "display hour = (if hour mod 12 = 0 then 12 else hour mod 12)"

definition ParseLoCoMoDate :: "string \<Rightarrow> (gtime \<times> string) option" where
  "ParseLoCoMoDate s =
     (case locomoDate s of
        None \<Rightarrow> None
      | Some m \<Rightarrow>
          (let hour = to24 (to_lower (dm_ampm m)) (atoi_digits (dm_hour m));
               year = atoi_digits (dm_year m) in
           case month_index monthNames (to_lower (dm_month m)) of
             None \<Rightarrow> None
           | Some month \<Rightarrow>
               Some (go_date year (int month + 1) (atoi_digits (dm_day m)) hour (atoi_digits (dm_minute m)),
                 decimal (display hour) @ '':'' @ dm_minute m @ '' '' @ (if hour \<ge> 12 then ''pm'' else ''am'') @ '' on '' @
                 dm_day m @ '' '' @ dm_month m @ '', '' @ decimal year)))"


section \<open>Turns and evidence\<close>

definition newline :: char where "newline = CHR 0x0A"

text \<open>\<^verbatim>\<open>\s*\n\s*\<close> replaced by a space: a run of white space that holds a newline is one match.\<close>

function innerNewlines :: "string \<Rightarrow> string" where
  "innerNewlines [] = []"
| "innerNewlines (c # s) =
     (if re_space c
      then (let ws = takeWhile re_space (c # s) in (if newline \<in> set ws then '' '' else ws)) @ innerNewlines (dropWhile re_space s)
      else c # innerNewlines s)"
  by pat_completeness auto
termination by (relation "measure length") (auto simp: le_imp_less_Suc length_dropWhile_le)

definition RenderTurn :: "string \<Rightarrow> string \<Rightarrow> string \<Rightarrow> string" where
  "RenderTurn formattedDate speaker utterance =
     (let content = trim_space (innerNewlines utterance) in
      if content = [] then []
      else if formattedDate \<noteq> [] then ''On '' @ formattedDate @ '', '' @ speaker @ '' said that '' @ content
      else speaker @ '' said that '' @ content)"

text \<open>\<^verbatim>\<open>^D(\d+):(\d+)$\<close>, and the identifier printed again from its two numbers.\<close>

definition diaID :: "string \<Rightarrow> (string \<times> string) option" where
  "diaID tok =
     (let rest = drop 1 tok; s = takeWhile is_digit rest; t = drop (Suc (length s)) rest in
      if take 1 tok = ''D'' \<and> s \<noteq> [] \<and> take 1 (drop (length s) rest) = '':'' \<and> t \<noteq> [] \<and> list_all is_digit t
      then Some (s, t) else None)"

definition dia_id :: "int \<Rightarrow> int \<Rightarrow> string" where "dia_id s t = ''D'' @ decimal s @ '':'' @ decimal t"

definition ParseEvidence :: "string list \<Rightarrow> string list" where
  "ParseEvidence raw =
     first_by (\<lambda>i. i) (\<lambda>i. False) {}
       (List.map_filter (\<lambda>tok. map_option (\<lambda>(s, t). dia_id (atoi_digits s) (atoi_digits t)) (diaID tok))
         (concat (map str_fields raw)))"

definition SortQuestions :: "question list \<Rightarrow> question list" where
  "SortQuestions = sort_stable (\<lambda>a b. ord_class.lexordp (map code_of (q_id a)) (map code_of (q_id b)))"

section \<open>The file\<close>

record raw_message =
  rm_speaker :: string
  rm_dia :: string
  rm_text :: string

text \<open>A JSON value with its bytes, where they are read.\<close>

datatype json_value = JText string | JNull | JMessages "raw_message list" string | JOther string

record raw_qa =
  rq_question :: string
  rq_answer :: json_value
  rq_evidence :: "string list"
  rq_category :: int
  rq_adversarial :: string

record raw_item =
  ri_sample :: string
  ri_qa :: "raw_qa list"
  ri_conversation :: "(string \<times> json_value) list"

text \<open>\<open>json.Unmarshal\<close> into a slice of messages and into a string; \<open>null\<close> leaves the zero value.\<close>

fun as_messages :: "json_value \<Rightarrow> raw_message list option" where
  "as_messages (JMessages ms raw) = Some ms" | "as_messages JNull = Some []" | "as_messages v = None"

fun as_string :: "json_value \<Rightarrow> string option" where
  "as_string (JText s) = Some s" | "as_string JNull = Some []" | "as_string v = None"

fun json_bytes :: "json_value \<Rightarrow> string" where
  "json_bytes (JText s) = s" | "json_bytes JNull = ''null''" | "json_bytes (JMessages ms raw) = raw" | "json_bytes (JOther raw) = raw"

definition answerString :: "json_value \<Rightarrow> string" where
  "answerString v = (case as_string v of Some s \<Rightarrow> s | None \<Rightarrow> trim_space (json_bytes v))"

definition categoryNames :: "int \<Rightarrow> string option" where
  "categoryNames = map_of [(1, ''multi-hop''), (2, ''temporal''), (3, ''open-domain''), (4, ''single-hop''), (5, ''adversarial'')]"

definition Categories :: "string list" where
  "Categories = [''single-hop'', ''multi-hop'', ''temporal'', ''open-domain'', ''adversarial'']"

record dataset =
  ds_turns :: "turn list"
  ds_questions :: "question list"
  ds_sha :: string

datatype load_error = Unreadable | NotJson | UnknownCategory string int | NotInDataset string

definition session_key :: "nat \<Rightarrow> string" where "session_key i = ''session_'' @ decimal (int i)"

text \<open>The loop over \<open>i\<close> ends at the first number without a key; one more than there are keys is enough.\<close>

definition sessions :: "(string \<times> json_value) list \<Rightarrow> nat list" where
  "sessions conv = takeWhile (\<lambda>i. map_of conv (session_key i) \<noteq> None) [1 ..< length conv + 2]"

definition session_date :: "(string \<times> json_value) list \<Rightarrow> string \<Rightarrow> gtime \<times> string" where
  "session_date conv key =
     (case map_of conv (key @ ''_date_time'') of
        None \<Rightarrow> (zero_time, [])
      | Some v \<Rightarrow> (case as_string v of
            None \<Rightarrow> (zero_time, [])
          | Some s \<Rightarrow> (case ParseLoCoMoDate s of None \<Rightarrow> (zero_time, []) | Some d \<Rightarrow> d)))"

definition session_turns :: "raw_item \<Rightarrow> nat \<Rightarrow> turn list" where
  "session_turns item i =
     (let conv = ri_conversation item; key = session_key i in
      case map_of conv key of None \<Rightarrow> []
      | Some body \<Rightarrow> (case as_messages body of
          None \<Rightarrow> []
        | Some msgs \<Rightarrow>
            (case session_date conv key of (date, formatted) \<Rightarrow>
              List.map_filter (\<lambda>m. let content = RenderTurn formatted (rm_speaker m) (rm_text m) in
                if content = [] then None
                else Some \<lparr>tn_dia = rm_dia m, tn_conversation = ri_sample item, tn_session = int i, tn_date = date,
                           tn_speaker = rm_speaker m, tn_text = rm_text m, tn_content = content\<rparr>) msgs)))"

definition question_id :: "string \<Rightarrow> nat \<Rightarrow> string" where
  "question_id sample i = sample @ ''-q'' @ decimal (int i)"

fun add_questions :: "string \<Rightarrow> nat \<Rightarrow> raw_qa list \<Rightarrow> load_error + question list" where
  "add_questions sample i [] = Inr []"
| "add_questions sample i (qa # qas) =
     (case categoryNames (rq_category qa) of
        None \<Rightarrow> Inl (UnknownCategory (question_id sample i) (rq_category qa))
      | Some category \<Rightarrow>
          map_sum id ((#) \<lparr>q_id = question_id sample i, q_conversation = sample, q_category = category,
            q_question = rq_question qa, q_answer = answerString (rq_answer qa), q_adversarial = rq_adversarial qa,
            q_evidence = ParseEvidence (rq_evidence qa)\<rparr>) (add_questions sample (Suc i) qas))"

definition addConversation :: "raw_item \<Rightarrow> dataset \<Rightarrow> load_error + dataset" where
  "addConversation item ds =
     (let ds = ds\<lparr>ds_turns := ds_turns ds @ concat (map (session_turns item) (sessions (ri_conversation item)))\<rparr> in
      map_sum id (\<lambda>qs. ds\<lparr>ds_questions := ds_questions ds @ qs\<rparr>) (add_questions (ri_sample item) 0 (ri_qa item)))"

fun addConversations :: "raw_item list \<Rightarrow> dataset \<Rightarrow> load_error + dataset" where
  "addConversations [] ds = Inr ds"
| "addConversations (item # items) ds =
     (case addConversation item ds of Inl e \<Rightarrow> Inl e | Inr ds \<Rightarrow> addConversations items ds)"

text \<open>The questions of the pinned ids, in their order.\<close>

fun pinned_questions :: "(string \<rightharpoonup> question) \<Rightarrow> string list \<Rightarrow> load_error + question list" where
  "pinned_questions byID [] = Inr []"
| "pinned_questions byID (i # is) =
     (case byID i of None \<Rightarrow> Inl (NotInDataset i) | Some q \<Rightarrow> map_sum id ((#) q) (pinned_questions byID is))"

definition questions_by_id :: "question list \<Rightarrow> string \<rightharpoonup> question" where
  "questions_by_id qs = fold (\<lambda>q f. f(q_id q \<mapsto> q)) qs Map.empty"

text \<open>Go's \<open>Load\<close>, with the JSON parser as a parameter and the bytes of the file, if they can be read.\<close>

definition Load_dataset :: "(string \<Rightarrow> raw_item list option) \<Rightarrow> string option \<Rightarrow> string list \<Rightarrow> load_error + dataset" where
  "Load_dataset parse raw pinned =
     (case raw of None \<Rightarrow> Inl Unreadable
      | Some bytes \<Rightarrow> (case parse bytes of None \<Rightarrow> Inl NotJson
      | Some items \<Rightarrow>
          (case addConversations items \<lparr>ds_turns = [], ds_questions = [], ds_sha = hex_encode (sha256 bytes)\<rparr> of
             Inl e \<Rightarrow> Inl e
           | Inr ds \<Rightarrow>
               if pinned = [] then Inr ds
               else map_sum id (\<lambda>kept. ds\<lparr>ds_questions := kept\<rparr>) (pinned_questions (questions_by_id (ds_questions ds)) pinned))))"

section \<open>The corpus of a snapshot\<close>

record snapshot_doc =
  sd_id :: string
  sd_conversation :: string
  sd_content :: string
  sd_type :: string
  sd_tags :: "string list"
  sd_created :: string
  sd_entities :: "string list"

datatype snapshot_error = BadId string | BadTime string string

definition extracted_clock :: gtime where "extracted_clock = go_date 2026 8 31 0 0"

fun extracted_docs ::
  "(string \<Rightarrow> uuid option) \<Rightarrow> (string \<Rightarrow> gtime option) \<Rightarrow> (string \<rightharpoonup> string list) \<Rightarrow> snapshot_doc list \<Rightarrow>
    snapshot_error + doc list" where
  "extracted_docs parse_id parse_time labels [] = Inr []"
| "extracted_docs parse_id parse_time labels (d # ds) =
     (case parse_id (sd_id d) of
        None \<Rightarrow> Inl (BadId (sd_id d))
      | Some i \<Rightarrow> (case parse_time (sd_created d) of
            None \<Rightarrow> Inl (BadTime (sd_id d) (sd_created d))
          | Some created \<Rightarrow>
              map_sum id ((#) \<lparr>dc_id = i, dc_conversation = sd_conversation d, dc_content = sd_content d, dc_type = sd_type d,
                dc_tags = sd_tags d, dc_created = created, dc_entities = sd_entities d,
                dc_sources = map (TurnKey (sd_conversation d)) (case labels (sd_id d) of None \<Rightarrow> [] | Some ls \<Rightarrow> ls)\<rparr>)
                (extracted_docs parse_id parse_time labels ds)))"

text \<open>\<open>sort.Slice\<close> by the text of the id; documents of one id could come in either order.\<close>

definition ExtractedCorpus ::
  "(string \<Rightarrow> uuid option) \<Rightarrow> (uuid \<Rightarrow> string) \<Rightarrow> (string \<Rightarrow> gtime option) \<Rightarrow> snapshot_doc list \<Rightarrow> (string \<rightharpoonup> string list) \<Rightarrow>
    snapshot_error + doc list" where
  "ExtractedCorpus parse_id ustr parse_time docs labels =
     map_sum id (sort_stable (\<lambda>a b. ord_class.lexordp (map code_of (ustr (dc_id a))) (map code_of (ustr (dc_id b)))))
       (extracted_docs parse_id parse_time labels docs)"

section \<open>Laws\<close>

lemma digit_char: "0 \<le> d \<Longrightarrow> d < 10 \<Longrightarrow> int (code_of (digit_char d)) = 48 + d \<and> is_digit (digit_char d)"
  by (auto simp: digit_char_def code_of_def is_digit_def)

lemma decimal_digits: "0 \<le> n \<Longrightarrow> list_all is_digit (decimal n) \<and> decimal n \<noteq> []"
proof (induction n rule: decimal.induct)
  case (1 n)
  show ?case
    using 1 digit_char [of n] digit_char [of "n mod 10"] by (cases "n < 10") (simp_all add: decimal.simps [of n])
qed

lemma digits_value_snoc: "digits_value (ds @ [c]) = 10 * digits_value ds + int (code_of c) - 48"
  by (simp add: digits_value_def)

lemma digits_value_decimal: "0 \<le> n \<Longrightarrow> digits_value (decimal n) = n"
proof (induction n rule: decimal.induct)
  case (1 n)
  show ?case
  proof (cases "n < 10")
    case True
    then show ?thesis using 1 digit_char [of n] by (simp add: decimal.simps [of n] digits_value_def)
  next
    case False
    then show ?thesis using 1 digit_char [of "n mod 10"] by (simp add: decimal.simps [of n] digits_value_snoc)
  qed
qed

lemma decimal_inj: "0 \<le> m \<Longrightarrow> 0 \<le> n \<Longrightarrow> decimal m = decimal n \<longleftrightarrow> m = n"
  by (metis digits_value_decimal)

lemma digits_value_nonneg: "list_all is_digit ds \<Longrightarrow> 0 \<le> digits_value ds"
  by (induction ds rule: rev_induct) (auto simp: digits_value_snoc is_digit_def, simp add: digits_value_def)

lemma atoi_digits_range: "list_all is_digit ds \<Longrightarrow> 0 \<le> atoi_digits ds \<and> atoi_digits ds \<le> 2 ^ 63 - 1"
  using digits_value_nonneg by (simp add: atoi_digits_def)

lemma atoi_decimal: "0 \<le> n \<Longrightarrow> n \<le> 2 ^ 63 - 1 \<Longrightarrow> atoi_digits (decimal n) = n"
  by (simp add: atoi_digits_def digits_value_decimal)

lemma takeWhile_digits:
  "list_all P ds \<Longrightarrow> \<not> P c \<Longrightarrow> takeWhile P (ds @ c # s) = ds"
  by (induction ds) auto

lemma colon_no_digit: "\<not> is_digit (CHR '':'')"
  by (simp add: is_digit_def code_of_def)

lemma diaID_dia_id:
  assumes "0 \<le> s" "0 \<le> t"
  shows "diaID (dia_id s t) = Some (decimal s, decimal t)"
  using decimal_digits [OF assms(1)] decimal_digits [OF assms(2)] takeWhile_digits [of is_digit "decimal s" "CHR '':''" "decimal t"] colon_no_digit
  by (simp add: diaID_def dia_id_def Let_def)

lemma diaID_digits: "diaID tok = Some (s, t) \<Longrightarrow> list_all is_digit s \<and> list_all is_digit t"
  by (auto simp: diaID_def Let_def list_all_iff dest: set_takeWhileD split: if_splits)

lemma digit_no_space: "is_digit c \<Longrightarrow> \<not> is_space c"
  by (auto simp: is_digit_def is_space_def code_of_def)

lemma dia_id_word:
  assumes "0 \<le> s" "0 \<le> t"
  shows "str_fields (dia_id s t) = [dia_id s t]"
proof -
  have "\<forall>c \<in> set (dia_id s t). \<not> is_space c"
    using decimal_digits [OF assms(1)] decimal_digits [OF assms(2)] digit_no_space
    by (auto simp: dia_id_def list_all_iff) (auto simp: is_space_def)
  then show ?thesis using fields_acc_word [of "dia_id s t" "[]" "[]"] by (simp add: str_fields_def dia_id_def)
qed

text \<open>An identifier in the form the evaluation compares.\<close>

definition canonical :: "string \<Rightarrow> bool" where
  "canonical i = (\<exists>s t. 0 \<le> s \<and> s < 2 ^ 63 \<and> 0 \<le> t \<and> t < 2 ^ 63 \<and> i = dia_id s t)"

lemma ParseEvidence_canonical: "i \<in> set (ParseEvidence raw) \<Longrightarrow> canonical i"
proof -
  assume "i \<in> set (ParseEvidence raw)"
  then obtain tok s t where d: "diaID tok = Some (s, t)" "i = dia_id (atoi_digits s) (atoi_digits t)"
    using set_first_by_subset [of "\<lambda>i. i" "\<lambda>i. False" "{}"] unfolding ParseEvidence_def
    by (fastforce simp: map_filter_def)
  have "0 \<le> atoi_digits s \<and> atoi_digits s < 2 ^ 63 \<and> 0 \<le> atoi_digits t \<and> atoi_digits t < 2 ^ 63"
    using diaID_digits [OF d(1)] atoi_digits_range [of s] atoi_digits_range [of t] by simp
  then show ?thesis unfolding canonical_def d(2) by blast
qed

lemma map_filter_all: "\<forall>x \<in> set xs. f x = Some x \<Longrightarrow> List.map_filter f xs = xs"
  by (induction xs) (auto simp: map_filter_simps)

lemma ParseEvidence_fixed:
  assumes "distinct is" "\<forall>i \<in> set is. canonical i"
  shows "ParseEvidence is = is"
proof -
  have k: "str_fields i = [i]" "map_option (\<lambda>(s, t). dia_id (atoi_digits s) (atoi_digits t)) (diaID i) = Some i" if "canonical i" for i
    using that by (auto simp: canonical_def dia_id_word diaID_dia_id atoi_decimal)
  have word: "concat (map str_fields is) = is" using assms(2) by (induction "is") (simp_all add: k(1))
  have same: "\<forall>i \<in> set is. map_option (\<lambda>(s, t). dia_id (atoi_digits s) (atoi_digits t)) (diaID i) = Some i"
    using assms(2) k(2) by blast
  show ?thesis using first_by_fixed [of "\<lambda>i. i" "is" "\<lambda>i. False" "{}"] assms(1)
    unfolding ParseEvidence_def word map_filter_all [OF same] by simp
qed

lemma ParseEvidence_distinct: "distinct (ParseEvidence raw)"
  using first_by_distinct [of "\<lambda>i. i"] by (simp add: ParseEvidence_def)

lemma ParseEvidence_idem: "ParseEvidence (ParseEvidence raw) = ParseEvidence raw"
  by (rule ParseEvidence_fixed) (auto simp: ParseEvidence_distinct ParseEvidence_canonical)

lemma session_key_inj: "session_key i = session_key j \<longleftrightarrow> i = j"
  by (simp add: session_key_def decimal_inj)

text \<open>The loop over the sessions has ended where \<open>sessions\<close> ends.\<close>

lemma sessions_end:
  "map_of conv (session_key (Suc (length (sessions conv)))) = None"
  "\<forall>i. 0 < i \<and> i \<le> length (sessions conv) \<longrightarrow> (\<exists>v. map_of conv (session_key i) = Some v)"
proof -
  let ?P = "\<lambda>i. map_of conv (session_key i) \<noteq> None"
  let ?n = "length (sessions conv)"
  let ?r = "[1 ..< length conv + 2]"
  have len: "length ?r = length conv + 1" by (simp del: upt_Suc)
  have n: "?n = length (takeWhile ?P ?r)" by (simp only: sessions_def)
  have le: "?n \<le> length conv + 1" using length_takeWhile_le [of ?P ?r] unfolding n len .
  have all: "?P i" if i: "0 < i" "i \<le> ?n" for i
  proof -
    have lt: "i - 1 < length (takeWhile ?P ?r)" using i unfolding n by linarith
    have "takeWhile ?P ?r ! (i - 1) = ?r ! (i - 1)" by (rule takeWhile_nth [OF lt])
    moreover have "?r ! (i - 1) = i" using i le by (simp add: nth_upt del: upt_Suc)
    moreover have "takeWhile ?P ?r ! (i - 1) \<in> set (takeWhile ?P ?r)" by (rule nth_mem [OF lt])
    ultimately show ?thesis using set_takeWhileD by fastforce
  qed
  then show "\<forall>i. 0 < i \<and> i \<le> ?n \<longrightarrow> (\<exists>v. map_of conv (session_key i) = Some v)" by auto
  have "session_key ` {1 .. ?n} \<subseteq> fst ` set conv"
    using all by (auto simp: map_of_eq_None_iff)
  then have "card (session_key ` {1 .. ?n}) \<le> card (fst ` set conv)" by (intro card_mono) auto
  also have "\<dots> \<le> length conv" using card_image_le [of "set conv" fst] card_length [of conv] by simp
  finally have "?n \<le> length conv" by (simp add: card_image inj_on_def session_key_inj)
  then have "?n < length ?r" "?r ! ?n = Suc ?n" unfolding len by (simp_all add: nth_upt del: upt_Suc)
  then show "map_of conv (session_key (Suc ?n)) = None"
    using nth_length_takeWhile [of ?P ?r] unfolding n by simp
qed

section \<open>What a loaded dataset holds\<close>

definition well_labelled :: "question \<Rightarrow> bool" where
  "well_labelled q = (q_category q \<in> set Categories \<and> distinct (q_evidence q) \<and> list_all canonical (q_evidence q))"

lemma map_sum_cases:
  "map_sum id f r = Inr y \<Longrightarrow> (\<And>x. r = Inr x \<Longrightarrow> y = f x \<Longrightarrow> P) \<Longrightarrow> P"
  "map_sum id f r = Inl e \<Longrightarrow> (r = Inl e \<Longrightarrow> P) \<Longrightarrow> P"
  by (cases r; simp)+

lemma categoryNames_listed: "categoryNames c = Some n \<Longrightarrow> n \<in> set Categories"
  by (auto simp: categoryNames_def Categories_def split: if_splits)

lemma add_questions_good: "add_questions sample i qas = Inr qs \<Longrightarrow> list_all well_labelled qs \<and> length qs = length qas"
proof (induction sample i qas arbitrary: qs rule: add_questions.induct)
  case (2 sample i qa qas)
  then show ?case
    by (auto simp: well_labelled_def categoryNames_listed ParseEvidence_distinct list_all_iff ParseEvidence_canonical
        split: option.splits elim!: map_sum_cases)
qed simp

lemma add_questions_Inl: "add_questions sample i qas = Inl e \<Longrightarrow> \<exists>j c. e = UnknownCategory j c"
  by (induction sample i qas rule: add_questions.induct) (auto split: option.splits elim!: map_sum_cases)

lemma session_turns_text: "t \<in> set (session_turns item i) \<Longrightarrow> tn_content t \<noteq> []"
  by (auto simp: session_turns_def Let_def map_filter_def split: option.splits prod.splits if_splits)

lemma addConversations_good:
  assumes "addConversations items ds = Inr ds'" "list_all well_labelled (ds_questions ds)" "list_all (\<lambda>t. tn_content t \<noteq> []) (ds_turns ds)"
  shows "list_all well_labelled (ds_questions ds') \<and> list_all (\<lambda>t. tn_content t \<noteq> []) (ds_turns ds') \<and>
    length (ds_questions ds') = length (ds_questions ds) + sum_list (map (length \<circ> ri_qa) items)"
  using assms
proof (induction items ds rule: addConversations.induct)
  case (2 item items ds)
  from "2.prems"(1) obtain ds1 where 1: "addConversation item ds = Inr ds1" "addConversations items ds1 = Inr ds'"
    by (auto split: sum.splits)
  from 1(1) obtain qs where qs: "add_questions (ri_sample item) 0 (ri_qa item) = Inr qs"
      "ds_questions ds1 = ds_questions ds @ qs"
      "ds_turns ds1 = ds_turns ds @ concat (map (session_turns item) (sessions (ri_conversation item)))"
    by (auto simp: addConversation_def Let_def elim!: map_sum_cases)
  have "list_all well_labelled (ds_questions ds1)" "length (ds_questions ds1) = length (ds_questions ds) + length (ri_qa item)"
    using add_questions_good [OF qs(1)] "2.prems"(2) qs(2) by simp_all
  moreover have "list_all (\<lambda>t. tn_content t \<noteq> []) (ds_turns ds1)"
    using "2.prems"(3) qs(3) session_turns_text by (auto simp: list_all_iff)
  ultimately show ?case using "2.IH" 1 by simp
qed simp

lemma addConversations_Inl: "addConversations items ds = Inl e \<Longrightarrow> \<exists>j c. e = UnknownCategory j c"
  by (induction items ds rule: addConversations.induct)
    (auto simp: addConversation_def Let_def split: sum.splits elim!: map_sum_cases dest: add_questions_Inl)

lemma questions_by_id_spec:
  "questions_by_id qs i = Some q \<Longrightarrow> q \<in> set qs \<and> q_id q = i"
  "questions_by_id qs i = None \<longleftrightarrow> i \<notin> q_id ` set qs"
  by (induction qs rule: rev_induct) (auto simp: questions_by_id_def split: if_splits)

lemma pinned_Inr:
  "pinned_questions f is = Inr qs \<Longrightarrow> list_all2 (\<lambda>i q. f i = Some q) is qs"
  by (induction f "is" arbitrary: qs rule: pinned_questions.induct) (auto split: option.splits elim!: map_sum_cases)

lemma pinned_Inl: "pinned_questions f is = Inl e \<Longrightarrow> \<exists>i \<in> set is. e = NotInDataset i \<and> f i = None"
  by (induction f "is" rule: pinned_questions.induct) (auto split: option.splits elim!: map_sum_cases)

lemma pinned_complete: "\<forall>i \<in> set is. f i \<noteq> None \<Longrightarrow> \<exists>qs. pinned_questions f is = Inr qs"
  by (induction f "is" rule: pinned_questions.induct) auto

lemma list_all2_ids:
  "list_all2 (\<lambda>i q. questions_by_id qs i = Some q) is ks \<Longrightarrow> map q_id ks = is \<and> set ks \<subseteq> set qs"
  by (induction rule: list_all2_induct) (auto dest: questions_by_id_spec(1))

text \<open>
  C38: the dataset keeps what it is asked for.  Loading all questions keeps one per entry of the file,
  each under a listed category and with evidence that is free of duplicates and in the one form the
  scoring compares (parsing it again changes nothing), and every turn has text.  Loading with pinned
  ids returns exactly those questions in the pinned order and the same turns, and fails exactly if
  an id is not in the dataset.
\<close>

theorem Load_dataset_selects:
  assumes "Load_dataset parse (Some bytes) [] = Inr ds" "parse bytes = Some items" "pinned \<noteq> []"
  shows "length (ds_questions ds) = sum_list (map (length \<circ> ri_qa) items) \<and>
    (\<forall>q \<in> set (ds_questions ds). q_category q \<in> set Categories \<and> distinct (q_evidence q) \<and>
       ParseEvidence (q_evidence q) = q_evidence q) \<and>
    (\<forall>t \<in> set (ds_turns ds). tn_content t \<noteq> []) \<and>
    (case Load_dataset parse (Some bytes) pinned of
       Inr ds' \<Rightarrow> map q_id (ds_questions ds') = pinned \<and> set (ds_questions ds') \<subseteq> set (ds_questions ds) \<and> ds_turns ds' = ds_turns ds
     | Inl e \<Rightarrow> \<exists>i \<in> set pinned. e = NotInDataset i \<and> i \<notin> q_id ` set (ds_questions ds))"
proof -
  from assms(1,2) have a: "addConversations items \<lparr>ds_turns = [], ds_questions = [], ds_sha = hex_encode (sha256 bytes)\<rparr> = Inr ds"
    by (auto simp: Load_dataset_def split: sum.splits)
  have good: "list_all well_labelled (ds_questions ds)" "list_all (\<lambda>t. tn_content t \<noteq> []) (ds_turns ds)"
    "length (ds_questions ds) = sum_list (map (length \<circ> ri_qa) items)"
    using addConversations_good [OF a] by simp_all
  have run: "Load_dataset parse (Some bytes) pinned =
      map_sum id (\<lambda>kept. ds\<lparr>ds_questions := kept\<rparr>) (pinned_questions (questions_by_id (ds_questions ds)) pinned)"
    using assms(2,3) a by (simp add: Load_dataset_def)
  have sel: "case Load_dataset parse (Some bytes) pinned of
       Inr ds' \<Rightarrow> map q_id (ds_questions ds') = pinned \<and> set (ds_questions ds') \<subseteq> set (ds_questions ds) \<and> ds_turns ds' = ds_turns ds
     | Inl e \<Rightarrow> \<exists>i \<in> set pinned. e = NotInDataset i \<and> i \<notin> q_id ` set (ds_questions ds)"
  proof (cases "pinned_questions (questions_by_id (ds_questions ds)) pinned")
    case (Inl e)
    then show ?thesis using pinned_Inl [OF Inl] run questions_by_id_spec(2) by auto
  next
    case (Inr ks)
    then show ?thesis using list_all2_ids [OF pinned_Inr [OF Inr]] run by simp
  qed
  show ?thesis using good sel by (auto simp: list_all_iff well_labelled_def ParseEvidence_fixed)
qed

definition sample_items :: "raw_item list" where
  "sample_items = [\<lparr>ri_sample = ''c'',
     ri_qa = [\<lparr>rq_question = ''who?'', rq_answer = JOther ''7'', rq_evidence = [''D1:01 D1:2'', ''D1:1''], rq_category = 1, rq_adversarial = []\<rparr>,
              \<lparr>rq_question = ''why?'', rq_answer = JText ''so'', rq_evidence = [], rq_category = 5, rq_adversarial = []\<rparr>],
     ri_conversation = [(''session_1'', JMessages [\<lparr>rm_speaker = ''Ann'', rm_dia = ''D1:1'', rm_text = ''hi''\<rparr>] [])]\<rparr>]"

lemma Load_dataset_selects_witness:
  "\<exists>ds ds'. Load_dataset (\<lambda>b. Some sample_items) (Some []) [] = Inr ds \<and>
     Load_dataset (\<lambda>b. Some sample_items) (Some []) [''c-q1''] = Inr ds' \<and> map q_id (ds_questions ds') = [''c-q1''] \<and>
     length (ds_questions ds) = 2"
proof -
  let ?P = "\<lambda>b :: string. Some sample_items"
  have "digit_char 0 = CHR ''0''" "digit_char 1 = CHR ''1''" by code_simp+
  then obtain ds where ds: "Load_dataset ?P (Some []) [] = Inr ds" "q_id ` set (ds_questions ds) = {''c-q0'', ''c-q1''}"
    by (simp add: Load_dataset_def sample_items_def addConversation_def categoryNames_def question_id_def decimal.simps
        Let_def)
  note t = Load_dataset_selects [OF ds(1) refl, of "[''c-q1'']"]
  then show ?thesis using ds
    by (cases "Load_dataset ?P (Some []) [''c-q1'']") (simp_all add: sample_items_def)
qed

end
