(* ===== verification/Evaluate.thy ===== *)
theory Evaluate
  imports Client Dataset
begin

text \<open>
  The evaluation command, \<^verbatim>\<open>cmd/eval/main.go\<close>: its settings, the checks before a corpus is loaded, the
  passes over the questions through the real read path, and the report.  Files are a map from paths
  to bytes; \<open>filepath.Join\<close>, \<open>Sscanf\<close>, the JSON parsers and the database beside the read path are the
  fields of \<open>eval_io\<close> and \<open>eval_ops\<close>.  Durations, profiles, allocation counts, index sizes and the
  printed table are not modelled, except the percentile of a list of durations.
\<close>

section \<open>Settings\<close>

definition defaultDataDir :: string where "defaultDataDir = ''eval/data''"
definition defaultFixturesDir :: string where "defaultFixturesDir = ''eval/fixtures/locomo''"
definition dsnEnv :: string where "dsnEnv = ''KORA_EVAL_DATABASE_URL''"

record paths =
  pa_dataset :: string
  pa_pinned :: string
  pa_sha :: string
  pa_embeddings :: string
  pa_snapshot :: string
  pa_labels :: string

definition newPaths :: "(string \<Rightarrow> string \<Rightarrow> string) \<Rightarrow> string \<Rightarrow> string \<Rightarrow> paths" where
  "newPaths filepath_join dataDir fixturesDir =
     \<lparr>pa_dataset = filepath_join dataDir ''locomo10.json'', pa_pinned = filepath_join fixturesDir ''pinned.json'',
      pa_sha = filepath_join fixturesDir ''locomo10.sha256'', pa_embeddings = filepath_join fixturesDir ''embeddings.bin'',
      pa_snapshot = filepath_join dataDir ''corpus-extracted.json'', pa_labels = filepath_join fixturesDir ''labels-extracted.json''\<rparr>"

record eval_io =
  io_join :: "string \<Rightarrow> string \<Rightarrow> string"
  io_file :: "string \<Rightarrow> string option"
  io_ids :: "string \<Rightarrow> string list option"
  io_items :: "string \<Rightarrow> raw_item list option"
  io_docs :: "string \<Rightarrow> snapshot_doc list option"
  io_labels :: "string \<Rightarrow> (string \<rightharpoonup> string list) option"
  io_uuid :: "string \<Rightarrow> uuid option"
  io_ustr :: "uuid \<Rightarrow> string"
  io_time :: "string \<Rightarrow> gtime option"
  io_sha1 :: "string \<Rightarrow> uuid"
  io_entities :: "string \<Rightarrow> string list"
  io_float :: "string \<Rightarrow> f64 option"
  io_weights :: "string \<Rightarrow> (f64 \<times> f64 \<times> f64) option"

datatype eval_error =
    BadFlags | PassesBelowOne | NoDatabase | TopKRange int | PinnedUnreadable | DatasetError load_error | ShaMismatch string string
  | SnapshotUnreadable | LabelsUnreadable | SnapshotError snapshot_error | UnknownCorpus string | UnknownEmbedder string | FixtureUnreadable
  | DatabaseError gerror | OtherCorpus string | NotEmpty int | BadWeightText string | FusionError fusion_error
  | BadSignals string | QueryFailed string gerror | FixtureMisses nat

text \<open>The pinned ids and the dataset; the checksum is compared only where the fixture records one.\<close>

definition loadDataset :: "eval_io \<Rightarrow> paths \<Rightarrow> eval_error + dataset" where
  "loadDataset io p =
     (case Option.bind (io_file io (pa_pinned p)) (io_ids io) of
        None \<Rightarrow> Inl PinnedUnreadable
      | Some pinned \<Rightarrow>
          (case Load_dataset (io_items io) (io_file io (pa_dataset p)) pinned of
             Inl e \<Rightarrow> Inl (DatasetError e)
           | Inr ds \<Rightarrow>
               (case io_file io (pa_sha p) of
                  None \<Rightarrow> Inr ds
                | Some want \<Rightarrow> if ds_sha ds \<noteq> trim_space want then Inl (ShaMismatch (ds_sha ds) (trim_space want)) else Inr ds)))"

record run_flags =
  rf_dsn :: string
  rf_data :: string
  rf_fixtures :: string
  rf_corpus :: string
  rf_embedder :: string
  rf_topk :: int
  rf_passes :: int
  rf_signals :: string
  rf_out :: string
  rf_trace :: bool
  rf_fusion :: string
  rf_weights :: string
  rf_rrfk :: f64
  rf_coverage :: f64
  rf_reuse :: bool
  rf_cpu :: string
  rf_mem :: string

definition run_defaults :: "string list \<Rightarrow> run_flags" where
  "run_defaults env =
     \<lparr>rf_dsn = getenv env dsnEnv, rf_data = defaultDataDir, rf_fixtures = defaultFixturesDir, rf_corpus = ''turns'',
      rf_embedder = ''fixture'', rf_topk = 30, rf_passes = 3, rf_signals = ''on'', rf_out = [], rf_trace = False,
      rf_fusion = ''minmax'', rf_weights = [], rf_rrfk = Fin 60, rf_coverage = Fin (- 1), rf_reuse = False, rf_cpu = [], rf_mem = []\<rparr>"

definition parse_bool :: "string \<Rightarrow> bool option" where
  "parse_bool s =
     (if s \<in> {''1'', ''t'', ''T'', ''TRUE'', ''true'', ''True''} then Some True
      else if s \<in> {''0'', ''f'', ''F'', ''FALSE'', ''false'', ''False''} then Some False
      else None)"

definition run_flag_set :: "(string \<Rightarrow> f64 option) \<Rightarrow> run_flags flag_set" where
  "run_flag_set parse =
     [(''dsn'', False, \<lambda>x v. Some (v\<lparr>rf_dsn := x\<rparr>)), (''data'', False, \<lambda>x v. Some (v\<lparr>rf_data := x\<rparr>)),
      (''fixtures'', False, \<lambda>x v. Some (v\<lparr>rf_fixtures := x\<rparr>)), (''corpus'', False, \<lambda>x v. Some (v\<lparr>rf_corpus := x\<rparr>)),
      (''embedder'', False, \<lambda>x v. Some (v\<lparr>rf_embedder := x\<rparr>)),
      (''topk'', False, \<lambda>x v. map_option (\<lambda>n. v\<lparr>rf_topk := n\<rparr>) (parse_int x)),
      (''passes'', False, \<lambda>x v. map_option (\<lambda>n. v\<lparr>rf_passes := n\<rparr>) (parse_int x)),
      (''graph-signals'', False, \<lambda>x v. Some (v\<lparr>rf_signals := x\<rparr>)), (''out'', False, \<lambda>x v. Some (v\<lparr>rf_out := x\<rparr>)),
      (''trace'', True, \<lambda>x v. map_option (\<lambda>b. v\<lparr>rf_trace := b\<rparr>) (parse_bool x)),
      (''fusion'', False, \<lambda>x v. Some (v\<lparr>rf_fusion := x\<rparr>)), (''weights'', False, \<lambda>x v. Some (v\<lparr>rf_weights := x\<rparr>)),
      (''rrf-k'', False, \<lambda>x v. map_option (\<lambda>f. v\<lparr>rf_rrfk := f\<rparr>) (parse x)),
      (''coverage'', False, \<lambda>x v. map_option (\<lambda>f. v\<lparr>rf_coverage := f\<rparr>) (parse x)),
      (''reuse-db'', True, \<lambda>x v. map_option (\<lambda>b. v\<lparr>rf_reuse := b\<rparr>) (parse_bool x)),
      (''cpuprofile'', False, \<lambda>x v. Some (v\<lparr>rf_cpu := x\<rparr>)), (''memprofile'', False, \<lambda>x v. Some (v\<lparr>rf_mem := x\<rparr>))]"

definition run_settings :: "eval_io \<Rightarrow> string list \<Rightarrow> string list \<Rightarrow> eval_error + run_flags" where
  "run_settings io env args =
     (case parse_flags (run_flag_set (io_float io)) args (run_defaults env) of
        None \<Rightarrow> Inl BadFlags
      | Some v \<Rightarrow>
          if rf_passes v < 1 then Inl PassesBelowOne
          else if rf_dsn v = [] then Inl NoDatabase
          else if rf_topk v < 1 \<or> rf_topk v > 200 then Inl (TopKRange (rf_topk v))
          else Inr v)"

text \<open>The documents of the corpus, its name and its clock.\<close>

record corpus =
  co_name :: string
  co_docs :: "doc list"
  co_clock :: gtime

definition choose_corpus :: "eval_io \<Rightarrow> paths \<Rightarrow> run_flags \<Rightarrow> dataset \<Rightarrow> eval_error + corpus" where
  "choose_corpus io p v ds =
     (if rf_corpus v = ''turns'' then
        Inr \<lparr>co_name = ''turns'', co_docs = TurnsCorpus (io_sha1 io) (io_entities io) (ds_turns ds),
             co_clock = corpus_base + 24 * 3600 * 10 ^ 9\<rparr>
      else if rf_corpus v = ''extracted'' then
        (case Option.bind (io_file io (pa_snapshot p)) (io_docs io) of
           None \<Rightarrow> Inl SnapshotUnreadable
         | Some docs \<Rightarrow>
             (case Option.bind (io_file io (pa_labels p)) (io_labels io) of
                None \<Rightarrow> Inl LabelsUnreadable
              | Some labels \<Rightarrow>
                  (case ExtractedCorpus (io_uuid io) (io_ustr io) (io_time io) docs labels of
                     Inl e \<Rightarrow> Inl (SnapshotError e)
                   | Inr ds \<Rightarrow> Inr \<lparr>co_name = ''extracted'', co_docs = ds, co_clock = extracted_clock\<rparr>)))
      else Inl (UnknownCorpus (rf_corpus v)))"

text \<open>The width of the chosen embedder; a fixture is read here.\<close>

definition choose_embedder :: "eval_io \<Rightarrow> paths \<Rightarrow> run_flags \<Rightarrow> eval_error + int" where
  "choose_embedder io p v =
     (if rf_embedder v = ''fixture'' then
        (case Option.bind (io_file io (pa_embeddings p)) (\<lambda>b. ReadEmbeddings (map code_of b)) of
           None \<Rightarrow> Inl FixtureUnreadable
         | Some emb \<Rightarrow> Inr (em_dim emb))
      else if rf_embedder v = ''bow'' then Inr 384
      else Inl (UnknownEmbedder (rf_embedder v)))"

section \<open>The database of a run\<close>

record 's eval_ops =
  eo_schema :: "int \<Rightarrow> ('s, unit) op"
  eo_marker :: "('s, string) op"
  eo_set_marker :: "string \<Rightarrow> ('s, unit) op"
  eo_nodes :: "('s, int) op"
  eo_load :: "doc list \<Rightarrow> 's \<Rightarrow> (load_stats \<times> gerror option) \<times> 's"
  eo_analyze :: "('s, unit) op"
  eo_engine :: "'s rengine"
  eo_misses :: "'s \<Rightarrow> nat"

type_synonym ('s, 'a) eval = "'s \<Rightarrow> (eval_error + 'a) \<times> 's"

definition try_op :: "(gerror \<Rightarrow> eval_error) \<Rightarrow> ('s, 'a) op \<Rightarrow> ('a \<Rightarrow> ('s, 'b) eval) \<Rightarrow> ('s, 'b) eval" where
  "try_op err m k s = (case m s of (Inl e, s) \<Rightarrow> (Inl (err e), s) | (Inr x, s) \<Rightarrow> k x s)"

definition try_pure :: "eval_error + 'a \<Rightarrow> ('a \<Rightarrow> ('s, 'b) eval) \<Rightarrow> ('s, 'b) eval" where
  "try_pure r k s = (case r of Inl e \<Rightarrow> (Inl e, s) | Inr x \<Rightarrow> k x s)"

definition corpus_marker :: "run_flags \<Rightarrow> corpus \<Rightarrow> dataset \<Rightarrow> string" where
  "corpus_marker v c ds =
     co_name c @ ''/'' @ rf_embedder v @ ''/'' @ decimal (int (length (co_docs c))) @ ''/'' @ ds_sha ds"

text \<open>The corpus is loaded into an empty database, or one that is marked to hold it is kept.\<close>

definition load_corpus :: "'s eval_ops \<Rightarrow> run_flags \<Rightarrow> corpus \<Rightarrow> dataset \<Rightarrow> ('s, load_stats) eval" where
  "load_corpus db v c ds =
     (let marker = corpus_marker v c ds in
      try_op DatabaseError (eo_marker db) (\<lambda>loaded.
      if loaded = marker \<and> rf_reuse v then (\<lambda>s. (Inr \<lparr>lt_memories = length (co_docs c), lt_entities = 0\<rparr>, s))
      else if loaded \<noteq> [] then (\<lambda>s. (Inl (OtherCorpus loaded), s))
      else try_op DatabaseError (eo_nodes db) (\<lambda>n.
        if n > 0 then (\<lambda>s. (Inl (NotEmpty n), s))
        else (\<lambda>s. case eo_load db (co_docs c) s of
            ((stats, Some e), s) \<Rightarrow> (Inl (DatabaseError e), s)
          | ((stats, None), s) \<Rightarrow>
              try_op DatabaseError (eo_analyze db) (\<lambda>_.
              try_op DatabaseError (eo_set_marker db marker) (\<lambda>_ s. (Inr stats, s))) s))))"

definition fusion_mode_of :: "string \<Rightarrow> fusion_mode" where
  "fusion_mode_of s =
     (if s = ''linear'' then FusionLinear else if s = ''minmax'' then FusionMinMax
      else if s = ''rrf'' then FusionRRF else OtherMode s)"

text \<open>The engine over the repository, with the corpus' clock, the chosen fusion and the ablation.\<close>

definition configure :: "eval_io \<Rightarrow> run_flags \<Rightarrow> corpus \<Rightarrow> 's rengine \<Rightarrow> eval_error + 's rengine" where
  "configure io v c E =
     (let E = SetClock (\<lambda>s. (co_clock c, s)) E;
          f = DefaultFusion\<lparr>fu_mode := fusion_mode_of (rf_fusion v), fu_rrfk := rf_rrfk v\<rparr>;
          f = (if rf_coverage v \<ge> 0 then f\<lparr>fu_coverage := rf_coverage v\<rparr> else f);
          weighted = (if rf_weights v = [] then Some f
                      else map_option (\<lambda>(k, s, e). f\<lparr>fu_keyword := k, fu_semantic := s, fu_entity := e\<rparr>) (io_weights io (rf_weights v)))
      in case weighted of None \<Rightarrow> Inl (BadWeightText (rf_weights v))
        | Some f \<Rightarrow> (case SetFusion f of
            Inl e \<Rightarrow> Inl (FusionError e)
          | Inr f \<Rightarrow>
              let E = E\<lparr>re_fusion := f\<rparr> in
              if rf_signals v = ''on'' then Inr E
              else if rf_signals v = ''off'' then Inr (DisableGraphSignals E)
              else Inl (BadSignals (rf_signals v))))"

section \<open>The passes\<close>

text \<open>What the digest is taken of: the identifiers of each page, in order.\<close>

definition digest_line :: "(uuid \<Rightarrow> string) \<Rightarrow> question \<Rightarrow> uuid list \<Rightarrow> string" where
  "digest_line ustr q ids = q_id q @ '':'' @ concat (map (\<lambda>i. ustr i @ '','') ids) @ [newline]"

fun score_pass ::
  "(uuid \<Rightarrow> string) \<Rightarrow> 's rengine \<Rightarrow> int \<Rightarrow> doc list \<Rightarrow> question list \<Rightarrow>
    ('s, (question_result \<times> trace) list \<times> string) eval" where
  "score_pass ustr E topK docs [] s = (Inr ([], []), s)"
| "score_pass ustr E topK docs (q # qs) s =
     (case RetrieveTraced E (q_question q) (ProjectID (q_conversation q)) [] topK s of
        (Inl e, s) \<Rightarrow> (Inl (QueryFailed (q_id q) e), s)
      | (Inr (hits, trace), s) \<Rightarrow>
          (let ids = map (\<lambda>h. m_id (mc_memory h)) hits;
               r = score_question q ids (Sources docs) (Present docs)
           in case score_pass ustr E topK docs qs s of
                (Inl e, s) \<Rightarrow> (Inl e, s)
              | (Inr (rs, text), s) \<Rightarrow> (Inr ((r, trace) # rs, digest_line ustr q ids @ text), s)))"

fun timing_pass :: "'s rengine \<Rightarrow> int \<Rightarrow> question list \<Rightarrow> ('s, unit) eval" where
  "timing_pass E topK [] s = (Inr (), s)"
| "timing_pass E topK (q # qs) s =
     (case Retrieve E (q_question q) (ProjectID (q_conversation q)) [] topK s of
        (Inl e, s) \<Rightarrow> (Inl (QueryFailed (q_id q) e), s)
      | (Inr hits, s) \<Rightarrow> timing_pass E topK qs s)"

fun timing_passes :: "nat \<Rightarrow> 's rengine \<Rightarrow> int \<Rightarrow> question list \<Rightarrow> ('s, unit) eval" where
  "timing_passes 0 E topK qs s = (Inr (), s)"
| "timing_passes (Suc n) E topK qs s =
     (case timing_pass E topK qs s of (Inl e, s) \<Rightarrow> (Inl e, s) | (Inr u, s) \<Rightarrow> timing_passes n E topK qs s)"

text \<open>The value at a quantile of the sorted durations, which are nanoseconds, in milliseconds.\<close>

definition percentile_index :: "nat \<Rightarrow> real \<Rightarrow> nat" where
  "percentile_index n q =
     (let i = \<lceil>q * real n\<rceil> - 1;
          i = (if i < 0 then 0 else i);
          i = (if i \<ge> int n then int n - 1 else i)
      in nat i)"

definition percentile :: "int list \<Rightarrow> real \<Rightarrow> real" where
  "percentile durations q =
     (if durations = [] then 0
      else real_of_int (durations ! percentile_index (length durations) q div 1000) / 1000)"

section \<open>The trace of a question\<close>

definition doc_map :: "doc list \<Rightarrow> (uuid \<times> doc) list" where
  "doc_map docs = fold (\<lambda>d. AList.update (dc_id d) d) docs []"

definition rank_in :: "candidate list \<Rightarrow> uuid \<Rightarrow> int \<times> candidate" where
  "rank_in pool i =
     (case find (\<lambda>(n, c). cd_id c = i) (enumerate 0 pool) of
        None \<Rightarrow> (0, \<lparr>cd_id = nil_uuid, cd_score = 0, cd_raw = 0\<rparr>)
      | Some (n, c) \<Rightarrow> (int n + 1, c))"

record doc_trace =
  dt_id :: string
  dt_content :: string
  dt_final :: int
  dt_keyword_rank :: int
  dt_keyword :: f64
  dt_keyword_raw :: f64
  dt_vector_rank :: int
  dt_cosine :: f64
  dt_entity_rank :: int
  dt_entity :: f64
  dt_relevance :: f64
  dt_score :: f64

record evidence_trace =
  ev_key :: string
  ev_present :: bool
  ev_docs :: "doc_trace list"

record ranked_trace =
  rt_rank :: int
  rt_id :: string
  rt_source :: string
  rt_relevant :: bool
  rt_content :: string
  rt_ranked :: ranked

record question_trace =
  qt_id :: string
  qt_category :: string
  qt_question :: string
  qt_answer :: string
  qt_keywords :: "string list"
  qt_unsearchable :: bool
  qt_entities :: "string list"
  qt_pools :: "int list"
  qt_evidence :: "evidence_trace list"
  qt_top :: "ranked_trace list"

text \<open>The last of the ranked entries of an id, with its position.\<close>

definition final_of :: "ranked list \<Rightarrow> uuid \<rightharpoonup> int \<times> ranked" where
  "final_of rs = fold (\<lambda>(n, r) f. f(rd_id r \<mapsto> (int n + 1, r))) (enumerate 0 rs) Map.empty"

definition doc_trace_of :: "(uuid \<Rightarrow> string) \<Rightarrow> trace \<Rightarrow> uuid \<Rightarrow> doc \<Rightarrow> doc_trace" where
  "doc_trace_of ustr t i d =
     (let (kr, k) = rank_in (tr_keyword t) i; (vr, v) = rank_in (tr_vector t) i; (er, e) = rank_in (tr_entity t) i;
          dt = \<lparr>dt_id = ustr i, dt_content = dc_content d,
                dt_final = (case final_of (tr_ranked t) i of None \<Rightarrow> 0 | Some (n, r) \<Rightarrow> n),
                dt_keyword_rank = kr, dt_keyword = cd_score k, dt_keyword_raw = cd_raw k, dt_vector_rank = vr,
                dt_cosine = cd_score v, dt_entity_rank = er, dt_entity = cd_score e, dt_relevance = 0, dt_score = 0\<rparr>
      in case final_of (tr_ranked t) i of
           None \<Rightarrow> dt
         | Some (n, r) \<Rightarrow> dt\<lparr>dt_relevance := rd_relevance r, dt_score := rd_score r, dt_entity := rd_entity r\<rparr>)"

text \<open>A document is listed once for each time it names the turn among its sources.\<close>

definition evidence_of :: "(uuid \<Rightarrow> string) \<Rightarrow> trace \<Rightarrow> (uuid \<times> doc) list \<Rightarrow> (string \<Rightarrow> bool) \<Rightarrow> string \<Rightarrow> evidence_trace" where
  "evidence_of ustr t docs present key =
     \<lparr>ev_key = key, ev_present = present key,
      ev_docs = sort_stable (\<lambda>a b. ord_class.lexordp (map code_of (dt_id a)) (map code_of (dt_id b)))
        (concat (map (\<lambda>(i, d). map (\<lambda>src. doc_trace_of ustr t i d) (filter (\<lambda>src. src = key) (dc_sources d))) docs))\<rparr>"

definition top_of :: "(uuid \<Rightarrow> string) \<Rightarrow> (uuid \<times> doc) list \<Rightarrow> string list \<Rightarrow> nat \<times> ranked \<Rightarrow> ranked_trace" where
  "top_of ustr docs truth = (\<lambda>(n, r).
     let (sources, content) = (case map_of docs (rd_id r) of None \<Rightarrow> ([], []) | Some d \<Rightarrow> (dc_sources d, dc_content d)) in
     \<lparr>rt_rank = int n + 1, rt_id = ustr (rd_id r), rt_source = join '' '' sources,
      rt_relevant = list_ex (\<lambda>src. src \<in> set truth) sources, rt_content = content, rt_ranked = r\<rparr>)"

definition buildTrace :: "(uuid \<Rightarrow> string) \<Rightarrow> question \<Rightarrow> trace \<Rightarrow> (uuid \<times> doc) list \<Rightarrow> (string \<Rightarrow> bool) \<Rightarrow> question_trace" where
  "buildTrace ustr q t docs present =
     (let keys = map (TurnKey (q_conversation q)) (q_evidence q) in
      \<lparr>qt_id = q_id q, qt_category = q_category q, qt_question = q_question q, qt_answer = q_answer q,
       qt_keywords = tr_keywords t, qt_unsearchable = tr_unsearchable t, qt_entities = tr_entities t,
       qt_pools = map int [length (tr_keyword t), length (tr_vector t), length (tr_entity t), length (tr_ranked t)],
       qt_evidence = map (evidence_of ustr t docs present) keys,
       qt_top = map (top_of ustr docs keys) (take 10 (enumerate 0 (tr_ranked t)))\<rparr>)"

section \<open>The report\<close>

record report =
  rp_corpus :: string
  rp_embedder :: string
  rp_signals :: string
  rp_topk :: int
  rp_passes :: int
  rp_sha :: string
  rp_turns :: nat
  rp_memories :: nat
  rp_entities :: nat
  rp_metrics :: "string \<rightharpoonup> aggregate"
  rp_queries :: nat
  rp_digest :: string
  rp_questions :: "question_result list"
  rp_trace :: "question_trace list"

text \<open>The depths the metrics are reported at.\<close>

definition metric_depths :: "int \<Rightarrow> int list" where "metric_depths topK = [1, 3, 5, 10, topK]"

definition make_report ::
  "eval_io \<Rightarrow> run_flags \<Rightarrow> corpus \<Rightarrow> dataset \<Rightarrow> load_stats \<Rightarrow> (question_result \<times> trace) list \<Rightarrow> string \<Rightarrow> report" where
  "make_report io v c ds stats judged text =
     (let results = map fst judged in
      \<lparr>rp_corpus = co_name c, rp_embedder = rf_embedder v, rp_signals = rf_signals v, rp_topk = rf_topk v,
       rp_passes = rf_passes v, rp_sha = ds_sha ds, rp_turns = length (ds_turns ds), rp_memories = lt_memories stats,
       rp_entities = lt_entities stats,
       rp_metrics = (\<lambda>name. if ByCategory results name = [] then None
         else Some (AggregateResults (ByCategory results name) (metric_depths (rf_topk v)))),
       rp_queries = (if rf_passes v = 1 then length results else nat (rf_passes v - 1) * length results),
       rp_digest = hex_encode (sha256 text), rp_questions = results,
       rp_trace = (if rf_trace v
         then map (\<lambda>(q, r, t). buildTrace (io_ustr io) q t (doc_map (co_docs c)) (Present (co_docs c))) (zip (ds_questions ds) judged)
         else [])\<rparr>)"

definition runEval :: "eval_io \<Rightarrow> 's eval_ops \<Rightarrow> string list \<Rightarrow> string list \<Rightarrow> ('s, report) eval" where
  "runEval io db env args =
     try_pure (run_settings io env args) (\<lambda>v.
     let p = newPaths (io_join io) (rf_data v) (rf_fixtures v) in
     try_pure (loadDataset io p) (\<lambda>ds.
     try_pure (choose_corpus io p v ds) (\<lambda>c.
     try_pure (choose_embedder io p v) (\<lambda>width.
     try_op DatabaseError (eo_schema db width) (\<lambda>_ s.
     case load_corpus db v c ds s of
       (Inl e, s) \<Rightarrow> (Inl e, s)
     | (Inr stats, s) \<Rightarrow> try_pure (configure io v c (eo_engine db)) (\<lambda>E s.
         case score_pass (io_ustr io) E (rf_topk v) (co_docs c) (ds_questions ds) s of
           (Inl e, s) \<Rightarrow> (Inl e, s)
         | (Inr (judged, text), s) \<Rightarrow>
             (case timing_passes (nat (rf_passes v - 1)) E (rf_topk v) (ds_questions ds) s of
                (Inl e, s) \<Rightarrow> (Inl e, s)
              | (Inr u, s) \<Rightarrow>
                  if rf_embedder v = ''fixture'' \<and> eo_misses db s > 0 then (Inl (FixtureMisses (eo_misses db s)), s)
                  else (Inr (make_report io v c ds stats judged text), s))) s)))))"

section \<open>What the report says\<close>

lemma add_depths_hit:
  assumes "ag_hit a k = Fin x"
  shows "ag_hit (fold (add_depth r) ks a) k = Fin (x + (if 0 < hits_within r k then real (count_list ks k) else 0)) \<and>
    ag_n (fold (add_depth r) ks a) = ag_n a"
  using assms
proof (induction ks arbitrary: a x)
  case (Cons j ks)
  have "ag_n (add_depth r j a) = ag_n a" by (simp add: add_depth_def Let_def)
  moreover have "ag_hit (add_depth r j a) k = Fin (if j = k \<and> 0 < hits_within r k then x + 1 else x)"
    using Cons.prems by (auto simp: add_depth_def Let_def f64_consts)
  ultimately show ?case using Cons.IH by auto
qed simp

definition hit_count :: "question_result list \<Rightarrow> int \<Rightarrow> nat" where
  "hit_count rs k = length (filter (\<lambda>r. Scorable r \<and> 0 < hits_within r k) rs)"

lemma add_results_hit:
  assumes "ag_hit a k = Fin x"
  shows "ag_hit (fold (add_result ks) rs a) k = Fin (x + real (count_list ks k) * real (hit_count rs k)) \<and>
    ag_n (fold (add_result ks) rs a) = ag_n a + length (filter Scorable rs)"
  using assms
proof (induction rs arbitrary: a x)
  case (Cons r rs)
  show ?case
  proof (cases "Scorable r")
    case True
    let ?x = "x + (if 0 < hits_within r k then real (count_list ks k) else 0)"
    have step: "ag_hit (add_result ks r a) k = Fin ?x \<and> ag_n (add_result ks r a) = Suc (ag_n a)"
      using True add_depths_hit [of "a\<lparr>ag_n := Suc (ag_n a)\<rparr>" k x r ks] Cons.prems by (simp add: add_result_def Let_def)
    show ?thesis using Cons.IH [of "add_result ks r a" ?x] step True by (auto simp: hit_count_def algebra_simps)
  next
    case False
    then show ?thesis
      using Cons.IH [of "add_result ks r a" x] Cons.prems by (simp add: add_result_def hit_count_def)
  qed
qed (simp add: hit_count_def)

lemma divide_depths_hit:
  assumes "ag_hit a k = Fin x" "n \<noteq> 0"
  shows "ag_hit (fold (\<lambda>k agg. agg\<lparr>ag_hit := (ag_hit agg)(k := ag_hit agg k / Fin n),
       ag_recall := (ag_recall agg)(k := ag_recall agg k / Fin n), ag_full := (ag_full agg)(k := ag_full agg k / Fin n)\<rparr>) ks a) k =
     Fin (x / n ^ count_list ks k)"
  using assms by (induction ks arbitrary: a x) auto

text \<open>The hit rate is exact where a depth is listed once.  A depth listed \<open>m\<close> times is counted \<open>m\<close> times
  and divided \<open>m\<close> times.\<close>

lemma AggregateResults_hit:
  "ag_hit (AggregateResults rs ks) k =
     (let n = length (filter Scorable rs); m = count_list ks k in
      if n = 0 then Fin 0 else Fin (real m * real (hit_count rs k) / real n ^ m))"
proof -
  let ?a = "\<lparr>ag_n = 0, ag_unscorable = 0, ag_hit = (\<lambda>_. 0), ag_recall = (\<lambda>_. 0), ag_full = (\<lambda>_. 0), ag_mrr = 0, ag_ndcg = 0\<rparr>"
  let ?b = "fold (add_result ks) rs ?a"
  have b: "ag_hit ?b k = Fin (real (count_list ks k) * real (hit_count rs k))" "ag_n ?b = length (filter Scorable rs)"
    using add_results_hit [of ?a k 0 ks rs] by (simp_all add: f64_consts)
  have zero: "hit_count rs k = 0" if "filter Scorable rs = []"
    using that by (auto simp: hit_count_def filter_empty_conv)
  show ?thesis
    using b zero divide_depths_hit [OF b(1), of "real (length (filter Scorable rs))" ks]
    by (simp add: AggregateResults_def Let_def f_of_nat_def)
qed

lemma score_pass_ids:
  "score_pass ustr E topK docs qs s = (Inr (rs, line), s') \<Longrightarrow> map (\<lambda>r. qr_id (fst r)) rs = map q_id qs"
proof (induction ustr E topK docs qs s arbitrary: rs line s' rule: score_pass.induct)
  case (2 ustr E topK docs q qs s)
  then show ?case
    by (auto simp: Let_def score_question_def split: prod.splits sum.splits)
qed simp

lemma percentile_index_bound: "0 < n \<Longrightarrow> percentile_index n q < n"
  by (auto simp: percentile_index_def Let_def)

lemma try_op_Inr:
  "try_op err m k s = (Inr y, s') \<Longrightarrow> (\<And>x s1. m s = (Inr x, s1) \<Longrightarrow> k x s1 = (Inr y, s') \<Longrightarrow> P) \<Longrightarrow> P"
  by (auto simp: try_op_def split: prod.splits sum.splits)

lemma try_pure_Inr:
  "try_pure r k s = (Inr y, s') \<Longrightarrow> (\<And>x. r = Inr x \<Longrightarrow> k x s = (Inr y, s') \<Longrightarrow> P) \<Longrightarrow> P"
  by (auto simp: try_pure_def split: sum.splits)

text \<open>The two ways past the marker.\<close>

lemma load_corpus_Inr:
  assumes "load_corpus db v c ds s = (Inr stats, s')"
  shows "\<exists>loaded s1. eo_marker db s = (Inr loaded, s1) \<and>
    (if loaded = [] then \<exists>n s2. eo_nodes db s1 = (Inr n, s2) \<and> n \<le> 0 else loaded = corpus_marker v c ds \<and> rf_reuse v)"
proof -
  have marker: "corpus_marker v c ds \<noteq> []" by (simp add: corpus_marker_def)
  show ?thesis using assms marker
    by (auto simp: load_corpus_def Let_def elim!: try_op_Inr split: if_splits)
qed

lemma run_settings_Inr:
  "run_settings io env args = Inr v \<Longrightarrow> 1 \<le> rf_passes v \<and> 1 \<le> rf_topk v \<and> rf_topk v \<le> 200"
  by (auto simp: run_settings_def split: option.splits if_splits)

lemma loadDataset_Inr:
  "loadDataset io p = Inr ds \<Longrightarrow> (case io_file io (pa_sha p) of None \<Rightarrow> True | Some want \<Rightarrow> ds_sha ds = trim_space want)"
  by (auto simp: loadDataset_def split: option.splits sum.splits if_splits)

lemma runEval_steps:
  assumes "runEval io db env args s = (Inr rep, s')"
  shows "\<exists>v ds c s1 s2 stats judged line.
    run_settings io env args = Inr v \<and> loadDataset io (newPaths (io_join io) (rf_data v) (rf_fixtures v)) = Inr ds \<and>
    choose_corpus io (newPaths (io_join io) (rf_data v) (rf_fixtures v)) v ds = Inr c \<and>
    load_corpus db v c ds s1 = (Inr stats, s2) \<and> map (\<lambda>r. qr_id (fst r)) judged = map q_id (ds_questions ds) \<and>
    (rf_embedder v = ''fixture'' \<longrightarrow> eo_misses db s' = 0) \<and> rep = make_report io v c ds stats judged line"
proof -
  let ?p = "\<lambda>v. newPaths (io_join io) (rf_data v) (rf_fixtures v)"
  from assms obtain v ds c width u s1 where r: "run_settings io env args = Inr v" "loadDataset io (?p v) = Inr ds"
      "choose_corpus io (?p v) v ds = Inr c" "eo_schema db width s = (Inr u, s1)"
    and rest: "(case load_corpus db v c ds s1 of
       (Inl e, s) \<Rightarrow> (Inl e, s)
     | (Inr stats, s) \<Rightarrow> try_pure (configure io v c (eo_engine db)) (\<lambda>E s.
         case score_pass (io_ustr io) E (rf_topk v) (co_docs c) (ds_questions ds) s of
           (Inl e, s) \<Rightarrow> (Inl e, s)
         | (Inr (judged, line), s) \<Rightarrow>
             (case timing_passes (nat (rf_passes v - 1)) E (rf_topk v) (ds_questions ds) s of
                (Inl e, s) \<Rightarrow> (Inl e, s)
              | (Inr u, s) \<Rightarrow>
                  if rf_embedder v = ''fixture'' \<and> eo_misses db s > 0 then (Inl (FixtureMisses (eo_misses db s)), s)
                  else (Inr (make_report io v c ds stats judged line), s))) s) = (Inr rep, s')"
    unfolding runEval_def Let_def by (elim try_pure_Inr try_op_Inr) (rule that)
  from rest obtain stats s2 E judged line s3 where l: "load_corpus db v c ds s1 = (Inr stats, s2)"
      "score_pass (io_ustr io) E (rf_topk v) (co_docs c) (ds_questions ds) s2 = (Inr (judged, line), s3)"
      "rf_embedder v = ''fixture'' \<longrightarrow> eo_misses db s' = 0" "rep = make_report io v c ds stats judged line"
    by (auto elim!: try_pure_Inr split: prod.splits sum.splits if_splits)
  show ?thesis using r(1-3) l score_pass_ids [OF l(2)] by blast
qed


definition sample_io :: eval_io where
  "sample_io =
     \<lparr>io_join = (\<lambda>d f. d @ ''/'' @ f), io_file = (\<lambda>p. if p = ''eval/fixtures/locomo/locomo10.sha256'' then None else Some []),
      io_ids = (\<lambda>b. Some []),
      io_items = (\<lambda>b. Some [\<lparr>ri_sample = ''c'',
        ri_qa = [\<lparr>rq_question = [], rq_answer = JNull, rq_evidence = [], rq_category = 1, rq_adversarial = []\<rparr>], ri_conversation = []\<rparr>]),
      io_docs = (\<lambda>b. None), io_labels = (\<lambda>b. None), io_uuid = (\<lambda>s. None), io_ustr = (\<lambda>i. []), io_time = (\<lambda>s. None), io_sha1 = (\<lambda>s. 0),
      io_entities = (\<lambda>s. []), io_float = (\<lambda>s. None), io_weights = (\<lambda>s. None)\<rparr>"

definition empty_repo :: "unit rrepo" where
  "empty_repo = \<lparr>rr_text = (\<lambda>p ks n. return_op ([], 0)), rr_searchable = (\<lambda>ks. return_op False), rr_query = (\<lambda>f. return_op []),
     rr_vector = (\<lambda>v p n. return_op []), rr_entities = (\<lambda>p es n. return_op []), rr_count = (\<lambda>is es. return_op Map.empty),
     rr_superseded = (\<lambda>is. return_op (\<lambda>i. False))\<rparr>"

definition sample_ops :: "unit eval_ops" where
  "sample_ops =
     \<lparr>eo_schema = (\<lambda>n. return_op ()), eo_marker = return_op [], eo_set_marker = (\<lambda>m. return_op ()), eo_nodes = return_op 0,
      eo_load = (\<lambda>ds s. ((\<lparr>lt_memories = 0, lt_entities = 0\<rparr>, None), s)), eo_analyze = return_op (),
      eo_engine = \<lparr>re_repo = empty_repo, re_embedder = None, re_net = (\<lambda>a b c s. (Unreachable, s)), re_off = False,
        re_now = (\<lambda>s. (0, s)), re_fusion = DefaultFusion, re_entities = (\<lambda>q. [])\<rparr>,
      eo_misses = (\<lambda>s. 0)\<rparr>"


text \<open>With \<open>-topk 10\<close> a single question answered at the first rank is reported as a hit rate of 2.\<close>

lemma depth_listed_twice:
  assumes "Scorable r" "0 < hits_within r 10"
  shows "ag_hit (AggregateResults [r] (metric_depths 10)) 10 = Fin 2" "ag_hit (AggregateResults [r] (metric_depths 30)) 10 = Fin 1"
    "ag_hit (AggregateResults [r, r, r, r] (metric_depths 10)) 10 = Fin (1 / 2)"
  using assms by (simp_all add: AggregateResults_hit metric_depths_def hit_count_def)

section \<open>Building the fixture\<close>

text \<open>The files of a run of \<open>fixtures\<close> and the number of requests its embedder has answered.\<close>

record fixture_state =
  fx_files :: "string \<Rightarrow> string option"
  fx_calls :: nat

record fixture_flags =
  ff_data :: string
  ff_fixtures :: string
  ff_ollama :: string
  ff_model :: string
  ff_dim :: int

datatype fixture_error =
    FixtureFlags | DownloadFailed | FixturePinned | FixtureDataset load_error | FixtureSha string string | FixtureSnapshot
  | FixtureCorrupt | FixtureWidth int int | EmbedFailed nat | AddFailed | WriteFailed

definition nomicDim :: int where "nomicDim = 768"

definition fixture_flag_set :: "fixture_flags flag_set" where
  "fixture_flag_set =
     [(''data'', False, \<lambda>x v. Some (v\<lparr>ff_data := x\<rparr>)), (''fixtures'', False, \<lambda>x v. Some (v\<lparr>ff_fixtures := x\<rparr>)),
      (''ollama'', False, \<lambda>x v. Some (v\<lparr>ff_ollama := x\<rparr>)), (''model'', False, \<lambda>x v. Some (v\<lparr>ff_model := x\<rparr>)),
      (''dim'', False, \<lambda>x v. map_option (\<lambda>n. v\<lparr>ff_dim := n\<rparr>) (parse_int x))]"

definition write_file :: "string \<Rightarrow> string \<Rightarrow> fixture_state \<Rightarrow> fixture_state" where
  "write_file p b s = s\<lparr>fx_files := (fx_files s)(p \<mapsto> b)\<rparr>"

text \<open>The dataset is downloaded unless its file exists; a reply other than 200 is an error.\<close>

definition ensureDataset :: "string option \<Rightarrow> string \<Rightarrow> fixture_state \<Rightarrow> (fixture_error + unit) \<times> fixture_state" where
  "ensureDataset download p s =
     (if fx_files s p \<noteq> None then (Inr (), s)
      else case download of None \<Rightarrow> (Inl DownloadFailed, s) | Some body \<Rightarrow> (Inr (), write_file p body s))"

definition fixture_texts :: "dataset \<Rightarrow> snapshot_doc list \<Rightarrow> string list" where
  "fixture_texts ds docs = map q_question (ds_questions ds) @ map tn_content (ds_turns ds) @ map sd_content docs"

definition missing_texts :: "embeddings \<Rightarrow> string list \<Rightarrow> string list" where
  "missing_texts emb texts = filter (\<lambda>t. Lookup t emb = None) (first_by (\<lambda>t. t) (\<lambda>t. False) {} texts)"

definition bytes_of :: "nat list \<Rightarrow> string" where "bytes_of bs = map char_of bs"

text \<open>The texts are embedded in order; the fixture is written after every 500 and after the last.\<close>

fun embed_missing ::
  "(nat \<Rightarrow> string \<Rightarrow> float32 list option) \<Rightarrow> string \<Rightarrow> nat \<Rightarrow> nat \<Rightarrow> string list \<Rightarrow> embeddings \<Rightarrow> fixture_state \<Rightarrow>
    (fixture_error + embeddings) \<times> fixture_state" where
  "embed_missing em p n i [] emb s = (Inr emb, s)"
| "embed_missing em p n i (t # ts) emb s =
     (case em (fx_calls s) t of
        None \<Rightarrow> (Inl (EmbedFailed i), s)
      | Some vec \<Rightarrow>
          (let s = s\<lparr>fx_calls := Suc (fx_calls s)\<rparr> in
           case Add t vec emb of
             None \<Rightarrow> (Inl AddFailed, s)
           | Some emb \<Rightarrow>
               if Suc i mod 500 = 0 \<or> Suc i = n
               then (case Write emb of
                   None \<Rightarrow> (Inl WriteFailed, s)
                 | Some b \<Rightarrow> embed_missing em p n (Suc i) ts emb (write_file p (bytes_of b) s))
               else embed_missing em p n (Suc i) ts emb s))"

text \<open>After the dataset: the checksum is recorded on the first run and compared later.\<close>

definition check_sha :: "string \<Rightarrow> dataset \<Rightarrow> fixture_state \<Rightarrow> (fixture_error + unit) \<times> fixture_state" where
  "check_sha p ds s =
     (case fx_files s p of
        None \<Rightarrow> (Inr (), write_file p (ds_sha ds @ [newline]) s)
      | Some want \<Rightarrow>
          if trim_space want \<noteq> ds_sha ds then (Inl (FixtureSha (ds_sha ds) (trim_space want)), s) else (Inr (), s))"

definition build_fixture ::
  "eval_io \<Rightarrow> (nat \<Rightarrow> string \<Rightarrow> float32 list option) \<Rightarrow> paths \<Rightarrow> int \<Rightarrow> dataset \<Rightarrow> fixture_state \<Rightarrow>
    (fixture_error + embeddings) \<times> fixture_state" where
  "build_fixture io em p width ds s =
     (case (case fx_files s (pa_snapshot p) of None \<Rightarrow> Some [] | Some b \<Rightarrow> io_docs io b) of
        None \<Rightarrow> (Inl FixtureSnapshot, s)
      | Some docs \<Rightarrow>
          (case (case fx_files s (pa_embeddings p) of
                   None \<Rightarrow> Some (NewEmbeddings width) | Some b \<Rightarrow> ReadEmbeddings (map code_of b)) of
             None \<Rightarrow> (Inl FixtureCorrupt, s)
           | Some emb \<Rightarrow>
               if em_dim emb \<noteq> width then (Inl (FixtureWidth (em_dim emb) width), s)
               else let missing = missing_texts emb (fixture_texts ds docs) in
                 embed_missing em (pa_embeddings p) (length missing) 0 missing emb s))"

definition runFixtures ::
  "eval_io \<Rightarrow> string option \<Rightarrow> (string \<Rightarrow> string \<Rightarrow> int \<Rightarrow> nat \<Rightarrow> string \<Rightarrow> float32 list option) \<Rightarrow> string list \<Rightarrow> fixture_state \<Rightarrow>
    (fixture_error + embeddings) \<times> fixture_state" where
  "runFixtures io download ollama args s =
     (case parse_flags fixture_flag_set args
            \<lparr>ff_data = defaultDataDir, ff_fixtures = defaultFixturesDir, ff_ollama = ''http://localhost:11434'',
             ff_model = ''nomic-embed-text'', ff_dim = nomicDim\<rparr> of
        None \<Rightarrow> (Inl FixtureFlags, s)
      | Some v \<Rightarrow>
          (let p = newPaths (io_join io) (ff_data v) (ff_fixtures v) in
           case ensureDataset download (pa_dataset p) s of
             (Inl e, s) \<Rightarrow> (Inl e, s)
           | (Inr u, s) \<Rightarrow>
               (case Option.bind (fx_files s (pa_pinned p)) (io_ids io) of
                  None \<Rightarrow> (Inl FixturePinned, s)
                | Some pinned \<Rightarrow>
                    (case Load_dataset (io_items io) (fx_files s (pa_dataset p)) pinned of
                       Inl e \<Rightarrow> (Inl (FixtureDataset e), s)
                     | Inr ds \<Rightarrow>
                         (case check_sha (pa_sha p) ds s of
                            (Inl e, s) \<Rightarrow> (Inl e, s)
                          | (Inr u, s) \<Rightarrow> build_fixture io (ollama (ff_ollama v) (ff_model v) (ff_dim v)) p (ff_dim v) ds s)))))"

lemma Lookup_Add:
  "Add t v e = Some e' \<Longrightarrow> Lookup u e' = (if keyOf u = keyOf t then Some v else Lookup u e)"
  by (auto simp: Add_def Lookup_def update_conv' split: if_splits)

lemma embed_missing_holds:
  "embed_missing em p n i ts emb s = (Inr emb', s') \<Longrightarrow>
     (\<forall>t \<in> set ts. Lookup t emb' \<noteq> None) \<and> (\<forall>t. Lookup t emb \<noteq> None \<longrightarrow> Lookup t emb' \<noteq> None)"
proof (induction em p n i ts emb s rule: embed_missing.induct)
  case (2 em p n i t ts emb s)
  then show ?case
    by (auto simp: Let_def Lookup_Add split: option.splits if_splits)
qed simp

text \<open>A fixture that is built holds a vector for every text of the dataset and the snapshot.\<close>

lemma build_fixture_complete:
  assumes "build_fixture io em p width ds s = (Inr emb, s')"
    and "(case fx_files s (pa_snapshot p) of None \<Rightarrow> Some [] | Some b \<Rightarrow> io_docs io b) = Some docs"
  shows "\<forall>t \<in> set (fixture_texts ds docs). Lookup t emb \<noteq> None"
proof -
  obtain emb0 where e: "embed_missing em (pa_embeddings p) (length (missing_texts emb0 (fixture_texts ds docs))) 0
      (missing_texts emb0 (fixture_texts ds docs)) emb0 s = (Inr emb, s')"
    using assms by (auto simp: build_fixture_def Let_def split: option.splits if_splits)
  have "set (missing_texts emb0 (fixture_texts ds docs)) = {t \<in> set (fixture_texts ds docs). Lookup t emb0 = None}"
    using first_by_key_set [of "\<lambda>t. t" "\<lambda>t. False" "{}" "fixture_texts ds docs"] by (auto simp: missing_texts_def)
  then show ?thesis using embed_missing_holds [OF e] by blast
qed

end
