(* ===== verification/Spec2Isabelle.thy ===== *)
theory Spec2Isabelle
  imports Schema Evaluate
begin

text \<open>
  A verification development for Kora, a memory engine for agents: a Go server that turns
  conversations into memories, keeps them as a property graph (PostgreSQL with Apache AGE and
  pgvector), and answers queries by combining full-text, vector and entity search.

  \<^bold>\<open>The program.\<close>  A request reaches a handler of \<^verbatim>\<open>internal/service\<close> through the key check and the
  token buckets of \<^verbatim>\<open>internal/auth\<close>.  \<open>Store\<close> and \<open>Extract\<close> run the write path (\<^verbatim>\<open>internal/ingest\<close>):
  extract memories (\<^verbatim>\<open>internal/extraction\<close>), fold the redundant ones, embed them
  (\<^verbatim>\<open>internal/embedding\<close>), write them through the repository (\<^verbatim>\<open>internal/graph\<close>), then link
  entities, related and contradicted memories.  \<open>Query\<close> runs the read path (\<^verbatim>\<open>internal/retrieval\<close>),
  which merges three retrievers and ranks the result (\<^verbatim>\<open>internal/ranking\<close>).  A scheduled job
  (\<^verbatim>\<open>internal/service/consolidate.go\<close>) merges duplicates, recomputes decay scores and prunes.  An
  offline harness (\<^verbatim>\<open>internal/evalset\<close>) measures retrieval.

  \<^bold>\<open>The theories,\<close> in the order of their dependencies.  A definition has the name of the Go function,
  type or constant it translates; a handler whose name is taken has the prefix \<open>svc_\<close>.
  \<^item> \<^theory_text>\<open>Prelude\<close>, \<^theory_text>\<open>GoFloat\<close>, \<^theory_text>\<open>GoStrings\<close>, \<^theory_text>\<open>Digest\<close>: shared lemmas and hint collections; \<open>float64\<close>;
    the functions of package strings; SHA-256 on 32-bit words.
  \<^item> \<^theory_text>\<open>DomainModel\<close>: \<^verbatim>\<open>pkg/model\<close>.
  \<^item> \<^theory_text>\<open>Ranking\<close>: \<^verbatim>\<open>internal/ranking\<close>, the score, its signals and the ranked page.
  \<^item> \<^theory_text>\<open>Dedup\<close>, \<^theory_text>\<open>Contradiction\<close>, \<^theory_text>\<open>Extractor\<close>: \<^verbatim>\<open>internal/extraction\<close>.
  \<^item> \<^theory_text>\<open>Auth\<close>: \<^verbatim>\<open>internal/auth\<close>, the keys, the buckets and the two layers that enforce them.
  \<^item> \<^theory_text>\<open>GraphStore\<close>: \<^verbatim>\<open>internal/graph\<close>.  The state is \<open>world\<close>: the database, a schedule of what befalls
    each statement (other writers, a lost or unacknowledged statement, a lost race), and a tick for
    the clock and the identifiers.
  \<^item> \<^theory_text>\<open>Embedding\<close>: \<^verbatim>\<open>internal/embedding\<close>, with the network as a parameter.
  \<^item> \<^theory_text>\<open>Effects\<close>: best-effort steps, and two judgements on operations used by all their callers.
  \<^item> \<^theory_text>\<open>Ingest\<close>, \<^theory_text>\<open>Retrieval\<close>: the write path and the read path, over a record of repository operations.
  \<^item> \<^theory_text>\<open>Consolidation\<close>: the maintenance job.
  \<^item> \<^theory_text>\<open>Service\<close>: the handlers of \<^verbatim>\<open>memory.go\<close> and \<^verbatim>\<open>session.go\<close> on the state \<open>server\<close> (the world and the
    gauge of active sessions), \<open>serve\<close> for one request and the runs \<open>server_run\<close>.
  \<^item> \<^theory_text>\<open>Abstract\<close>: the property graph a client sees, which the repository implements, and the requests
    an extraction sends to its embedding provider.
  \<^item> \<^theory_text>\<open>Operations\<close>: \<^verbatim>\<open>internal/config\<close>, the start of the two binaries, the health endpoint with its
    cache of statistics, the probes, and the level of a request's log line.
  \<^item> \<^theory_text>\<open>Gateway\<close>: \<^verbatim>\<open>cmd/server/main.go\<close>, the gRPC server and the HTTP server over everything above, and
    the life of the process from start to exit.
  \<^item> \<^theory_text>\<open>Client\<close>: \<^verbatim>\<open>cmd/cli/main.go\<close>, the command line client in front of the assembled server.
  \<^item> \<^theory_text>\<open>Schema\<close>: the schema set-up of \<^verbatim>\<open>internal/graph\<close>, on the catalog of the database.
  \<^item> \<^theory_text>\<open>Evalset\<close>, \<^theory_text>\<open>Dataset\<close>: \<^verbatim>\<open>internal/evalset\<close>, scoring, metrics, the fixture file and the loader;
    the dataset from its parsed JSON to turns and questions.
  \<^item> \<^theory_text>\<open>Evaluate\<close>: \<^verbatim>\<open>cmd/eval/main.go\<close>, the run of an evaluation and its report, and the building of its
    fixture.

  \<^bold>\<open>What the lemmas show.\<close>  The pure components: what each decision decides, bounds for every float
  including NaN, and that no fact is lost by folding.  The repository: every write keeps the
  database's invariant under every schedule, updates are compare-and-set, deletion leaves no
  orphans, and linked entities are found.  The paths: extraction loses no fact and fails only with
  its extractor, retrieval stays in its project and degrades as documented, the page is bounded and
  sorted.  The interfaces are locales (\<open>sort_less\<close> in \<open>Prelude\<close>, the contracts of the repository in
  \<open>Ingest\<close> and \<open>Retrieval\<close>, \<open>steady\<close> and \<open>memory_writes\<close> in \<open>Service\<close>), each interpreted on the
  model's own repository.  The server: the invariant holds in every run, the gauge counts the open
  sessions, and a refused request wrote nothing.  The
  process: a request without a key learns and changes nothing through either protocol, the set-up can
  be interrupted anywhere and repeated, and the pool outlives the calls that use it.

  \<^bold>\<open>Parameters.\<close>  The text form of a UUID and its parser, PostgreSQL's text search and pgvector's
  distance, the HTTP network, the chat provider, \<open>unicode\<close>'s tables, \<open>strconv.ParseFloat\<close>, the clock
  and the random source are arguments; a theorem about them holds for every value, or states what it
  needs as a hypothesis.

  \<^bold>\<open>Bounds and fuel.\<close>  There is no fuel: every loop of the code is structural or bounded by its data,
  the retries of \<open>linkOneEntity\<close> by \<open>entityLinkAttempts\<close>.  Integers that count are unbounded where no
  database could reach their width; hashes, UUIDs and the bits of a float32 are words, and the
  \<open>int32\<close> of a response is clamped as the code clamps it.  Floats are reals with NaN and infinities,
  so rounding is not modelled.

  \<^bold>\<open>Not modelled.\<close>  The connection pool of \<^verbatim>\<open>internal/graph\<close>; the JSON of query parameters
  beyond its refusal of NaN and the infinities; goroutines and deadlines, other than as schedules;
  \<^verbatim>\<open>internal/metrics\<close> and the handler set-up of \<^verbatim>\<open>internal/logging\<close>, which only observe; the formatting
  of what the commands print, and the profiles and durations of an evaluation; and the generated
  code of \<^verbatim>\<open>api/gen\<close>.
\<close>

end
